(* ===== verification/Prelude.thy ===== *)
theory Prelude
  imports Main "HOL-Library.Word" "HOL-Library.AList"
begin

text \<open>
  Shared vocabulary of the development: Python strings as lists of code points, bytes as
  lists of 8-bit words, exceptions as the left side of a sum, big-endian integers as
  \<^verbatim>\<open>struct\<close> and \<open>int.to_bytes\<close> write them, Python's insertion-ordered dictionaries as
  association lists, and the lemma collections the component theories extend.
\<close>

section \<open>Lemma collections\<close>

named_theorems result_simps \<open>rewriting of computations that may raise\<close>
named_theorems codec_simps \<open>lengths and inverses of the binary encodings\<close>
named_theorems json_simps \<open>JSON text and JSON values\<close>
named_theorems state_simps \<open>projections of the component states after an operation\<close>

section \<open>Strings and bytes\<close>

type_synonym byte = "8 word"
type_synonym bytes = "byte list"

text \<open>A Python \<^verbatim>\<open>str\<close> is the list of its code points; \<open>u\<close> makes one from a literal.\<close>

type_synonym pystr = "nat list"

definition u :: "string \<Rightarrow> pystr" where
  "u s = map of_char s"

text \<open>\<open>str.startswith\<close> for a one-character prefix.\<close>

definition starts_with_cp :: "nat \<Rightarrow> pystr \<Rightarrow> bool" where
  "starts_with_cp c s = (case s of [] \<Rightarrow> False | x # _ \<Rightarrow> x = c)"

abbreviation (input) UNDERSCORE :: nat where "UNDERSCORE \<equiv> 95"
abbreviation (input) NEWLINE :: nat where "NEWLINE \<equiv> 10"

section \<open>JSON values\<close>

text \<open>What \<^verbatim>\<open>json.loads\<close> returns; a float is kept as its literal.\<close>

datatype json =
    JNull
  | JBool bool
  | JInt int
  | JFloat pystr
  | JStr pystr
  | JArr "json list"
  | JObj "(pystr \<times> json) list"

section \<open>Exceptions and results\<close>

text \<open>
  The exceptions the sources raise or catch. Where the source writes the message itself the
  constructor carries it; an exception of a user handler is its class name and its text.
  Two constructors mark where the model stops: \<open>UnmodelledEncoding\<close> is \<^verbatim>\<open>json.loads\<close> of a buffer
  that it would read as UTF-16, UTF-32 or UTF-8 with a byte order mark, \<open>UnmodelledType\<close> an
  identifier of the checkpoint protocol that is not a string.
\<close>

datatype remote_class =
    PilotRemoteError
  | PilotHandlerNotFoundError
  | PilotUnauthorizedError
  | PilotHandlerError
  | PilotRateLimitError

datatype exn =
    StructError
  | UnicodeEncodeError
  | UnicodeDecodeError
  | JSONDecodeError
  | UnmodelledEncoding
  | UnmodelledType
  | BinasciiError
  | AttributeError
  | IndexError
  | CancelledError
  | IncompleteReadError
  | OverflowError
  | KeyError pystr
  | TypeError pystr
  | ValueError pystr
  | RuntimeError pystr
  | TimeoutError pystr
  | EOFError pystr
  | PilotConnectionError pystr
  | PilotConnectionErrorWrapper pystr
  | PilotRemote remote_class json "pystr option" "pystr option"
  | UserExn pystr pystr

type_synonym 'a result = "exn + 'a"

definition rbind :: "'a result \<Rightarrow> ('a \<Rightarrow> 'b result) \<Rightarrow> 'b result" where
  "rbind m f = (case m of Inl e \<Rightarrow> Inl e | Inr x \<Rightarrow> f x)"

definition rmap :: "('a \<Rightarrow> 'b) \<Rightarrow> 'a result \<Rightarrow> 'b result" where
  "rmap f m = (case m of Inl e \<Rightarrow> Inl e | Inr x \<Rightarrow> Inr (f x))"

text \<open>A loop that collects results and stops at the first exception.\<close>

fun rmap_list :: "('a \<Rightarrow> 'b result) \<Rightarrow> 'a list \<Rightarrow> 'b list result" where
  "rmap_list f [] = Inr []"
| "rmap_list f (x # xs) = rbind (f x) (\<lambda>y. rmap ((#) y) (rmap_list f xs))"

text \<open>\<^verbatim>\<open>except Exception\<close> does not catch a cancellation.\<close>

definition is_Exception :: "exn \<Rightarrow> bool" where
  "is_Exception e \<longleftrightarrow> e \<noteq> CancelledError"

section \<open>Big-endian integers\<close>

text \<open>\<open>be_bytes k n\<close> is \<^verbatim>\<open>n.to_bytes(k, "big")\<close> for a value that fits.\<close>

fun be_bytes :: "nat \<Rightarrow> nat \<Rightarrow> bytes" where
  "be_bytes 0 n = []"
| "be_bytes (Suc k) n = be_bytes k (n div 256) @ [word_of_nat n]"

text \<open>\<^verbatim>\<open>int.from_bytes(bs, "big")\<close>.\<close>

definition be_nat :: "bytes \<Rightarrow> nat" where
  "be_nat bs = foldl (\<lambda>a b. a * 256 + unat b) 0 bs"

text \<open>
  \<^verbatim>\<open>struct.pack(">H", n)\<close> and \<^verbatim>\<open>struct.pack(">I", n)\<close>: out of range is \<^verbatim>\<open>struct.error\<close>.
  \<^verbatim>\<open>struct.unpack_from\<close> raises it when the buffer is too short.
\<close>

definition pack_H :: "int \<Rightarrow> bytes result" where
  "pack_H n = (if 0 \<le> n \<and> n < 65536 then Inr (be_bytes 2 (nat n)) else Inl StructError)"

definition pack_I :: "int \<Rightarrow> bytes result" where
  "pack_I n = (if 0 \<le> n \<and> n < 4294967296 then Inr (be_bytes 4 (nat n)) else Inl StructError)"

definition unpack_H :: "bytes \<Rightarrow> nat \<Rightarrow> int result" where
  "unpack_H buf off =
     (if off + 2 \<le> length buf then Inr (int (be_nat (take 2 (drop off buf)))) else Inl StructError)"

definition unpack_I :: "bytes \<Rightarrow> nat \<Rightarrow> int result" where
  "unpack_I buf off =
     (if off + 4 \<le> length buf then Inr (int (be_nat (take 4 (drop off buf)))) else Inl StructError)"

section \<open>Dictionaries\<close>

text \<open>
  A \<^verbatim>\<open>dict\<close> keeps insertion order: assignment to a present key replaces the value in place,
  to a new key appends, which is what \<open>AList.update\<close> does; deletion is \<open>AList.delete\<close>.
\<close>

type_synonym ('k, 'v) dict = "('k \<times> 'v) list"

definition dict_get :: "('k, 'v) dict \<Rightarrow> 'k \<Rightarrow> 'v option" where
  "dict_get d k = map_of d k"

definition dict_set :: "('k, 'v) dict \<Rightarrow> 'k \<Rightarrow> 'v \<Rightarrow> ('k, 'v) dict" where
  "dict_set d k v = AList.update k v d"

definition dict_del :: "('k, 'v) dict \<Rightarrow> 'k \<Rightarrow> ('k, 'v) dict" where
  "dict_del d k = AList.delete k d"

definition dict_keys :: "('k, 'v) dict \<Rightarrow> 'k list" where
  "dict_keys d = map fst d"

text \<open>\<^verbatim>\<open>xs.remove(x)\<close> on a list that holds \<open>x\<close>: the first occurrence goes (\<open>remove1\<close>).\<close>

section \<open>Lemmas: results\<close>

lemma rbind_simps [simp, result_simps]:
  "rbind (Inl e) f = Inl e"
  "rbind (Inr x) f = f x"
  by (simp_all add: rbind_def)

lemma rmap_simps [simp, result_simps]:
  "rmap f (Inl e) = Inl e"
  "rmap f (Inr x) = Inr (f x)"
  by (simp_all add: rmap_def)

lemma rbind_eq_Inr [result_simps]:
  "rbind m f = Inr y \<longleftrightarrow> (\<exists>x. m = Inr x \<and> f x = Inr y)"
  by (cases m) auto

lemma rbind_eq_Inl [result_simps]:
  "rbind m f = Inl e \<longleftrightarrow> m = Inl e \<or> (\<exists>x. m = Inr x \<and> f x = Inl e)"
  by (cases m) auto

lemma rmap_eq_Inr [result_simps]: "rmap f m = Inr y \<longleftrightarrow> (\<exists>x. m = Inr x \<and> y = f x)"
  by (cases m) auto

lemma rmap_list_ok: "(\<And>x. x \<in> set xs \<Longrightarrow> f x = Inr (g x)) \<Longrightarrow> rmap_list f xs = Inr (map g xs)"
  by (induction xs) simp_all

section \<open>Lemmas: strings\<close>

lemma u_Nil [simp]: "u [] = []"
  by (simp add: u_def)

lemma inj_u: "inj u"
  by (auto simp: u_def inj_def dest: map_injective)

lemma u_eq_iff [simp]: "u s = u t \<longleftrightarrow> s = t"
  using inj_u by (auto simp: inj_def)

lemma starts_with_cp_simps [simp]:
  "starts_with_cp c [] = False"
  "starts_with_cp c (x # xs) = (x = c)"
  by (simp_all add: starts_with_cp_def)

section \<open>Lemmas: big-endian integers\<close>

lemma unat_byte_lt: "unat (b :: byte) < 256"
proof -
  have "unat b < 2 ^ LENGTH(8)" by (rule unsigned_less)
  then show ?thesis by simp
qed

lemma length_be_bytes [simp, codec_simps]: "length (be_bytes k n) = k"
  by (induction k arbitrary: n) auto

lemma be_bytes_2: "be_bytes 2 n = [word_of_nat (n div 256), word_of_nat n]"
proof -
  have "(2::nat) = Suc (Suc 0)" by simp
  then show ?thesis by (simp only: be_bytes.simps append.simps)
qed

lemma be_bytes_4:
  "be_bytes 4 n = [word_of_nat (n div 256 div 256 div 256), word_of_nat (n div 256 div 256),
                   word_of_nat (n div 256), word_of_nat n]"
proof -
  have "(4::nat) = Suc (Suc (Suc (Suc 0)))" by simp
  then show ?thesis by (simp only: be_bytes.simps append.simps)
qed

lemma be_nat_snoc: "be_nat (bs @ [b]) = be_nat bs * 256 + unat b"
  by (simp add: be_nat_def)

lemma be_nat_Nil [simp]: "be_nat [] = 0"
  by (simp add: be_nat_def)

lemma be_nat_be_bytes: "be_nat (be_bytes k n) = n mod 256 ^ k"
proof (induction k arbitrary: n)
  case (Suc k)
  have "n div 256 mod 256 ^ k * 256 + n mod 256 = n mod 256 ^ Suc k"
    by (simp add: mod_mult2_eq mult.commute)
  then show ?case by (simp add: Suc be_nat_snoc unat_of_nat)
qed (simp add: be_nat_def)

lemma be_nat_bound: "be_nat bs < 256 ^ length bs"
proof (induction bs rule: rev_induct)
  case (snoc b bs)
  have "unat b < 256" by (rule unat_byte_lt)
  with snoc have "be_nat bs * 256 + unat b < 256 ^ length bs * 256" by linarith
  then show ?case by (simp add: be_nat_snoc mult.commute)
qed simp

lemma be_bytes_be_nat: "be_bytes (length bs) (be_nat bs) = bs"
proof (induction bs rule: rev_induct)
  case (snoc b bs)
  have b: "unat b < 256" by (rule unat_byte_lt)
  then have "(be_nat bs * 256 + unat b) div 256 = be_nat bs" by simp
  moreover have "(word_of_nat (be_nat bs * 256 + unat b) :: byte) = b"
    by (rule word_unat_eq_iff [THEN iffD2]) (use b in \<open>simp add: unat_of_nat del: of_nat_add of_nat_mult\<close>)
  ultimately show ?case using snoc by (simp add: be_nat_snoc del: of_nat_add of_nat_mult)
qed simp

lemma pack_H_eq_Inr [codec_simps]:
  "pack_H n = Inr bs \<longleftrightarrow> 0 \<le> n \<and> n < 65536 \<and> bs = be_bytes 2 (nat n)"
  by (auto simp: pack_H_def)

lemma pack_I_eq_Inr [codec_simps]:
  "pack_I n = Inr bs \<longleftrightarrow> 0 \<le> n \<and> n < 4294967296 \<and> bs = be_bytes 4 (nat n)"
  by (auto simp: pack_I_def)

lemma be_nat_pack_H [codec_simps]: "n < 65536 \<Longrightarrow> be_nat (be_bytes 2 n) = n"
  by (simp add: be_nat_be_bytes)

lemma be_nat_pack_I [codec_simps]: "n < 4294967296 \<Longrightarrow> be_nat (be_bytes 4 n) = n"
  by (simp add: be_nat_be_bytes)

text \<open>A field read at an offset that is the length of what precedes it.\<close>

lemma unpack_H_at [codec_simps]:
  "length pre = off \<Longrightarrow> 0 \<le> n \<Longrightarrow> n < 65536 \<Longrightarrow>
     unpack_H (pre @ be_bytes 2 (nat n) @ post) off = Inr n"
  by (auto simp: unpack_H_def be_nat_be_bytes)

lemma unpack_I_at [codec_simps]:
  "length pre = off \<Longrightarrow> 0 \<le> n \<Longrightarrow> n < 4294967296 \<Longrightarrow>
     unpack_I (pre @ be_bytes 4 (nat n) @ post) off = Inr n"
  by (auto simp: unpack_I_def be_nat_be_bytes)

lemma unpack_H_range: "unpack_H buf off = Inr n \<Longrightarrow> 0 \<le> n \<and> n < 65536"
  using be_nat_bound [of "take 2 (drop off buf)"]
  by (auto simp: unpack_H_def split: if_splits)

lemma unpack_I_range: "unpack_I buf off = Inr n \<Longrightarrow> 0 \<le> n \<and> n < 4294967296"
  using be_nat_bound [of "take 4 (drop off buf)"]
  by (auto simp: unpack_I_def split: if_splits)

section \<open>Lemmas: dictionaries\<close>

lemma dict_get_Nil [simp]: "dict_get [] k = None"
  by (simp add: dict_get_def)

lemma dict_get_set [simp]: "dict_get (dict_set d k v) k' = (if k' = k then Some v else dict_get d k')"
  by (simp add: dict_get_def dict_set_def update_conv')

lemma dict_get_del [simp]: "dict_get (dict_del d k) k' = (if k' = k then None else dict_get d k')"
  by (simp add: dict_get_def dict_del_def delete_conv')

lemma dict_keys_set: "dict_keys (dict_set d k v) = (if k \<in> set (dict_keys d) then dict_keys d else dict_keys d @ [k])"
  by (induction d) (auto simp: dict_keys_def dict_set_def)

lemma distinct_dict_set [simp]: "distinct (dict_keys d) \<Longrightarrow> distinct (dict_keys (dict_set d k v))"
  by (simp add: dict_keys_set)

lemma distinct_dict_del [simp]: "distinct (dict_keys d) \<Longrightarrow> distinct (dict_keys (dict_del d k))"
  by (simp add: dict_keys_def dict_del_def distinct_delete)

lemma dict_get_None_iff: "dict_get d k = None \<longleftrightarrow> k \<notin> set (dict_keys d)"
  by (simp add: dict_get_def dict_keys_def map_of_eq_None_iff)

lemma dict_get_Some_in: "dict_get d k = Some v \<Longrightarrow> (k, v) \<in> set d"
  by (simp add: dict_get_def map_of_SomeD)

section \<open>Lemmas: lists\<close>

lemma take_drop_append_exact [codec_simps]:
  "length xs = n \<Longrightarrow> take n (xs @ ys) = xs"
  "length xs = n \<Longrightarrow> drop n (xs @ ys) = ys"
  by simp_all

lemma drop_append_le: "n \<le> length xs \<Longrightarrow> drop n (xs @ ys) = drop n xs @ ys"
  by simp

lemma take_drop_append_le: "n + m \<le> length xs \<Longrightarrow> take m (drop n (xs @ ys)) = take m (drop n xs)"
  by simp

section \<open>Incremental readers\<close>

text \<open>
  What the readers of byte streams have in common: feeding two pieces one after the other is
  feeding them at once. Then only the bytes count, not how they were cut into chunks.
\<close>

locale incremental =
  fixes feed :: "'s \<Rightarrow> 'b list \<Rightarrow> 's"
  assumes feed_append: "feed s (a @ b) = feed (feed s a) b"
begin

lemma feed_chunks: "foldl feed s (c # cs) = feed s (concat (c # cs))"
  by (induction cs arbitrary: s c) (simp_all add: feed_append)

lemma feed_cut_anywhere:
  "concat (c # cs) = concat (c' # cs') \<Longrightarrow> foldl feed s (c # cs) = foldl feed s (c' # cs')"
  by (simp only: feed_chunks)

end

end
