(* ===== verification/Utf8.thy ===== *)
theory Utf8
  imports Prelude
begin

text \<open>
  \<^verbatim>\<open>str.encode()\<close> and \<^verbatim>\<open>bytes.decode()\<close> as CPython performs them: the encoder rejects surrogates;
  the decoder replaces each maximal ill-formed subsequence by U+FFFD (\<^verbatim>\<open>errors="replace"\<close>) or
  fails on it, and under \<^verbatim>\<open>surrogatepass\<close> (as \<^verbatim>\<open>json.loads\<close> asks for) accepts encoded
  surrogates.
\<close>

section \<open>Encoding\<close>

definition is_surrogate :: "nat \<Rightarrow> bool" where
  "is_surrogate c \<longleftrightarrow> 55296 \<le> c \<and> c < 57344"

text \<open>The code points a Python string may hold, and those UTF-8 encodes.\<close>

definition is_scalar :: "nat \<Rightarrow> bool" where
  "is_scalar c \<longleftrightarrow> c < 1114112 \<and> \<not> is_surrogate c"

definition encode_cp :: "nat \<Rightarrow> bytes" where
  "encode_cp c =
     (if c < 128 then [word_of_nat c]
      else if c < 2048 then [word_of_nat (192 + c div 64), word_of_nat (128 + c mod 64)]
      else if c < 65536 then
        [word_of_nat (224 + c div 4096), word_of_nat (128 + c div 64 mod 64),
         word_of_nat (128 + c mod 64)]
      else
        [word_of_nat (240 + c div 262144), word_of_nat (128 + c div 4096 mod 64),
         word_of_nat (128 + c div 64 mod 64), word_of_nat (128 + c mod 64)])"

definition utf8_encode :: "pystr \<Rightarrow> bytes result" where
  "utf8_encode s = (if list_all is_scalar s then Inr (concat (map encode_cp s)) else Inl UnicodeEncodeError)"

section \<open>Decoding\<close>

definition is_cont :: "byte \<Rightarrow> bool" where
  "is_cont b \<longleftrightarrow> 128 \<le> unat b \<and> unat b < 192"

text \<open>The bytes that may follow a three- or four-byte lead.\<close>

definition second_ok :: "bool \<Rightarrow> nat \<Rightarrow> byte \<Rightarrow> bool" where
  "second_ok surrogatepass lead b \<longleftrightarrow>
     is_cont b \<and>
     (lead = 224 \<longrightarrow> 160 \<le> unat b) \<and>
     (lead = 237 \<longrightarrow> surrogatepass \<or> unat b < 160) \<and>
     (lead = 240 \<longrightarrow> 144 \<le> unat b) \<and>
     (lead = 244 \<longrightarrow> unat b < 144)"

text \<open>
  The next code point (\<open>None\<close> for an ill-formed subsequence) and the number of bytes it takes.
\<close>

fun u8_next :: "bool \<Rightarrow> bytes \<Rightarrow> nat option \<times> nat" where
  "u8_next sp [] = (None, 0)"
| "u8_next sp (b0 # r) =
     (let x = unat b0 in
      if x < 128 then (Some x, 1)
      else if x < 194 \<or> 244 < x then (None, 1)
      else if x < 224 then
        (case r of
           [] \<Rightarrow> (None, 1)
         | b1 # _ \<Rightarrow> if is_cont b1 then (Some ((x - 192) * 64 + (unat b1 - 128)), 2) else (None, 1))
      else if x < 240 then
        (case r of
           [] \<Rightarrow> (None, 1)
         | b1 # r1 \<Rightarrow>
             if \<not> second_ok sp x b1 then (None, 1)
             else (case r1 of
                     [] \<Rightarrow> (None, 2)
                   | b2 # _ \<Rightarrow>
                       if is_cont b2
                       then (Some ((x - 224) * 4096 + (unat b1 - 128) * 64 + (unat b2 - 128)), 3)
                       else (None, 2)))
      else
        (case r of
           [] \<Rightarrow> (None, 1)
         | b1 # r1 \<Rightarrow>
             if \<not> second_ok sp x b1 then (None, 1)
             else (case r1 of
                     [] \<Rightarrow> (None, 2)
                   | b2 # r2 \<Rightarrow>
                       if \<not> is_cont b2 then (None, 2)
                       else (case r2 of
                               [] \<Rightarrow> (None, 3)
                             | b3 # _ \<Rightarrow>
                                 if is_cont b3
                                 then (Some ((x - 240) * 262144 + (unat b1 - 128) * 4096 +
                                             (unat b2 - 128) * 64 + (unat b3 - 128)), 4)
                                 else (None, 3)))))"

lemma u8_next_pos: "(c, n) = u8_next sp bs \<Longrightarrow> bs \<noteq> [] \<Longrightarrow> 0 < n"
  by (cases bs) (auto simp: Let_def split: list.splits if_splits)

definition REPLACEMENT :: nat where
  "REPLACEMENT = 65533"

function utf8_decode_replace :: "bytes \<Rightarrow> pystr" where
  "utf8_decode_replace bs =
     (if bs = [] then []
      else (case u8_next False bs of
              (None, n) \<Rightarrow> REPLACEMENT # utf8_decode_replace (drop n bs)
            | (Some c, n) \<Rightarrow> c # utf8_decode_replace (drop n bs)))"
  by pat_completeness auto
termination
  by (relation "measure length") (auto dest: u8_next_pos)

text \<open>Strict decoding: \<open>None\<close> is \<^verbatim>\<open>UnicodeDecodeError\<close>.\<close>

function utf8_decode_strict :: "bool \<Rightarrow> bytes \<Rightarrow> pystr option" where
  "utf8_decode_strict sp bs =
     (if bs = [] then Some []
      else (case u8_next sp bs of
              (None, n) \<Rightarrow> None
            | (Some c, n) \<Rightarrow> map_option (Cons c) (utf8_decode_strict sp (drop n bs))))"
  by pat_completeness auto
termination
  by (relation "measure (length \<circ> snd)") (auto dest: u8_next_pos)

declare utf8_decode_replace.simps [simp del]
declare utf8_decode_strict.simps [simp del]

section \<open>Lemmas\<close>

lemma utf8_decode_replace_Nil [simp]: "utf8_decode_replace [] = []"
  by (subst utf8_decode_replace.simps) simp

lemma utf8_decode_strict_Nil [simp]: "utf8_decode_strict sp [] = Some []"
  by (subst utf8_decode_strict.simps) simp

lemma encode_cp_nonempty [simp]: "encode_cp c \<noteq> []"
  by (simp add: encode_cp_def)

lemma length_encode_cp: "1 \<le> length (encode_cp c) \<and> length (encode_cp c) \<le> 4"
  by (simp add: encode_cp_def)

lemma unat_byte_of_nat: "n < 256 \<Longrightarrow> unat (word_of_nat n :: byte) = n"
  by (simp add: unat_of_nat)

lemma u8_next_encode_1:
  assumes "c < 128" shows "u8_next sp (encode_cp c @ r) = (Some c, 1)"
  using assms by (simp add: encode_cp_def Let_def unat_byte_of_nat)

lemma u8_next_encode_2:
  assumes "128 \<le> c" "c < 2048" shows "u8_next sp (encode_cp c @ r) = (Some c, 2)"
proof -
  define p q where "p = c div 64" and "q = c mod 64"
  have e: "encode_cp c = [word_of_nat (192 + p), word_of_nat (128 + q)]"
    using assms by (simp add: encode_cp_def p_def q_def)
  have c: "c = p * 64 + q" "p < 32" "2 \<le> p" "q < 64"
    using assms by (auto simp: p_def q_def)
  show ?thesis unfolding e using c(2-)
    by (simp add: Let_def unat_byte_of_nat is_cont_def c(1) del: of_nat_add)
qed

lemma u8_next_encode_3:
  assumes "2048 \<le> c" "c < 65536" "\<not> is_surrogate c"
  shows "u8_next sp (encode_cp c @ r) = (Some c, 3)"
proof -
  define o1 p q where "o1 = c div 4096" and "p = c div 64 mod 64" and "q = c mod 64"
  have e: "encode_cp c = [word_of_nat (224 + o1), word_of_nat (128 + p), word_of_nat (128 + q)]"
    using assms by (simp add: encode_cp_def o1_def p_def q_def)
  have "c div 64 = o1 * 64 + p"
    unfolding o1_def p_def using div_mult2_eq [of c 64 64] by simp
  moreover have "c = c div 64 * 64 + q" unfolding q_def by simp
  ultimately have c: "c = o1 * 4096 + p * 64 + q" by simp
  have b: "o1 < 16" "p < 64" "q < 64" using assms by (auto simp: o1_def p_def q_def)
  have s: "second_ok sp (224 + o1) (word_of_nat (128 + p))"
    using b assms(1,3) unfolding c
    by (auto simp: second_ok_def is_cont_def unat_byte_of_nat is_surrogate_def simp del: of_nat_add)
  show ?thesis unfolding e using b s
    by (simp add: Let_def unat_byte_of_nat is_cont_def c del: of_nat_add)
qed

lemma u8_next_encode_4:
  assumes "65536 \<le> c" "c < 1114112"
  shows "u8_next sp (encode_cp c @ r) = (Some c, 4)"
proof -
  define o2 o1 p q where "o2 = c div 262144" and "o1 = c div 4096 mod 64"
    and "p = c div 64 mod 64" and "q = c mod 64"
  have e: "encode_cp c = [word_of_nat (240 + o2), word_of_nat (128 + o1),
      word_of_nat (128 + p), word_of_nat (128 + q)]"
    using assms by (simp add: encode_cp_def o2_def o1_def p_def q_def)
  have "c div 4096 = o2 * 64 + o1"
    unfolding o1_def o2_def using div_mult2_eq [of c 4096 64] by simp
  moreover have "c div 64 = c div 4096 * 64 + p"
    unfolding p_def using div_mult2_eq [of c 64 64] by simp
  moreover have "c = c div 64 * 64 + q" unfolding q_def by simp
  ultimately have c: "c = o2 * 262144 + o1 * 4096 + p * 64 + q" by simp
  have b: "o2 < 5" "o1 < 64" "p < 64" "q < 64" using assms by (auto simp: o2_def o1_def p_def q_def)
  have s: "second_ok sp (240 + o2) (word_of_nat (128 + o1))"
    using b assms unfolding c
    by (auto simp: second_ok_def is_cont_def unat_byte_of_nat simp del: of_nat_add)
  show ?thesis unfolding e using b s
    by (simp add: Let_def unat_byte_of_nat is_cont_def c del: of_nat_add)
qed

lemma u8_next_encode:
  assumes "is_scalar c" shows "u8_next sp (encode_cp c @ r) = (Some c, length (encode_cp c))"
proof -
  consider "c < 128" | "128 \<le> c" "c < 2048" | "2048 \<le> c" "c < 65536" | "65536 \<le> c" by linarith
  then show ?thesis
    using assms
    by cases (simp_all add: u8_next_encode_1 u8_next_encode_2 u8_next_encode_3 u8_next_encode_4
        is_scalar_def, simp_all add: encode_cp_def)
qed

lemma decode_replace_encode_cp:
  "is_scalar c \<Longrightarrow> utf8_decode_replace (encode_cp c @ r) = c # utf8_decode_replace r"
  by (subst utf8_decode_replace.simps) (simp add: u8_next_encode)

lemma decode_strict_encode_cp:
  "is_scalar c \<Longrightarrow> utf8_decode_strict sp (encode_cp c @ r) = map_option (Cons c) (utf8_decode_strict sp r)"
  by (subst utf8_decode_strict.simps) (simp add: u8_next_encode)

lemma decode_replace_encode_append:
  "list_all is_scalar s \<Longrightarrow>
     utf8_decode_replace (concat (map encode_cp s) @ r) = s @ utf8_decode_replace r"
  by (induction s) (simp_all add: decode_replace_encode_cp)

lemma decode_strict_encode:
  "list_all is_scalar s \<Longrightarrow> utf8_decode_strict sp (concat (map encode_cp s)) = Some s"
  by (induction s) (simp_all add: decode_strict_encode_cp)

lemma utf8_decode_replace_encode [codec_simps]:
  "utf8_encode s = Inr bs \<Longrightarrow> utf8_decode_replace bs = s"
  using decode_replace_encode_append [of s "[]"] by (simp add: utf8_encode_def split: if_splits)

lemma utf8_decode_strict_encode [codec_simps]:
  "utf8_encode s = Inr bs \<Longrightarrow> utf8_decode_strict sp bs = Some s"
  by (auto simp: utf8_encode_def decode_strict_encode split: if_splits)

text \<open>ASCII text is one byte per character.\<close>

definition is_ascii :: "pystr \<Rightarrow> bool" where
  "is_ascii s \<longleftrightarrow> list_all (\<lambda>c. c < 128) s"

definition ascii_bytes :: "pystr \<Rightarrow> bytes" where
  "ascii_bytes s = map word_of_nat s"

lemma ascii_scalar: "is_ascii s \<Longrightarrow> list_all is_scalar s"
  by (auto simp: is_ascii_def is_scalar_def is_surrogate_def list_all_iff)

lemma utf8_encode_ascii: "is_ascii s \<Longrightarrow> utf8_encode s = Inr (ascii_bytes s)"
proof -
  assume a: "is_ascii s"
  then have "concat (map encode_cp s) = ascii_bytes s"
    by (induction s) (auto simp: is_ascii_def ascii_bytes_def encode_cp_def)
  with a show ?thesis by (simp add: utf8_encode_def ascii_scalar)
qed

lemma decode_strict_ascii_append:
  "is_ascii s \<Longrightarrow> utf8_decode_strict sp (ascii_bytes s) = Some s"
  using utf8_decode_strict_encode [OF utf8_encode_ascii] .

end
