(* ===== verification/Text.thy ===== *)
theory Text
  imports Prelude
begin

text \<open>
  Number formatting and reading as the sources use it: \<^verbatim>\<open>str(n)\<close>, the format specification
  \<^verbatim>\<open>:04X\<close>, \<^verbatim>\<open>\uXXXX\<close> hexadecimal quadruples, and \<^verbatim>\<open>int()\<close> of the digits a regular
  expression matched (Python's \<^verbatim>\<open>\d\<close> is every decimal digit of Unicode).
\<close>

section \<open>Digits\<close>

function nat_digits :: "nat \<Rightarrow> nat \<Rightarrow> nat list" where
  "nat_digits b n = (if b < 2 \<or> n < b then [n] else nat_digits b (n div b) @ [n mod b])"
  by pat_completeness auto
termination
  by (relation "measure snd") auto

declare nat_digits.simps [simp del]

definition eval_digits :: "nat \<Rightarrow> nat list \<Rightarrow> nat" where
  "eval_digits b ds = foldl (\<lambda>a d. a * b + d) 0 ds"

definition upper_cp :: "nat \<Rightarrow> nat" where
  "upper_cp d = (if d < 10 then 48 + d else 55 + d)"

definition lower_cp :: "nat \<Rightarrow> nat" where
  "lower_cp d = (if d < 10 then 48 + d else 87 + d)"

definition pad0 :: "nat \<Rightarrow> nat list \<Rightarrow> nat list" where
  "pad0 w ds = replicate (w - length ds) 0 @ ds"

section \<open>Formatting\<close>

text \<open>The characters that \<^verbatim>\<open>str.strip()\<close> removes.\<close>

definition is_space :: "nat \<Rightarrow> bool" where
  "is_space c \<longleftrightarrow> (9 \<le> c \<and> c \<le> 13) \<or> (28 \<le> c \<and> c \<le> 32) \<or> (8192 \<le> c \<and> c \<le> 8202) \<or>
     c \<in> {133, 160, 5760, 8232, 8233, 8239, 8287, 12288}"

definition strip :: "pystr \<Rightarrow> pystr" where
  "strip s = rev (dropWhile is_space (rev (dropWhile is_space s)))"

definition str_nat :: "nat \<Rightarrow> pystr" where
  "str_nat n = map upper_cp (nat_digits 10 n)"

definition str_int :: "int \<Rightarrow> pystr" where
  "str_int n = (if n < 0 then 45 # str_nat (nat (- n)) else str_nat (nat n))"

text \<open>\<^verbatim>\<open>f"{n:04X}"\<close>: at least four characters, the sign counted.\<close>

definition fmt_04X :: "int \<Rightarrow> pystr" where
  "fmt_04X n =
     (if n < 0 then 45 # map upper_cp (pad0 3 (nat_digits 16 (nat (- n))))
      else map upper_cp (pad0 4 (nat_digits 16 (nat n))))"

text \<open>\<^verbatim>\<open>'\\u{0:04x}'\<close> of the JSON encoder, without the prefix.\<close>

definition fmt_04x :: "nat \<Rightarrow> pystr" where
  "fmt_04x n = map lower_cp (pad0 4 (nat_digits 16 n))"

section \<open>Reading\<close>

text \<open>The first code point of every block of ten decimal digits (category Nd).\<close>

definition nd_starts :: "nat list" where
  "nd_starts =
     [48, 1632, 1776, 1984, 2406, 2534, 2662, 2790, 2918, 3046, 3174, 3302, 3430, 3558, 3664,
      3792, 3872, 4160, 4240, 6112, 6160, 6470, 6608, 6784, 6800, 6992, 7088, 7232, 7248,
      42528, 43216, 43264, 43472, 43504, 43600, 44016, 65296, 66720, 68912, 69734, 69872,
      69942, 70096, 70384, 70736, 70864, 71248, 71360, 71472, 71904, 72016, 72784, 73040,
      73120, 92768, 92864, 93008, 120782, 120792, 120802, 120812, 120822, 123200, 123632,
      125264, 130032]"

definition nd_val :: "nat \<Rightarrow> nat option" where
  "nd_val c = map_option (\<lambda>s. c - s) (find (\<lambda>s. s \<le> c \<and> c < s + 10) nd_starts)"

definition ascii_digit :: "nat \<Rightarrow> bool" where
  "ascii_digit c \<longleftrightarrow> 48 \<le> c \<and> c \<le> 57"

text \<open>\<^verbatim>\<open>[0-9A-Fa-f]\<close>.\<close>

definition hex_val :: "nat \<Rightarrow> nat option" where
  "hex_val c =
     (if 48 \<le> c \<and> c \<le> 57 then Some (c - 48)
      else if 65 \<le> c \<and> c \<le> 70 then Some (c - 55)
      else if 97 \<le> c \<and> c \<le> 102 then Some (c - 87)
      else None)"

definition take_hex4 :: "pystr \<Rightarrow> (nat \<times> pystr) option" where
  "take_hex4 s =
     (case s of
        a # b # c # d # r \<Rightarrow>
          (case (hex_val a, hex_val b, hex_val c, hex_val d) of
             (Some w, Some x, Some y, Some z) \<Rightarrow> Some (((w * 16 + x) * 16 + y) * 16 + z, r)
           | _ \<Rightarrow> None)
      | _ \<Rightarrow> None)"

text \<open>One literal character of a regular expression.\<close>

definition expect_cp :: "nat \<Rightarrow> pystr \<Rightarrow> pystr option" where
  "expect_cp c s = (case s of [] \<Rightarrow> None | x # r \<Rightarrow> if x = c then Some r else None)"

section \<open>Lemmas\<close>

lemma expect_cp_simps [simp]:
  "expect_cp c [] = None"
  "expect_cp c (x # r) = (if x = c then Some r else None)"
  by (simp_all add: expect_cp_def)

lemma expect_cp_Some: "expect_cp c s = Some r \<longleftrightarrow> s = c # r"
  by (cases s) auto

lemma eval_digits_snoc: "eval_digits b (ds @ [d]) = eval_digits b ds * b + d"
  by (simp add: eval_digits_def)

lemma eval_digits_single [simp]: "eval_digits b [d] = d"
  by (simp add: eval_digits_def)

lemma eval_nat_digits: "eval_digits b (nat_digits b n) = n"
proof (induction b n rule: nat_digits.induct)
  case (1 b n)
  then show ?case by (subst nat_digits.simps) (auto simp: eval_digits_snoc)
qed

lemma nat_digits_less: "2 \<le> b \<Longrightarrow> d \<in> set (nat_digits b n) \<Longrightarrow> d < b"
proof (induction b n arbitrary: d rule: nat_digits.induct)
  case (1 b n)
  from "1.prems" show ?case
    by (subst (asm) nat_digits.simps) (auto split: if_splits dest: "1.IH" [rotated 2])
qed

lemma nat_digits_nonempty [simp]: "nat_digits b n \<noteq> []"
  by (subst nat_digits.simps) simp

lemma nat_digits_hd: "n \<noteq> 0 \<Longrightarrow> hd (nat_digits b n) \<noteq> 0"
proof (induction b n rule: nat_digits.induct)
  case (1 b n)
  show ?case
  proof (cases "b < 2 \<or> n < b")
    case True
    with "1.prems" show ?thesis by (subst nat_digits.simps) simp
  next
    case False
    then have "b \<le> n" "0 < b" by simp_all
    then have "n div b \<noteq> 0" by (simp add: div_greater_zero_iff)
    with "1.IH" [OF False] have "hd (nat_digits b (n div b)) \<noteq> 0" by blast
    with False show ?thesis by (subst nat_digits.simps) simp
  qed
qed

lemma nat_digits_0 [simp]: "nat_digits b 0 = [0]"
  by (subst nat_digits.simps, cases "b < 2") simp_all

lemma hex_val_upper [simp]: "d < 16 \<Longrightarrow> hex_val (upper_cp d) = Some d"
  by (simp add: hex_val_def upper_cp_def)

lemma hex_val_lower [simp]: "d < 16 \<Longrightarrow> hex_val (lower_cp d) = Some d"
  by (simp add: hex_val_def lower_cp_def)

lemma upper_cp_decimal: "d < 10 \<Longrightarrow> upper_cp d = 48 + d"
  by (simp add: upper_cp_def)

lemma nd_val_ascii [simp]: "d < 10 \<Longrightarrow> nd_val (48 + d) = Some d"
  by (simp add: nd_val_def nd_starts_def)

text \<open>Four hexadecimal digits of a 16-bit value.\<close>

lemma nat_digits_step: "\<not> n < 16 \<Longrightarrow> nat_digits 16 n = nat_digits 16 (n div 16) @ [n mod 16]"
  by (subst nat_digits.simps) simp

lemma nat_digits_last: "n < 16 \<Longrightarrow> nat_digits 16 n = [n]"
  by (subst nat_digits.simps) simp

lemma pad0_hex4:
  assumes "n < 65536"
  shows "pad0 4 (nat_digits 16 n) = [n div 4096, n div 256 mod 16, n div 16 mod 16, n mod 16]"
proof -
  have d: "n div 16 div 16 = n div 256" "n div 256 div 16 = n div 4096"
    by (simp_all add: div_mult2_eq [symmetric])
  have r: "replicate 3 (0::nat) = [0, 0, 0]" "replicate 2 (0::nat) = [0, 0]"
    by (simp_all add: numeral_eq_Suc)
  consider "n < 16" | "16 \<le> n" "n < 256" | "256 \<le> n" "n < 4096" | "4096 \<le> n" by linarith
  then show ?thesis
  proof cases
    case 1
    then show ?thesis by (simp add: pad0_def nat_digits_last r)
  next
    case 2
    then have "nat_digits 16 n = [n div 16, n mod 16]"
      using nat_digits_step [of n] nat_digits_last [of "n div 16"] by simp
    with 2 show ?thesis by (simp add: pad0_def r)
  next
    case 3
    then have "nat_digits 16 n = [n div 256, n div 16 mod 16, n mod 16]"
      using nat_digits_step [of n] nat_digits_step [of "n div 16"] nat_digits_last [of "n div 256"] d
      by simp
    with 3 show ?thesis by (simp add: pad0_def)
  next
    case 4
    then have "nat_digits 16 n = [n div 4096, n div 256 mod 16, n div 16 mod 16, n mod 16]"
      using assms nat_digits_step [of n] nat_digits_step [of "n div 16"]
        nat_digits_step [of "n div 256"] nat_digits_last [of "n div 4096"] d
      by simp
    then show ?thesis by (simp add: pad0_def)
  qed
qed

lemma hex4_value:
  fixes n :: nat
  shows "((n div 4096 * 16 + n div 256 mod 16) * 16 + n div 16 mod 16) * 16 + n mod 16 = n"
proof -
  have "n div 4096 * 16 + n div 256 mod 16 = n div 256" using div_mult2_eq [of n 256 16] by simp
  moreover have "n div 256 * 16 + n div 16 mod 16 = n div 16" using div_mult2_eq [of n 16 16] by simp
  ultimately show ?thesis by simp
qed

lemma take_hex4_lower [simp]: "n < 65536 \<Longrightarrow> take_hex4 (fmt_04x n @ r) = Some (n, r)"
  using hex4_value [of n] by (simp add: fmt_04x_def pad0_hex4 take_hex4_def)

lemma take_hex4_upper [simp]:
  "0 \<le> n \<Longrightarrow> n < 65536 \<Longrightarrow> take_hex4 (fmt_04X n @ r) = Some (nat n, r)"
  using hex4_value [of "nat n"]
  by (simp add: fmt_04X_def pad0_hex4 take_hex4_def nat_less_iff div_less_iff_less_mult)

lemma length_fmt_04x: "n < 65536 \<Longrightarrow> length (fmt_04x n) = 4"
  by (simp add: fmt_04x_def pad0_hex4)

lemma hex_val_bound: "hex_val c = Some d \<Longrightarrow> d < 16"
  by (auto simp: hex_val_def split: if_splits)

lemma take_hex4_bound: "take_hex4 s = Some (n, r) \<Longrightarrow> n < 65536 \<and> length s = length r + 4"
  by (auto simp: take_hex4_def split: list.splits option.splits dest!: hex_val_bound)

lemma take_hex4_append: "take_hex4 s = Some (n, r) \<Longrightarrow> take_hex4 (s @ t) = Some (n, r @ t)"
  by (auto simp: take_hex4_def split: list.splits option.splits)

end
