(* ===== verification/Ipc.thy ===== *)
theory Ipc
  imports Utf8 Text
begin

text \<open>
  The daemon's binary IPC format (\<^verbatim>\<open>src/src/pilot_langgraph/_ipc.py\<close>): command bytes, the
  address codec in binary and in text, the request encoders, the response parsers, and the
  event-stream codec of the port-1002 broker with its incremental splitter.
\<close>

unbundle bit_operations_syntax

section \<open>Constants\<close>

definition MAX_MESSAGE_SIZE :: nat where "MAX_MESSAGE_SIZE = 2 ^ 20"
definition MAX_SEND_CHUNK :: nat where "MAX_SEND_CHUNK = MAX_MESSAGE_SIZE - 64"

definition CMD_BIND :: byte where "CMD_BIND = 0x01"
definition CMD_BIND_OK :: byte where "CMD_BIND_OK = 0x02"
definition CMD_DIAL :: byte where "CMD_DIAL = 0x03"
definition CMD_DIAL_OK :: byte where "CMD_DIAL_OK = 0x04"
definition CMD_ACCEPT :: byte where "CMD_ACCEPT = 0x05"
definition CMD_SEND :: byte where "CMD_SEND = 0x06"
definition CMD_RECV :: byte where "CMD_RECV = 0x07"
definition CMD_CLOSE :: byte where "CMD_CLOSE = 0x08"
definition CMD_CLOSE_OK :: byte where "CMD_CLOSE_OK = 0x09"
definition CMD_ERROR :: byte where "CMD_ERROR = 0x0A"
definition CMD_SEND_TO :: byte where "CMD_SEND_TO = 0x0B"
definition CMD_RECV_FROM :: byte where "CMD_RECV_FROM = 0x0C"
definition CMD_INFO :: byte where "CMD_INFO = 0x0D"
definition CMD_INFO_OK :: byte where "CMD_INFO_OK = 0x0E"
definition CMD_HANDSHAKE :: byte where "CMD_HANDSHAKE = 0x0F"
definition CMD_HANDSHAKE_OK :: byte where "CMD_HANDSHAKE_OK = 0x10"
definition CMD_RESOLVE_HOSTNAME :: byte where "CMD_RESOLVE_HOSTNAME = 0x11"
definition CMD_RESOLVE_HOSTNAME_OK :: byte where "CMD_RESOLVE_HOSTNAME_OK = 0x12"
definition CMD_SET_HOSTNAME :: byte where "CMD_SET_HOSTNAME = 0x13"
definition CMD_SET_HOSTNAME_OK :: byte where "CMD_SET_HOSTNAME_OK = 0x14"
definition CMD_HEALTH :: byte where "CMD_HEALTH = 0x21"
definition CMD_HEALTH_OK :: byte where "CMD_HEALTH_OK = 0x22"

definition PORT_EVENT_STREAM :: int where "PORT_EVENT_STREAM = 1002"

definition SUB_HANDSHAKE_SEND :: byte where "SUB_HANDSHAKE_SEND = 0x01"
definition SUB_HANDSHAKE_APPROVE :: byte where "SUB_HANDSHAKE_APPROVE = 0x02"
definition SUB_HANDSHAKE_PENDING :: byte where "SUB_HANDSHAKE_PENDING = 0x04"
definition SUB_HANDSHAKE_TRUSTED :: byte where "SUB_HANDSHAKE_TRUSTED = 0x05"

lemmas cmd_defs = CMD_BIND_def CMD_BIND_OK_def CMD_DIAL_def CMD_DIAL_OK_def CMD_ACCEPT_def
  CMD_SEND_def CMD_RECV_def CMD_CLOSE_def CMD_CLOSE_OK_def CMD_ERROR_def CMD_SEND_TO_def
  CMD_RECV_FROM_def CMD_INFO_def CMD_INFO_OK_def CMD_HANDSHAKE_def CMD_HANDSHAKE_OK_def
  CMD_RESOLVE_HOSTNAME_def CMD_RESOLVE_HOSTNAME_OK_def CMD_SET_HOSTNAME_def
  CMD_SET_HOSTNAME_OK_def CMD_HEALTH_def CMD_HEALTH_OK_def

section \<open>Addresses\<close>

definition ADDR_SIZE :: nat where "ADDR_SIZE = 6"

record addr =
  addr_network :: int
  addr_node :: int

text \<open>\<^verbatim>\<open>struct.pack(">HI", network, node)\<close>.\<close>

definition addr_pack :: "addr \<Rightarrow> bytes result" where
  "addr_pack a =
     rbind (pack_H (addr_network a)) (\<lambda>n.
     rbind (pack_I (addr_node a)) (\<lambda>d. Inr (n @ d)))"

definition addr_unpack :: "bytes \<Rightarrow> nat \<Rightarrow> addr result" where
  "addr_unpack buf off =
     rbind (unpack_H buf off) (\<lambda>n.
     rbind (unpack_I buf (off + 2)) (\<lambda>d. Inr \<lparr>addr_network = n, addr_node = d\<rparr>))"

text \<open>
  \<^verbatim>\<open>ADDR_RE\<close>: digits, a colon, three dot-separated groups of four hexadecimal digits. The
  anchor \<^verbatim>\<open>$\<close> also matches just before one final newline.
\<close>

definition match_addr :: "pystr \<Rightarrow> (nat list \<times> nat \<times> nat \<times> nat) option" where
  "match_addr s =
     (let ds = takeWhile (\<lambda>c. nd_val c \<noteq> None) s;
          r0 = dropWhile (\<lambda>c. nd_val c \<noteq> None) s
      in if ds = [] then None
         else
           Option.bind (expect_cp 58 r0) (\<lambda>r1.
           Option.bind (take_hex4 r1) (\<lambda>(h1, r2).
           Option.bind (expect_cp 46 r2) (\<lambda>r3.
           Option.bind (take_hex4 r3) (\<lambda>(h2, r4).
           Option.bind (expect_cp 46 r4) (\<lambda>r5.
           Option.bind (take_hex4 r5) (\<lambda>(h3, r6).
             if r6 = [] \<or> r6 = [NEWLINE]
             then Some (map (the \<circ> nd_val) ds, h1, h2, h3) else None)))))))"

definition addr_parse :: "pystr \<Rightarrow> addr result" where
  "addr_parse s =
     (case match_addr s of
        None \<Rightarrow> Inl (ValueError (u ''invalid pilot address''))
      | Some (ds, net_hex, node_high, node_low) \<Rightarrow>
          (let net_dec = int (eval_digits 10 ds) in
           if net_dec \<noteq> int net_hex then Inl (ValueError (u ''network mismatch''))
           else Inr \<lparr>addr_network = net_dec,
                      addr_node = push_bit 16 (int node_high) OR int node_low\<rparr>))"

definition addr_str :: "addr \<Rightarrow> pystr" where
  "addr_str a =
     str_int (addr_network a) @ [58] @ fmt_04X (addr_network a) @ [46] @
     fmt_04X (drop_bit 16 (addr_node a) AND 0xFFFF) @ [46] @
     fmt_04X (addr_node a AND 0xFFFF)"

text \<open>The addresses the wire format can carry.\<close>

definition wf_addr :: "addr \<Rightarrow> bool" where
  "wf_addr a \<longleftrightarrow> 0 \<le> addr_network a \<and> addr_network a < 65536 \<and>
                 0 \<le> addr_node a \<and> addr_node a < 4294967296"

section \<open>Request and stream encoders\<close>

definition encode_info :: bytes where
  "encode_info = [CMD_INFO]"

definition encode_health :: bytes where
  "encode_health = [CMD_HEALTH]"

definition encode_resolve_hostname :: "pystr \<Rightarrow> bytes result" where
  "encode_resolve_hostname hostname =
     rmap (\<lambda>h. [CMD_RESOLVE_HOSTNAME] @ h) (utf8_encode hostname)"

definition encode_set_hostname :: "pystr \<Rightarrow> bytes result" where
  "encode_set_hostname hostname = rmap (\<lambda>h. [CMD_SET_HOSTNAME] @ h) (utf8_encode hostname)"

definition encode_handshake_send :: "int \<Rightarrow> pystr \<Rightarrow> bytes result" where
  "encode_handshake_send node_id justification =
     rbind (pack_I node_id) (\<lambda>n.
     rbind (utf8_encode justification) (\<lambda>j.
     Inr ([CMD_HANDSHAKE, SUB_HANDSHAKE_SEND] @ n @ j)))"

definition encode_handshake_approve :: "int \<Rightarrow> bytes result" where
  "encode_handshake_approve node_id =
     rmap (\<lambda>n. [CMD_HANDSHAKE, SUB_HANDSHAKE_APPROVE] @ n) (pack_I node_id)"

definition encode_handshake_pending :: bytes where
  "encode_handshake_pending = [CMD_HANDSHAKE, SUB_HANDSHAKE_PENDING]"

definition encode_handshake_trusted :: bytes where
  "encode_handshake_trusted = [CMD_HANDSHAKE, SUB_HANDSHAKE_TRUSTED]"

definition encode_send_to :: "addr \<Rightarrow> int \<Rightarrow> bytes \<Rightarrow> bytes result" where
  "encode_send_to dst port data =
     rbind (addr_pack dst) (\<lambda>a. rbind (pack_H port) (\<lambda>p. Inr ([CMD_SEND_TO] @ a @ p @ data)))"

definition encode_dial :: "addr \<Rightarrow> int \<Rightarrow> bytes result" where
  "encode_dial dst port =
     rbind (addr_pack dst) (\<lambda>a. rbind (pack_H port) (\<lambda>p. Inr ([CMD_DIAL] @ a @ p)))"

definition encode_bind :: "int \<Rightarrow> bytes result" where
  "encode_bind port = rmap (\<lambda>p. [CMD_BIND] @ p) (pack_H port)"

definition encode_send :: "int \<Rightarrow> bytes \<Rightarrow> bytes result" where
  "encode_send conn_id data = rmap (\<lambda>c. [CMD_SEND] @ c @ data) (pack_I conn_id)"

definition encode_close :: "int \<Rightarrow> bytes result" where
  "encode_close conn_id = rmap (\<lambda>c. [CMD_CLOSE] @ c) (pack_I conn_id)"

section \<open>Response and push parsers\<close>

record datagram =
  src_addr :: addr
  src_port :: int
  dst_port :: int
  dg_data :: bytes

text \<open>
  The parsers check the length first; the reads after the check cannot raise, which
  \<open>parse_accept_total\<close> and its companions state. \<open>None\<close> is the source's \<^verbatim>\<open>None\<close>.
\<close>

definition parse_datagram :: "bytes \<Rightarrow> datagram option result" where
  "parse_datagram payload =
     (if length payload < ADDR_SIZE + 4 then Inr None
      else rbind (addr_unpack payload 0) (\<lambda>sa.
           rbind (unpack_H payload ADDR_SIZE) (\<lambda>sp.
           rbind (unpack_H payload (ADDR_SIZE + 2)) (\<lambda>dp.
           Inr (Some \<lparr>src_addr = sa, src_port = sp, dst_port = dp,
                      dg_data = drop (ADDR_SIZE + 4) payload\<rparr>)))))"

record accepted_conn =
  local_port :: int
  acc_conn_id :: int
  remote_addr :: addr
  remote_port :: int

definition parse_accept :: "bytes \<Rightarrow> accepted_conn option result" where
  "parse_accept payload =
     (if length payload < 2 + 4 + ADDR_SIZE + 2 then Inr None
      else rbind (unpack_H payload 0) (\<lambda>lp.
           rbind (unpack_I payload 2) (\<lambda>ci.
           rbind (addr_unpack payload 6) (\<lambda>ra.
           rbind (unpack_H payload (6 + ADDR_SIZE)) (\<lambda>rp.
           Inr (Some \<lparr>local_port = lp, acc_conn_id = ci, remote_addr = ra, remote_port = rp\<rparr>))))))"

definition parse_recv :: "bytes \<Rightarrow> (int \<times> bytes) option" where
  "parse_recv payload =
     (if length payload < 4 then None else Some (int (be_nat (take 4 payload)), drop 4 payload))"

definition parse_dial_ok :: "bytes \<Rightarrow> int option" where
  "parse_dial_ok payload = (if length payload < 4 then None else Some (int (be_nat (take 4 payload))))"

definition parse_bind_ok :: "bytes \<Rightarrow> int option" where
  "parse_bind_ok payload = (if length payload < 2 then None else Some (int (be_nat (take 2 payload))))"

definition parse_close_ok :: "bytes \<Rightarrow> int option" where
  "parse_close_ok payload = (if length payload < 4 then None else Some (int (be_nat (take 4 payload))))"

definition parse_error :: "bytes \<Rightarrow> pystr" where
  "parse_error payload =
     (if length payload < 2 then u ''unknown daemon error'' else utf8_decode_replace (drop 2 payload))"

section \<open>Event stream codec\<close>

record event =
  ev_topic :: pystr
  ev_payload :: bytes

definition encode_event :: "pystr \<Rightarrow> bytes \<Rightarrow> bytes result" where
  "encode_event topic payload =
     rbind (utf8_encode topic) (\<lambda>t.
     rbind (pack_H (int (length t))) (\<lambda>h.
     rbind (pack_I (int (length payload))) (\<lambda>n.
     Inr (h @ t @ n @ payload))))"

text \<open>The \<^verbatim>\<open>while\<close> loop of \<^verbatim>\<open>split_events\<close>, over the position and the events so far.\<close>

function split_events_loop :: "bytes \<Rightarrow> nat \<Rightarrow> event list \<Rightarrow> (event list \<times> bytes) result" where
  "split_events_loop buf pos events =
     (if pos + 2 \<le> length buf then
        (let topic_len = be_nat (take 2 (drop pos buf)) in
         if 1024 < topic_len then Inl (ValueError (u ''topic too long: '' @ str_nat topic_len))
         else if length buf < pos + 2 + topic_len + 4 then Inr (events, drop pos buf)
         else
           (let payload_len = be_nat (take 4 (drop (pos + 2 + topic_len) buf)) in
            if 2 ^ 24 < payload_len then Inl (ValueError (u ''payload too large: '' @ str_nat payload_len))
            else
              (let fin = pos + 2 + topic_len + 4 + payload_len in
               if length buf < fin then Inr (events, drop pos buf)
               else
                 (let topic = utf8_decode_replace (take topic_len (drop (pos + 2) buf));
                      payload = take payload_len (drop (pos + 2 + topic_len + 4) buf)
                  in split_events_loop buf fin
                       (events @ [\<lparr>ev_topic = topic, ev_payload = payload\<rparr>])))))
      else Inr (events, drop pos buf))"
  by pat_completeness auto
termination
  by (relation "measure (\<lambda>(buf, pos, events). length buf - pos)") auto

definition split_events :: "bytes \<Rightarrow> (event list \<times> bytes) result" where
  "split_events buf = split_events_loop buf 0 []"

declare split_events_loop.simps [simp del]

section \<open>A reference splitter\<close>

text \<open>
  The splitter without positions: look at the head of the buffer, then recurse on the rest.
  The loop of the source computes the same function (\<open>split_events_loop_ref\<close>).
\<close>

datatype event_head = Incomplete | Malformed exn | Complete event nat

definition event_head :: "bytes \<Rightarrow> event_head" where
  "event_head b =
     (if length b < 2 then Incomplete
      else
        (let tl = be_nat (take 2 b) in
         if 1024 < tl then Malformed (ValueError (u ''topic too long: '' @ str_nat tl))
         else if length b < 2 + tl + 4 then Incomplete
         else
           (let pl = be_nat (take 4 (drop (2 + tl) b)) in
            if 2 ^ 24 < pl then Malformed (ValueError (u ''payload too large: '' @ str_nat pl))
            else if length b < 2 + tl + 4 + pl then Incomplete
            else Complete \<lparr>ev_topic = utf8_decode_replace (take tl (drop 2 b)),
                           ev_payload = take pl (drop (2 + tl + 4) b)\<rparr> (2 + tl + 4 + pl))))"

lemma event_head_Complete_length: "event_head b = Complete e n \<Longrightarrow> 0 < n \<and> n \<le> length b"
  by (auto simp: event_head_def Let_def split: if_splits)

function split_ref :: "bytes \<Rightarrow> (event list \<times> bytes) result" where
  "split_ref b =
     (case event_head b of
        Incomplete \<Rightarrow> Inr ([], b)
      | Malformed x \<Rightarrow> Inl x
      | Complete e n \<Rightarrow> rmap (\<lambda>(es, r). (e # es, r)) (split_ref (drop n b)))"
  by pat_completeness auto
termination
  by (relation "measure length") (auto dest!: event_head_Complete_length)

declare split_ref.simps [simp del]

text \<open>Events that the splitter's bounds admit, and their encoding.\<close>

definition valid_event :: "event \<Rightarrow> bool" where
  "valid_event e \<longleftrightarrow>
     list_all is_scalar (ev_topic e) \<and>
     length (concat (map encode_cp (ev_topic e))) \<le> 1024 \<and>
     length (ev_payload e) \<le> 2 ^ 24"

definition event_bytes :: "event \<Rightarrow> bytes" where
  "event_bytes e =
     (let t = concat (map encode_cp (ev_topic e)) in
      be_bytes 2 (length t) @ t @ be_bytes 4 (length (ev_payload e)) @ ev_payload e)"

section \<open>Lemmas: addresses\<close>

lemma nd_val_colon [simp]: "nd_val 58 = None"
  by (simp add: nd_val_def nd_starts_def)

lemma nd_val_upper_cp: "d < 10 \<Longrightarrow> nd_val (upper_cp d) = Some d"
  by (simp add: upper_cp_decimal)

lemma str_nat_digits:
  "takeWhile (\<lambda>c. nd_val c \<noteq> None) (str_nat n @ 58 # r) = str_nat n"
  "dropWhile (\<lambda>c. nd_val c \<noteq> None) (str_nat n @ 58 # r) = 58 # r"
  "map (the \<circ> nd_val) (str_nat n) = nat_digits 10 n"
  "str_nat n \<noteq> []"
proof -
  have d: "\<And>d. d \<in> set (nat_digits 10 n) \<Longrightarrow> d < 10"
    by (rule nat_digits_less) simp_all
  then have a: "\<And>c. c \<in> set (str_nat n) \<Longrightarrow> nd_val c \<noteq> None"
    by (auto simp: str_nat_def nd_val_upper_cp)
  show "takeWhile (\<lambda>c. nd_val c \<noteq> None) (str_nat n @ 58 # r) = str_nat n"
    and "dropWhile (\<lambda>c. nd_val c \<noteq> None) (str_nat n @ 58 # r) = 58 # r"
    using a by (auto simp: takeWhile_append2 dropWhile_append2)
  show "map (the \<circ> nd_val) (str_nat n) = nat_digits 10 n"
    using d by (simp add: str_nat_def map_idI nd_val_upper_cp)
  show "str_nat n \<noteq> []" by (simp add: str_nat_def)
qed

lemma and_FFFF: "(n :: int) AND 65535 = take_bit 16 n"
  by (simp add: take_bit_eq_mask mask_eq_exp_minus_1)

lemma split_node: "push_bit 16 (drop_bit 16 (n :: int)) OR take_bit 16 n = n"
  by (rule bit_eqI) (auto simp: bit_simps)

lemma match_addr_str:
  assumes "wf_addr a"
  shows "match_addr (addr_str a) =
    Some (nat_digits 10 (nat (addr_network a)), nat (addr_network a),
          nat (drop_bit 16 (addr_node a)), nat (take_bit 16 (addr_node a)))"
proof -
  let ?n = "addr_network a" and ?d = "addr_node a"
  have hi: "take_bit 16 (drop_bit 16 ?d) = drop_bit 16 ?d" "0 \<le> drop_bit 16 ?d" "drop_bit 16 ?d < 65536"
    using assms by (auto simp: wf_addr_def take_bit_int_eq_self drop_bit_eq_div)
  have lo: "0 \<le> take_bit 16 ?d" "take_bit 16 ?d < 65536"
    using take_bit_int_less_exp [of 16 ?d] by simp_all
  have n: "0 \<le> ?n" "?n < 65536" using assms by (simp_all add: wf_addr_def)
  have s: "addr_str a = str_nat (nat ?n) @ 58 # fmt_04X ?n @ 46 #
      fmt_04X (drop_bit 16 ?d) @ 46 # fmt_04X (take_bit 16 ?d)"
    using n by (simp add: addr_str_def str_int_def and_FFFF hi(1))
  have h: "take_hex4 (fmt_04X (take_bit 16 ?d)) = Some (nat (take_bit 16 ?d), [])"
    using take_hex4_upper [OF lo, of "[]"] by simp
  show ?thesis
    unfolding match_addr_def s str_nat_digits
    by (simp add: take_hex4_upper [OF n] take_hex4_upper [OF hi(2,3)] h str_nat_digits)
qed

lemma addr_parse_str: "wf_addr a \<Longrightarrow> addr_parse (addr_str a) = Inr a"
  by (auto simp: addr_parse_def match_addr_str eval_nat_digits wf_addr_def split_node Let_def)

lemma addr_parse_wf:
  assumes "addr_parse s = Inr a" shows "wf_addr a"
proof -
  from assms obtain ds h1 h2 h3 where m: "match_addr s = Some (ds, h1, h2, h3)"
    and a: "a = \<lparr>addr_network = int h1, addr_node = push_bit 16 (int h2) OR int h3\<rparr>"
    by (auto simp: addr_parse_def Let_def split: option.splits if_splits)
  from m have h: "h1 < 65536" "h2 < 65536" "h3 < 65536"
    by (auto simp: match_addr_def Let_def bind_eq_Some_conv dest!: take_hex4_bound split: if_splits)
  have "push_bit 16 (int h2) < 2 ^ 32" using h by (simp add: push_bit_eq_mult)
  then have "push_bit 16 (int h2) OR int h3 < 2 ^ 32"
    using h by (intro OR_upper) auto
  then show ?thesis using h by (simp add: a wf_addr_def)
qed

lemma addr_pack_wf: "wf_addr a \<Longrightarrow>
    addr_pack a = Inr (be_bytes 2 (nat (addr_network a)) @ be_bytes 4 (nat (addr_node a)))"
  by (simp add: addr_pack_def wf_addr_def pack_H_def pack_I_def)

lemma addr_pack_Inr: "addr_pack a = Inr bs \<Longrightarrow> wf_addr a \<and> length bs = 6"
  by (auto simp: addr_pack_def wf_addr_def result_simps codec_simps)

lemma addr_unpack_pack:
  assumes "addr_pack a = Inr bs" "length pre = off"
  shows "addr_unpack (pre @ bs @ post) off = Inr a"
proof -
  from assms have w: "wf_addr a" by (simp add: addr_pack_Inr)
  then have b: "bs = be_bytes 2 (nat (addr_network a)) @ be_bytes 4 (nat (addr_node a))"
    using assms addr_pack_wf by auto
  have 1: "unpack_H (pre @ bs @ post) off = Inr (addr_network a)"
    using w assms(2) by (simp add: b unpack_H_at wf_addr_def)
  have 2: "unpack_I (pre @ bs @ post) (off + 2) = Inr (addr_node a)"
    using w assms(2) unpack_I_at [of "pre @ be_bytes 2 (nat (addr_network a))" "off + 2" "addr_node a" post]
    by (simp add: b wf_addr_def)
  show ?thesis unfolding addr_unpack_def 1 2 rbind_simps by simp
qed

section \<open>Lemmas: the event splitter\<close>

lemma split_events_loop_step:
  "split_events_loop buf pos evs =
     (case event_head (drop pos buf) of
        Incomplete \<Rightarrow> Inr (evs, drop pos buf)
      | Malformed x \<Rightarrow> Inl x
      | Complete e n \<Rightarrow> split_events_loop buf (pos + n) (evs @ [e]))"
proof -
  define b where "b = drop pos buf"
  have d: "drop (pos + k) buf = drop k b" for k by (simp add: b_def add.commute)
  have l: "(pos + 2 \<le> length buf) = (\<not> length b < 2)"
    "(length buf < pos + 2 + k + 4) = (length b < 2 + k + 4)"
    "(length buf < pos + 2 + k + 4 + m) = (length b < 2 + k + 4 + m)" for k m
    by (auto simp: b_def)
  show ?thesis
    unfolding split_events_loop.simps [of buf pos evs] b_def [symmetric] Let_def l
    unfolding add.assoc d event_head_def Let_def
    by (cases "length b < 2") (simp_all only: if_distrib [of "case_event_head _ _ _"] add.assoc
        event_head.case if_True if_False not_True_eq_False not_False_eq_True)
qed

lemma split_events_loop_ref:
  "split_events_loop buf pos evs = rmap (\<lambda>(es, r). (evs @ es, r)) (split_ref (drop pos buf))"
proof (induction "length buf - pos" arbitrary: pos evs rule: less_induct)
  case less
  show ?case
  proof (cases "event_head (drop pos buf)")
    case (Complete e n)
    from event_head_Complete_length [OF Complete]
    have "0 < n" "n \<le> length buf - pos" by simp_all
    then have "length buf - (pos + n) < length buf - pos" by arith
    from less [OF this, of "evs @ [e]"] Complete show ?thesis
      by (subst split_events_loop_step, subst split_ref.simps, cases "split_ref (drop (pos + n) buf)")
        (auto simp: add.commute)
  qed (subst split_events_loop_step, subst split_ref.simps, simp)+
qed

lemma split_events_ref: "split_events b = split_ref b"
  by (cases "split_ref b") (auto simp: split_events_def split_events_loop_ref)

lemma event_head_append:
  assumes "event_head b \<noteq> Incomplete" shows "event_head (b @ c) = event_head b"
proof -
  define tl where "tl = be_nat (take 2 b)"
  define pl where "pl = be_nat (take 4 (drop (2 + tl) b))"
  have e: "event_head b = (if length b < 2 then Incomplete
     else if 1024 < tl then Malformed (ValueError (u ''topic too long: '' @ str_nat tl))
     else if length b < 2 + tl + 4 then Incomplete
     else if 2 ^ 24 < pl then Malformed (ValueError (u ''payload too large: '' @ str_nat pl))
     else if length b < 2 + tl + 4 + pl then Incomplete
     else Complete \<lparr>ev_topic = utf8_decode_replace (take tl (drop 2 b)),
                    ev_payload = take pl (drop (2 + tl + 4) b)\<rparr> (2 + tl + 4 + pl))"
    unfolding event_head_def Let_def tl_def [symmetric] pl_def [symmetric] ..
  have L2: "\<not> length b < 2" using assms by (auto simp: e)
  have t: "be_nat (take 2 (b @ c)) = tl" using L2 by (simp add: tl_def)
  consider "1024 < tl" | "\<not> 1024 < tl" "\<not> length b < 2 + tl + 4"
    using assms L2 by (auto simp: e split: if_splits)
  then show ?thesis
  proof cases
    case 1
    then show ?thesis unfolding e unfolding event_head_def Let_def t using L2 by simp
  next
    case 2
    have p: "be_nat (take 4 (drop (2 + tl) (b @ c))) = pl" using 2 by (simp add: pl_def)
    have "2 ^ 24 < pl \<or> \<not> length b < 2 + tl + 4 + pl"
      using assms L2 2 by (auto simp: e split: if_splits)
    then show ?thesis
      using 2 L2 unfolding e unfolding event_head_def Let_def t p by auto
  qed
qed

lemma event_head_length: "event_head b = Complete e n \<Longrightarrow> n \<le> length b"
  by (simp add: event_head_Complete_length)

lemma split_ref_append:
  "split_ref (b @ c) =
     (case split_ref b of
        Inl x \<Rightarrow> Inl x
      | Inr (es, r) \<Rightarrow> rmap (\<lambda>(es', r'). (es @ es', r')) (split_ref (r @ c)))"
proof (induction b rule: split_ref.induct)
  case (1 b)
  show ?case
  proof (cases "event_head b")
    case Incomplete
    then show ?thesis
      by (subst (2) split_ref.simps, cases "split_ref (b @ c)") auto
  next
    case (Malformed x)
    then show ?thesis
      by (subst split_ref.simps, subst (2) split_ref.simps) (simp add: event_head_append)
  next
    case (Complete e n)
    have h: "event_head (b @ c) = Complete e n" using Complete by (simp add: event_head_append)
    have d: "drop n (b @ c) = drop n b @ c" using event_head_length [OF Complete] by simp
    have 1: "split_ref (b @ c) = rmap (\<lambda>(es, r). (e # es, r)) (split_ref (drop n b @ c))"
      by (subst split_ref.simps) (simp add: h d del: drop_append)
    have 2: "split_ref b = rmap (\<lambda>(es, r). (e # es, r)) (split_ref (drop n b))"
      by (subst split_ref.simps) (simp add: Complete)
    show ?thesis
      unfolding 1 2 "1.IH" [OF Complete]
      by (cases "split_ref (drop n b)") (auto simp: rmap_def split: sum.splits)
  qed
qed

lemma encode_event_valid:
  assumes "valid_event e"
  shows "encode_event (ev_topic e) (ev_payload e) = Inr (event_bytes e)"
  using assms
  by (simp add: valid_event_def encode_event_def utf8_encode_def event_bytes_def Let_def
      pack_H_def pack_I_def)

lemma event_head_bytes:
  assumes "valid_event e"
  shows "event_head (event_bytes e @ r) = Complete e (length (event_bytes e))"
proof -
  define t where "t = concat (map encode_cp (ev_topic e))"
  have t: "length t \<le> 1024" "utf8_decode_replace t = ev_topic e"
    using assms decode_replace_encode_append [of "ev_topic e" "[]"]
    by (auto simp: valid_event_def t_def)
  have p: "length (ev_payload e) \<le> 16777216" using assms by (simp add: valid_event_def)
  have b: "event_bytes e @ r =
      be_bytes 2 (length t) @ t @ be_bytes 4 (length (ev_payload e)) @ ev_payload e @ r"
    by (simp add: event_bytes_def t_def Let_def)
  have l: "length (event_bytes e) = 2 + length t + 4 + length (ev_payload e)"
    by (simp add: event_bytes_def t_def Let_def)
  have 1: "be_nat (take 2 (event_bytes e @ r)) = length t"
    unfolding b using t(1) by (simp add: be_nat_pack_H)
  have 2: "be_nat (take 4 (drop (2 + length t) (event_bytes e @ r))) = length (ev_payload e)"
    unfolding b using p by (simp add: be_nat_pack_I)
  have 3: "take (length t) (drop 2 (event_bytes e @ r)) = t"
    and 4: "take (length (ev_payload e)) (drop (2 + length t + 4) (event_bytes e @ r)) = ev_payload e"
    unfolding b by simp_all
  show ?thesis
    unfolding event_head_def Let_def 1 unfolding 2 3 4
    using t p by (simp add: l)
qed

lemma split_ref_bytes:
  "valid_event e \<Longrightarrow> split_ref (event_bytes e @ r) = rmap (\<lambda>(es, r'). (e # es, r')) (split_ref r)"
  by (subst split_ref.simps) (simp add: event_head_bytes)

lemma split_ref_events:
  "list_all valid_event es \<Longrightarrow>
     split_ref (concat (map event_bytes es) @ r) = rmap (\<lambda>(es', r'). (es @ es', r')) (split_ref r)"
proof (induction es)
  case Nil
  then show ?case by (cases "split_ref r") auto
next
  case (Cons e es)
  then show ?case by (cases "split_ref r") (auto simp: split_ref_bytes)
qed

text \<open>A proper prefix of one encoded event is incomplete.\<close>

lemma event_head_prefix:
  assumes "valid_event e" "event_bytes e = p @ q" "q \<noteq> []"
  shows "event_head p = Incomplete"
proof (rule ccontr)
  assume i: "event_head p \<noteq> Incomplete"
  then have "event_head (p @ q) = event_head p" by (rule event_head_append)
  moreover have "event_head (p @ q) = Complete e (length (p @ q))"
    using event_head_bytes [OF assms(1), of "[]"] assms(2) by simp
  ultimately have "length (p @ q) \<le> length p" using event_head_length by metis
  with assms(3) show False by simp
qed

lemma split_ref_prefix:
  "valid_event e \<Longrightarrow> event_bytes e = p @ q \<Longrightarrow> q \<noteq> [] \<Longrightarrow> split_ref p = Inr ([], p)"
  by (subst split_ref.simps) (simp add: event_head_prefix)

section \<open>Lemmas: the parsers\<close>

lemma unpack_H_total: "off + 2 \<le> length buf \<Longrightarrow> \<exists>n. unpack_H buf off = Inr n"
  by (simp add: unpack_H_def)

lemma addr_unpack_total: "off + 6 \<le> length buf \<Longrightarrow> \<exists>a. addr_unpack buf off = Inr a"
  by (simp add: addr_unpack_def unpack_H_def unpack_I_def)

lemma addr_unpack_wf: "addr_unpack buf off = Inr a \<Longrightarrow> wf_addr a"
  by (auto simp: addr_unpack_def wf_addr_def result_simps dest: unpack_H_range unpack_I_range)

lemma parse_accept_total: "\<exists>r. parse_accept p = Inr r \<and> (r = None \<longleftrightarrow> length p < 14)"
proof (cases "length p < 14")
  case False
  obtain a where "addr_unpack p 6 = Inr a" using addr_unpack_total [of 6 p] False by auto
  with False show ?thesis
    by (simp add: parse_accept_def ADDR_SIZE_def unpack_H_def unpack_I_def)
qed (simp add: parse_accept_def ADDR_SIZE_def)

lemma parse_datagram_total: "\<exists>r. parse_datagram p = Inr r \<and> (r = None \<longleftrightarrow> length p < 10)"
proof (cases "length p < 10")
  case False
  obtain a where "addr_unpack p 0 = Inr a" using addr_unpack_total [of 0 p] False by auto
  with False show ?thesis
    by (simp add: parse_datagram_def ADDR_SIZE_def unpack_H_def)
qed (simp add: parse_datagram_def ADDR_SIZE_def)

definition accept_bytes :: "accepted_conn \<Rightarrow> bytes" where
  "accept_bytes c =
     be_bytes 2 (nat (local_port c)) @ be_bytes 4 (nat (acc_conn_id c)) @
     be_bytes 2 (nat (addr_network (remote_addr c))) @ be_bytes 4 (nat (addr_node (remote_addr c))) @
     be_bytes 2 (nat (remote_port c))"

definition wf_accepted :: "accepted_conn \<Rightarrow> bool" where
  "wf_accepted c \<longleftrightarrow>
     0 \<le> local_port c \<and> local_port c < 65536 \<and> 0 \<le> acc_conn_id c \<and> acc_conn_id c < 4294967296 \<and>
     wf_addr (remote_addr c) \<and> 0 \<le> remote_port c \<and> remote_port c < 65536"

lemma parse_accept_bytes:
  assumes "wf_accepted c" shows "parse_accept (accept_bytes c @ extra) = Inr (Some c)"
proof -
  let ?ab = "be_bytes 2 (nat (addr_network (remote_addr c))) @ be_bytes 4 (nat (addr_node (remote_addr c)))"
  let ?lp = "be_bytes 2 (nat (local_port c))" and ?ci = "be_bytes 4 (nat (acc_conn_id c))"
  let ?rp = "be_bytes 2 (nat (remote_port c))"
  have w: "accept_bytes c @ extra = ?lp @ ?ci @ ?ab @ ?rp @ extra"
    by (simp add: accept_bytes_def)
  have a: "addr_pack (remote_addr c) = Inr ?ab"
    using assms by (simp add: wf_accepted_def addr_pack_wf)
  have 1: "unpack_H (accept_bytes c @ extra) 0 = Inr (local_port c)"
    unfolding w using assms unpack_H_at [of "[]" 0 "local_port c" "?ci @ ?ab @ ?rp @ extra"]
    by (simp add: wf_accepted_def)
  have 2: "unpack_I (accept_bytes c @ extra) 2 = Inr (acc_conn_id c)"
    unfolding w using assms unpack_I_at [of ?lp 2 "acc_conn_id c" "?ab @ ?rp @ extra"]
    by (simp add: wf_accepted_def)
  have 3: "addr_unpack (accept_bytes c @ extra) 6 = Inr (remote_addr c)"
    unfolding w using addr_unpack_pack [OF a, of "?lp @ ?ci" 6 "?rp @ extra"] by simp
  have 4: "unpack_H (accept_bytes c @ extra) 12 = Inr (remote_port c)"
    unfolding w using assms unpack_H_at [of "?lp @ ?ci @ ?ab" 12 "remote_port c" extra]
    by (simp add: wf_accepted_def)
  have l: "length (accept_bytes c @ extra) = 14 + length extra" by (simp add: accept_bytes_def)
  show ?thesis
    unfolding parse_accept_def l 1 2 3 ADDR_SIZE_def using 4 by simp
qed

section \<open>Properties\<close>

text \<open>
  C23: the text form of an address is lossless: \<^verbatim>\<open>Addr.parse(str(a)) == a\<close> for every address
  the wire can carry (16-bit network, 32-bit node).
\<close>

theorem addr_text_roundtrip:
  assumes "wf_addr a" shows "addr_parse (addr_str a) = Inr a"
  using assms by (rule addr_parse_str)

theorem addr_text_roundtrip_witness:
  "addr_parse (addr_str \<lparr>addr_network = 2, addr_node = 0xDEADBEEF\<rparr>)
     = Inr \<lparr>addr_network = 2, addr_node = 0xDEADBEEF\<rparr>"
  by (rule addr_text_roundtrip) (simp add: wf_addr_def)

text \<open>
  Whatever \<^verbatim>\<open>Addr.parse\<close> accepts can be dialled: the fields fit their binary widths, the
  packed form is six bytes that unpack at any offset to the same address, and printing and
  parsing again is the identity.
\<close>

theorem addr_parse_sound:
  assumes "addr_parse s = Inr a"
  shows "wf_addr a \<and> addr_parse (addr_str a) = Inr a \<and>
    (\<exists>bs. addr_pack a = Inr bs \<and> length bs = ADDR_SIZE \<and>
       addr_unpack (pre @ bs @ post) (length pre) = Inr a)"
proof -
  from assms have w: "wf_addr a" by (rule addr_parse_wf)
  then obtain bs where b: "addr_pack a = Inr bs" by (auto simp: addr_pack_wf)
  then show ?thesis
    using w addr_parse_str [OF w] addr_pack_Inr [OF b] addr_unpack_pack [OF b refl]
    by (simp add: ADDR_SIZE_def)
qed

theorem addr_parse_sound_witness:
  "wf_addr \<lparr>addr_network = 0, addr_node = 0x1ABCD\<rparr>"
proof -
  have "match_addr (u ''0:0000.0001.abcD'') = Some ([0], 0, 1, 0xABCD)"
    by (simp add: u_def match_addr_def nd_val_def nd_starts_def take_hex4_def hex_val_def)
  then have "addr_parse (u ''0:0000.0001.abcD'') = Inr \<lparr>addr_network = 0, addr_node = 0x1ABCD\<rparr>"
    by (simp add: addr_parse_def)
  from addr_parse_sound [OF this] show ?thesis by simp
qed

text \<open>
  A receiver that splits what it has after every delivery and keeps the leftover, as
  \<^verbatim>\<open>PilotChannel.recv\<close> does with its buffer.
\<close>

definition events_feed :: "(event list \<times> bytes) result \<Rightarrow> bytes \<Rightarrow> (event list \<times> bytes) result" where
  "events_feed s b =
     rbind s (\<lambda>(es, r). rmap (\<lambda>(es', r'). (es @ es', r')) (split_events (r @ b)))"

interpretation ev: incremental events_feed
proof
  fix s a b
  show "events_feed s (a @ b) = events_feed (events_feed s a) b"
  proof (cases s)
    case (Inr x)
    obtain es r where x: "x = (es, r)" by (cases x)
    have ap: "split_events (r @ a @ b) =
        (case split_events (r @ a) of
           Inl y \<Rightarrow> Inl y
         | Inr (es1, r1) \<Rightarrow> rmap (\<lambda>(es', r'). (es1 @ es', r')) (split_events (r1 @ b)))"
      using split_ref_append [of "r @ a" b] unfolding split_events_ref by simp
    show ?thesis
    proof (cases "split_events (r @ a)")
      case (Inr y)
      obtain es1 r1 where "y = (es1, r1)" by (cases y)
      with Inr show ?thesis
        using ap by (cases "split_events (r1 @ b)") (auto simp: events_feed_def \<open>s = Inr x\<close> x)
    qed (use ap in \<open>simp add: events_feed_def Inr x\<close>)
  qed (simp add: events_feed_def)
qed

text \<open>
  Splitting is independent of how the byte stream was cut: a receiver that is fed any chunks
  one after the other has the same events and the same leftover as one split of all the bytes.
  Errors included: a malformed header is found in both or in neither.
\<close>

theorem split_events_incremental:
  "foldl events_feed (Inr ([], [])) (c # cs) = split_events (concat (c # cs))"
proof -
  have "foldl events_feed (Inr ([], [])) (c # cs) = events_feed (Inr ([], [])) (concat (c # cs))"
    by (rule ev.feed_chunks)
  then show ?thesis by (cases "split_events (concat (c # cs))") (auto simp: events_feed_def)
qed

text \<open>
  Encoded events followed by a proper prefix of one more come back as exactly those
  events, in order, with the prefix as the leftover.
\<close>

theorem split_events_roundtrip:
  assumes "list_all valid_event es" "valid_event e" "event_bytes e = p @ q" "q \<noteq> []"
  shows "map (\<lambda>x. encode_event (ev_topic x) (ev_payload x)) es = map (Inr \<circ> event_bytes) es \<and>
    split_events (concat (map event_bytes es) @ p) = Inr (es, p)"
proof
  show "map (\<lambda>x. encode_event (ev_topic x) (ev_payload x)) es = map (Inr \<circ> event_bytes) es"
    using assms(1) by (auto simp: list_all_iff encode_event_valid)
  show "split_events (concat (map event_bytes es) @ p) = Inr (es, p)"
    using assms by (simp add: split_events_ref split_ref_events split_ref_prefix)
qed

theorem split_events_roundtrip_witness:
  "split_events (event_bytes \<lparr>ev_topic = u ''a'', ev_payload = [120]\<rparr> @ [0]) =
     Inr ([\<lparr>ev_topic = u ''a'', ev_payload = [120]\<rparr>], [0])"
proof -
  let ?e = "\<lparr>ev_topic = u ''a'', ev_payload = [120]\<rparr>"
  have v: "valid_event ?e"
    by (simp add: valid_event_def u_def is_scalar_def is_surrogate_def encode_cp_def)
  have b: "event_bytes ?e = [0] @ [1, 97, 0, 0, 0, 1, 120]"
    by (simp add: event_bytes_def u_def encode_cp_def be_bytes_2 be_bytes_4)
  show ?thesis
    using split_events_roundtrip [OF _ v b, of "[?e]"] v by simp
qed

text \<open>
  The publisher does not enforce the splitter's bounds: a topic of more than 1024 encoded
  bytes is encoded without complaint, and every subscriber's \<^verbatim>\<open>split_events\<close> then raises
  \<^verbatim>\<open>ValueError\<close> on any buffer that begins with it.
\<close>

theorem encode_event_unbounded_topic:
  assumes "utf8_encode topic = Inr t" "1024 < length t" "length t < 65536"
    "length payload < 4294967296"
  shows "\<exists>wire. encode_event topic payload = Inr wire \<and>
    split_events (wire @ rest) = Inl (ValueError (u ''topic too long: '' @ str_nat (length t)))"
proof -
  let ?wire = "be_bytes 2 (length t) @ t @ be_bytes 4 (length payload) @ payload"
  have "encode_event topic payload = Inr ?wire"
    using assms by (simp add: encode_event_def pack_H_def pack_I_def)
  moreover have "event_head (?wire @ rest) =
      Malformed (ValueError (u ''topic too long: '' @ str_nat (length t)))"
    using assms by (simp add: event_head_def be_nat_pack_H)
  then have "split_ref (?wire @ rest) = Inl (ValueError (u ''topic too long: '' @ str_nat (length t)))"
    by (subst split_ref.simps) simp
  ultimately show ?thesis by (auto simp: split_events_ref)
qed

theorem encode_event_unbounded_topic_witness:
  "\<exists>wire. encode_event (replicate 1025 97) [] = Inr wire \<and>
     split_events (wire @ []) = Inl (ValueError (u ''topic too long: '' @ str_nat 1025))"
proof -
  have "utf8_encode (replicate 1025 97) = Inr (ascii_bytes (replicate 1025 97))"
    by (rule utf8_encode_ascii) (simp add: is_ascii_def list_all_iff)
  from encode_event_unbounded_topic [OF this, of "[]" "[]"] show ?thesis
    by (simp add: ascii_bytes_def)
qed

text \<open>
  The parser \<^verbatim>\<open>parse_accept\<close> reads the documented layout
  \<^verbatim>\<open>[2B local_port][4B conn_id][6B remote_addr][2B remote_port]\<close>, ignores trailing bytes, answers
  \<^verbatim>\<open>None\<close> exactly when the payload is shorter than 14 bytes, and never raises.
\<close>

theorem parse_accept_layout:
  "(wf_accepted c \<longrightarrow> parse_accept (accept_bytes c @ extra) = Inr (Some c)) \<and>
   (\<exists>r. parse_accept p = Inr r \<and> (r = None \<longleftrightarrow> length p < 14))"
  using parse_accept_bytes parse_accept_total by blast

theorem parse_accept_layout_witness:
  "parse_accept (accept_bytes \<lparr>local_port = 5000, acc_conn_id = 7,
       remote_addr = \<lparr>addr_network = 0, addr_node = 255\<rparr>, remote_port = 0xC001\<rparr> @ [])
     = Inr (Some \<lparr>local_port = 5000, acc_conn_id = 7,
         remote_addr = \<lparr>addr_network = 0, addr_node = 255\<rparr>, remote_port = 0xC001\<rparr>)"
  using parse_accept_layout [of "\<lparr>local_port = 5000, acc_conn_id = 7,
       remote_addr = \<lparr>addr_network = 0, addr_node = 255\<rparr>, remote_port = 0xC001\<rparr>" "[]" "[]"]
  by (simp add: wf_accepted_def wf_addr_def)

end
