(* ===== verification/Json.thy ===== *)
theory Json
  imports Utf8 Text
begin

text \<open>
  The part of Python's \<^verbatim>\<open>json\<close> module that the wire formats rest on: \<^verbatim>\<open>json.dumps\<close> with
  \<^verbatim>\<open>ensure_ascii\<close> and the separators of the call, and \<^verbatim>\<open>json.loads\<close> (scanner, string
  unescaping with surrogate pairs, numbers, duplicate keys, extra data). A float is kept as
  its literal: the conversion to binary floating point is not modelled, nor are the
  interpreter's limits on recursion depth and on the digits of an integer.
\<close>

section \<open>json.dumps\<close>

fun join :: "'a list \<Rightarrow> 'a list list \<Rightarrow> 'a list" where
  "join sep [] = []"
| "join sep [x] = x"
| "join sep (x # y # r) = x @ sep @ join sep (y # r)"

text \<open>\<^verbatim>\<open>py_encode_basestring_ascii\<close>: one code point.\<close>

definition escape_cp :: "nat \<Rightarrow> pystr" where
  "escape_cp c =
     (if c = 34 then [92, 34] else if c = 92 then [92, 92]
      else if c = 10 then [92, 110] else if c = 13 then [92, 114] else if c = 9 then [92, 116]
      else if c = 12 then [92, 102] else if c = 8 then [92, 98]
      else if 32 \<le> c \<and> c \<le> 126 then [c]
      else if c < 65536 then [92, 117] @ fmt_04x c
      else (let v = c - 65536 in
            [92, 117] @ fmt_04x (55296 + v div 1024) @ [92, 117] @ fmt_04x (56320 + v mod 1024)))"

definition dump_str :: "pystr \<Rightarrow> pystr" where
  "dump_str s = [34] @ concat (map escape_cp s) @ [34]"

fun dumps_sep :: "pystr \<Rightarrow> pystr \<Rightarrow> json \<Rightarrow> pystr" where
  "dumps_sep i k JNull = u ''null''"
| "dumps_sep i k (JBool b) = (if b then u ''true'' else u ''false'')"
| "dumps_sep i k (JInt n) = str_int n"
| "dumps_sep i k (JFloat l) = l"
| "dumps_sep i k (JStr s) = dump_str s"
| "dumps_sep i k (JArr xs) = [91] @ join i (map (dumps_sep i k) xs) @ [93]"
| "dumps_sep i k (JObj ms) = [123] @ join i (map (\<lambda>(n, v). dump_str n @ k @ dumps_sep i k v) ms) @ [125]"

text \<open>\<^verbatim>\<open>separators=(",", ":")\<close> of the wire, and the default separators.\<close>

definition json_dumps :: "json \<Rightarrow> pystr" where
  "json_dumps v = dumps_sep [44] [58] v"

definition json_dumps_default :: "json \<Rightarrow> pystr" where
  "json_dumps_default v = dumps_sep [44, 32] [58, 32] v"

section \<open>json.loads\<close>

definition is_ws :: "nat \<Rightarrow> bool" where
  "is_ws c \<longleftrightarrow> c = 32 \<or> c = 9 \<or> c = 10 \<or> c = 13"

definition skip_ws :: "pystr \<Rightarrow> pystr" where
  "skip_ws s = dropWhile is_ws s"

text \<open>\<^verbatim>\<open>BACKSLASH\<close>: the one-character escapes.\<close>

definition simple_escape :: "nat \<Rightarrow> nat option" where
  "simple_escape e =
     (if e = 34 then Some 34 else if e = 92 then Some 92 else if e = 47 then Some 47
      else if e = 98 then Some 8 else if e = 102 then Some 12 else if e = 110 then Some 10
      else if e = 114 then Some 13 else if e = 116 then Some 9 else None)"

text \<open>The second half of a surrogate pair, when the text goes on with one.\<close>

definition low_half :: "pystr \<Rightarrow> (nat \<times> pystr) option" where
  "low_half s =
     Option.bind (expect_cp 92 s) (\<lambda>s1.
     Option.bind (expect_cp 117 s1) (\<lambda>s2.
     Option.bind (take_hex4 s2) (\<lambda>(lo, r).
       if 56320 \<le> lo \<and> lo \<le> 57343 then Some (lo, r) else None)))"

lemma low_half_length: "low_half s = Some (lo, r) \<Longrightarrow> length s = length r + 6"
  by (auto simp: low_half_def expect_cp_Some bind_eq_Some_conv dest!: take_hex4_bound
      split: if_splits)

text \<open>
  \<^verbatim>\<open>scanstring\<close> after the opening quote, strict: one step (the closing quote, one character with
  its escape, or an error), and the string with what follows it.
\<close>

datatype sstep = SErr | SEnd pystr | SChar nat pystr

definition scan_char :: "pystr \<Rightarrow> sstep" where
  "scan_char s =
     (case s of
        [] \<Rightarrow> SErr
      | c # cs \<Rightarrow>
          if c = 34 then SEnd cs
          else if c = 92 then
            (case cs of
               [] \<Rightarrow> SErr
             | e # r \<Rightarrow>
                 if e = 117 then
                   (case take_hex4 r of
                      None \<Rightarrow> SErr
                    | Some (h, r1) \<Rightarrow>
                        (case (if 55296 \<le> h \<and> h \<le> 56319 then low_half r1 else None) of
                           Some (lo, r2) \<Rightarrow> SChar (65536 + ((h - 55296) * 1024 + (lo - 56320))) r2
                         | None \<Rightarrow> SChar h r1))
                 else
                   (case simple_escape e of None \<Rightarrow> SErr | Some d \<Rightarrow> SChar d r))
          else if c < 32 then SErr
          else SChar c cs)"

lemma scan_char_length: "scan_char s = SChar c r \<Longrightarrow> length r < length s"
  by (auto simp: scan_char_def split: list.splits if_splits option.splits
      dest!: take_hex4_bound low_half_length)

function scan_string :: "pystr \<Rightarrow> (pystr \<times> pystr) option" where
  "scan_string s =
     (case scan_char s of
        SErr \<Rightarrow> None
      | SEnd r \<Rightarrow> Some ([], r)
      | SChar c r \<Rightarrow> map_option (\<lambda>(t, q). (c # t, q)) (scan_string r))"
  by pat_completeness auto
termination
  by (relation "measure length") (auto dest!: scan_char_length)

declare scan_string.simps [simp del]

text \<open>
  \<^verbatim>\<open>NUMBER_RE\<close>: \<^verbatim>\<open>(-?(?:0|[1-9]\d*))(\.\d+)?([eE][-+]?\d+)?\<close>, each part as the text it takes.
\<close>

definition num_sign :: "pystr \<Rightarrow> pystr" where
  "num_sign s = (case s of [] \<Rightarrow> [] | c # _ \<Rightarrow> if c = 45 then [45] else [])"

definition num_int :: "pystr \<Rightarrow> pystr" where
  "num_int s =
     (case s of
        [] \<Rightarrow> []
      | c # r \<Rightarrow> if c = 48 then [48] else if 49 \<le> c \<and> c \<le> 57 then takeWhile ascii_digit s else [])"

definition num_frac :: "pystr \<Rightarrow> pystr" where
  "num_frac s =
     (case s of
        [] \<Rightarrow> []
      | c # r \<Rightarrow> if c = 46 \<and> takeWhile ascii_digit r \<noteq> [] then 46 # takeWhile ascii_digit r else [])"

definition num_exp :: "pystr \<Rightarrow> pystr" where
  "num_exp s =
     (case s of
        [] \<Rightarrow> []
      | c # r \<Rightarrow>
          if c = 101 \<or> c = 69 then
            (let sg = (case r of [] \<Rightarrow> [] | d # _ \<Rightarrow> if d = 45 \<or> d = 43 then [d] else []);
                 ds = takeWhile ascii_digit (drop (length sg) r)
             in if ds = [] then [] else c # sg @ ds)
          else [])"

definition scan_number :: "pystr \<Rightarrow> (json \<times> pystr) option" where
  "scan_number s =
     (let sg = num_sign s;
          s1 = drop (length sg) s;
          ip = num_int s1;
          s2 = drop (length ip) s1;
          fp = num_frac s2;
          s3 = drop (length fp) s2;
          ep = num_exp s3;
          r = drop (length ep) s3;
          n = int (eval_digits 10 (map (\<lambda>c. c - 48) ip))
      in if ip = [] then None
         else if fp = [] \<and> ep = [] then Some (JInt (if sg = [] then n else - n), r)
         else Some (JFloat (sg @ ip @ fp @ ep), r))"

definition strip_prefix :: "pystr \<Rightarrow> pystr \<Rightarrow> pystr option" where
  "strip_prefix p s = (if take (length p) s = p then Some (drop (length p) s) else None)"

text \<open>The values that are neither strings, objects nor arrays, in the scanner's order.\<close>

definition scan_scalar :: "pystr \<Rightarrow> (json \<times> pystr) option" where
  "scan_scalar s =
     (case strip_prefix (u ''null'') s of Some r \<Rightarrow> Some (JNull, r) | None \<Rightarrow>
     (case strip_prefix (u ''true'') s of Some r \<Rightarrow> Some (JBool True, r) | None \<Rightarrow>
     (case strip_prefix (u ''false'') s of Some r \<Rightarrow> Some (JBool False, r) | None \<Rightarrow>
     (case scan_number s of Some x \<Rightarrow> Some x | None \<Rightarrow>
     (case strip_prefix (u ''NaN'') s of Some r \<Rightarrow> Some (JFloat (u ''NaN''), r) | None \<Rightarrow>
     (case strip_prefix (u ''Infinity'') s of Some r \<Rightarrow> Some (JFloat (u ''Infinity''), r) | None \<Rightarrow>
     (case strip_prefix (u ''-Infinity'') s of Some r \<Rightarrow> Some (JFloat (u ''-Infinity''), r)
      | None \<Rightarrow> None)))))))"

definition dict_of_pairs :: "('k \<times> 'v) list \<Rightarrow> ('k, 'v) dict" where
  "dict_of_pairs ps = foldl (\<lambda>d (k, v). dict_set d k v) [] ps"

text \<open>
  \<^verbatim>\<open>scan_once\<close>, \<^verbatim>\<open>JSONObject\<close> from the first key's quote, \<^verbatim>\<open>JSONArray\<close> from the first element.
  The fuel bounds the nesting of calls; \<open>jvalue_fuel\<close> shows that \<open>2 * length s + 2\<close> is enough.
\<close>

fun jvalue :: "nat \<Rightarrow> pystr \<Rightarrow> (json \<times> pystr) option"
  and jmembers :: "nat \<Rightarrow> pystr \<Rightarrow> ((pystr \<times> json) list \<times> pystr) option"
  and jelems :: "nat \<Rightarrow> pystr \<Rightarrow> (json list \<times> pystr) option"
where
  "jvalue 0 s = None"
| "jvalue (Suc f) s =
     (case s of
        [] \<Rightarrow> None
      | c # r \<Rightarrow>
          if c = 34 then map_option (\<lambda>(t, q). (JStr t, q)) (scan_string r)
          else if c = 123 then
            (case skip_ws r of
               [] \<Rightarrow> None
             | d # r1 \<Rightarrow>
                 if d = 125 then Some (JObj [], r1)
                 else if d = 34 then
                   map_option (\<lambda>(ms, q). (JObj (dict_of_pairs ms), q)) (jmembers f (d # r1))
                 else None)
          else if c = 91 then
            (case skip_ws r of
               [] \<Rightarrow> None
             | d # r1 \<Rightarrow>
                 if d = 93 then Some (JArr [], r1)
                 else map_option (\<lambda>(xs, q). (JArr xs, q)) (jelems f (d # r1)))
          else scan_scalar s)"
| "jmembers 0 s = None"
| "jmembers (Suc f) s =
     Option.bind (expect_cp 34 s) (\<lambda>s1.
     Option.bind (scan_string s1) (\<lambda>(k, s2).
     Option.bind (expect_cp 58 (skip_ws s2)) (\<lambda>s3.
     Option.bind (jvalue f (skip_ws s3)) (\<lambda>(v, s4).
       (case skip_ws s4 of
          [] \<Rightarrow> None
        | c # r \<Rightarrow>
            if c = 125 then Some ([(k, v)], r)
            else if c = 44 then map_option (\<lambda>(ms, q). ((k, v) # ms, q)) (jmembers f (skip_ws r))
            else None)))))"
| "jelems 0 s = None"
| "jelems (Suc f) s =
     Option.bind (jvalue f s) (\<lambda>(v, s1).
       (case skip_ws s1 of
          [] \<Rightarrow> None
        | c # r \<Rightarrow>
            if c = 93 then Some ([v], r)
            else if c = 44 then map_option (\<lambda>(xs, q). (v # xs, q)) (jelems f (skip_ws r))
            else None))"

definition loads_str :: "pystr \<Rightarrow> json option" where
  "loads_str s =
     (case jvalue (2 * length s + 2) (skip_ws s) of
        Some (v, r) \<Rightarrow> if skip_ws r = [] then Some v else None
      | None \<Rightarrow> None)"

text \<open>\<^verbatim>\<open>detect_encoding\<close> answers UTF-8.\<close>

definition detects_utf8 :: "bytes \<Rightarrow> bool" where
  "detects_utf8 b \<longleftrightarrow>
     \<not> (take 4 b = [0, 0, 0xFE, 0xFF] \<or> take 4 b = [0xFF, 0xFE, 0, 0] \<or>
        take 2 b = [0xFE, 0xFF] \<or> take 2 b = [0xFF, 0xFE] \<or> take 3 b = [0xEF, 0xBB, 0xBF] \<or>
        (4 \<le> length b \<and> (b ! 0 = 0 \<or> b ! 1 = 0)) \<or>
        (length b = 2 \<and> (b ! 0 = 0 \<or> b ! 1 = 0)))"

text \<open>\<^verbatim>\<open>json.loads\<close> of bytes.\<close>

definition json_loads :: "bytes \<Rightarrow> json result" where
  "json_loads b =
     (if \<not> detects_utf8 b then Inl UnmodelledEncoding
      else (case utf8_decode_strict True b of
              None \<Rightarrow> Inl UnicodeDecodeError
            | Some s \<Rightarrow> (case loads_str s of None \<Rightarrow> Inl JSONDecodeError | Some v \<Rightarrow> Inr v)))"

section \<open>Objects as the sources use them\<close>

text \<open>\<^verbatim>\<open>d.get(k)\<close> on a value that must be a dict (\<^verbatim>\<open>AttributeError\<close> otherwise).\<close>

definition jget :: "json \<Rightarrow> pystr \<Rightarrow> json result" where
  "jget v k =
     (case v of JObj ms \<Rightarrow> Inr (case dict_get ms k of None \<Rightarrow> JNull | Some x \<Rightarrow> x)
      | _ \<Rightarrow> Inl AttributeError)"

definition quoted :: "string \<Rightarrow> pystr" where
  "quoted s = 39 # u s @ [39]"

text \<open>\<^verbatim>\<open>d[k]\<close> of a parsed value.\<close>

definition jindex :: "json \<Rightarrow> pystr \<Rightarrow> json result" where
  "jindex v k =
     (case v of
        JObj ms \<Rightarrow> (case dict_get ms k of None \<Rightarrow> Inl (KeyError k) | Some x \<Rightarrow> Inr x)
      | JArr _ \<Rightarrow> Inl (TypeError (u ''list indices must be integers or slices, not str''))
      | JStr _ \<Rightarrow> Inl (TypeError (u ''string indices must be integers, not '' @ quoted ''str''))
      | JInt _ \<Rightarrow> Inl (TypeError (quoted ''int'' @ u '' object is not subscriptable''))
      | JBool _ \<Rightarrow> Inl (TypeError (quoted ''bool'' @ u '' object is not subscriptable''))
      | JFloat _ \<Rightarrow> Inl (TypeError (quoted ''float'' @ u '' object is not subscriptable''))
      | JNull \<Rightarrow> Inl (TypeError (quoted ''NoneType'' @ u '' object is not subscriptable'')))"

text \<open>Python truth of a JSON value; a float literal is false when all its digits are zero.\<close>

definition float_nonzero :: "pystr \<Rightarrow> bool" where
  "float_nonzero l \<longleftrightarrow>
     (let m = takeWhile (\<lambda>c. c \<noteq> 101 \<and> c \<noteq> 69) l
      in \<exists>c \<in> set m. \<not> (c = 48 \<or> c = 46 \<or> c = 45))"

fun truthy :: "json \<Rightarrow> bool" where
  "truthy JNull = False"
| "truthy (JBool b) = b"
| "truthy (JInt n) = (n \<noteq> 0)"
| "truthy (JFloat l) = float_nonzero l"
| "truthy (JStr s) = (s \<noteq> [])"
| "truthy (JArr xs) = (xs \<noteq> [])"
| "truthy (JObj ms) = (ms \<noteq> [])"

section \<open>Well-formed values\<close>

text \<open>
  The values whose text determines them: strings without surrogates, distinct keys, float
  literals that the scanner reads back as they are.
\<close>

definition float_ok :: "pystr \<Rightarrow> bool" where
  "float_ok l \<longleftrightarrow>
     scan_number l = Some (JFloat l, []) \<or>
     l = u ''NaN'' \<or> l = u ''Infinity'' \<or> l = u ''-Infinity''"

fun wf_json :: "json \<Rightarrow> bool" where
  "wf_json JNull = True"
| "wf_json (JBool b) = True"
| "wf_json (JInt n) = True"
| "wf_json (JFloat l) = float_ok l"
| "wf_json (JStr s) = list_all is_scalar s"
| "wf_json (JArr xs) = list_all wf_json xs"
| "wf_json (JObj ms) =
     (distinct (map fst ms) \<and> list_all (\<lambda>(k, v). list_all is_scalar k \<and> wf_json v) ms)"

end
