(* ===== verification/Json_Lemmas.thy ===== *)
theory Json_Lemmas
  imports Json
begin

text \<open>
  Facts about the JSON parser: how much text it consumes, that its fuel is enough, and how a
  number ends.
\<close>

section \<open>Consumption\<close>

lemma length_skip_ws: "length (skip_ws s) \<le> length s"
  by (simp add: skip_ws_def length_dropWhile_le)

lemma skip_ws_Cons_length: "skip_ws s = c # r \<Longrightarrow> length r < length s"
  using length_skip_ws [of s] by simp

lemma scan_char_SEnd_length: "scan_char s = SEnd r \<Longrightarrow> length r < length s"
  by (auto simp: scan_char_def split: list.splits if_splits option.splits)

lemma scan_string_length: "scan_string s = Some (t, r) \<Longrightarrow> length r < length s"
proof (induction s arbitrary: t r rule: scan_string.induct)
  case (1 s)
  show ?case
  proof (cases "scan_char s")
    case (SChar c q)
    with "1.prems" obtain t' where "scan_string q = Some (t', r)"
      by (subst (asm) scan_string.simps) auto
    from "1.IH" [OF SChar this] scan_char_length [OF SChar] show ?thesis by simp
  qed (use "1.prems" in \<open>auto simp: scan_string.simps [of s] dest: scan_char_SEnd_length\<close>)
qed

lemma num_parts_prefix:
  "num_sign s @ drop (length (num_sign s)) s = s"
  "num_int s @ drop (length (num_int s)) s = s"
  "num_frac s @ drop (length (num_frac s)) s = s"
  "num_exp s @ drop (length (num_exp s)) s = s"
proof -
  have tw: "takeWhile P x @ drop (length (takeWhile P x)) x = x" for P and x :: pystr
    by (metis dropWhile_eq_drop takeWhile_dropWhile_id)
  show "num_sign s @ drop (length (num_sign s)) s = s"
    by (auto simp: num_sign_def split: list.splits)
  show "num_int s @ drop (length (num_int s)) s = s"
    by (auto simp: num_int_def tw split: list.splits)
  show "num_frac s @ drop (length (num_frac s)) s = s"
    by (auto simp: num_frac_def tw split: list.splits)
  show "num_exp s @ drop (length (num_exp s)) s = s"
    by (auto simp: num_exp_def Let_def tw split: list.splits)
qed

text \<open>A scanned number is its parts; the parts determine the scan.\<close>

definition num_value :: "pystr \<Rightarrow> pystr \<Rightarrow> pystr \<Rightarrow> pystr \<Rightarrow> json" where
  "num_value sg ip fp ep =
     (let n = int (eval_digits 10 (map (\<lambda>c. c - 48) ip))
      in if fp = [] \<and> ep = [] then JInt (if sg = [] then n else - n) else JFloat (sg @ ip @ fp @ ep))"

lemma scan_number_intro:
  assumes "num_sign (sg @ ip @ fp @ ep @ r) = sg" "num_int (ip @ fp @ ep @ r) = ip" "ip \<noteq> []"
    "num_frac (fp @ ep @ r) = fp" "num_exp (ep @ r) = ep"
  shows "scan_number (sg @ ip @ fp @ ep @ r) = Some (num_value sg ip fp ep, r)"
proof -
  have d: "drop (length x) (x @ y) = y" for x y :: pystr by simp
  show ?thesis
    unfolding scan_number_def Let_def assms(1) d assms(2) assms(4) assms(5)
    using assms(3) by (simp add: num_value_def Let_def)
qed

lemma scan_number_elim:
  assumes "scan_number s = Some (v, r)"
  obtains sg ip fp ep where "s = sg @ ip @ fp @ ep @ r" "num_sign s = sg"
    "num_int (ip @ fp @ ep @ r) = ip" "ip \<noteq> []" "num_frac (fp @ ep @ r) = fp"
    "num_exp (ep @ r) = ep" "v = num_value sg ip fp ep"
proof -
  define sg where "sg = num_sign s"
  define s1 where "s1 = drop (length sg) s"
  define ip where "ip = num_int s1"
  define s2 where "s2 = drop (length ip) s1"
  define fp where "fp = num_frac s2"
  define s3 where "s3 = drop (length fp) s2"
  define ep where "ep = num_exp s3"
  define q where "q = drop (length ep) s3"
  note defs = sg_def s1_def ip_def s2_def fp_def s3_def ep_def q_def
  have e: "scan_number s = (if ip = [] then None else Some (num_value sg ip fp ep, q))"
  proof -
    have "scan_number s = (if ip = [] then None
        else if fp = [] \<and> ep = []
          then Some (JInt (if sg = [] then int (eval_digits 10 (map (\<lambda>c. c - 48) ip))
                           else - int (eval_digits 10 (map (\<lambda>c. c - 48) ip))), q)
          else Some (JFloat (sg @ ip @ fp @ ep), q))"
      unfolding scan_number_def Let_def defs by (rule refl)
    then show ?thesis by (simp add: num_value_def Let_def)
  qed
  have s: "s = sg @ s1" "s1 = ip @ s2" "s2 = fp @ s3" "s3 = ep @ q"
    unfolding defs by (simp_all only: num_parts_prefix)
  from e assms have v: "ip \<noteq> []" "q = r" "v = num_value sg ip fp ep" by (auto split: if_splits)
  have p: "num_sign s = sg" "num_int s1 = ip" "num_frac s2 = fp" "num_exp s3 = ep"
    by (simp_all add: sg_def ip_def fp_def ep_def)
  show thesis
    using p(2-4) v by (intro that [of sg ip fp ep]) (simp_all add: p(1) s(2-4), simp add: s)
qed

lemma scan_number_length: "scan_number s = Some (v, r) \<Longrightarrow> length r < length s"
  by (elim scan_number_elim) simp

lemma strip_prefix_Some: "strip_prefix p s = Some r \<longleftrightarrow> s = p @ r"
  by (auto simp: strip_prefix_def) (metis append_take_drop_id)

lemma scan_scalar_length: "scan_scalar s = Some (v, r) \<Longrightarrow> length r < length s"
  by (auto simp: scan_scalar_def strip_prefix_Some u_def split: option.splits
      dest!: scan_number_length)

text \<open>The successful runs of the three parsers, one rule per branch.\<close>

lemma jvalue_SucE:
  assumes "jvalue (Suc f) s = Some (v, r)"
  obtains s1 t where "s = 34 # s1" "scan_string s1 = Some (t, r)" "v = JStr t"
  | s1 where "s = 123 # s1" "skip_ws s1 = 125 # r" "v = JObj []"
  | s1 q ms where "s = 123 # s1" "skip_ws s1 = 34 # q" "jmembers f (34 # q) = Some (ms, r)"
      "v = JObj (dict_of_pairs ms)"
  | s1 where "s = 91 # s1" "skip_ws s1 = 93 # r" "v = JArr []"
  | s1 d q xs where "s = 91 # s1" "skip_ws s1 = d # q" "d \<noteq> 93" "jelems f (d # q) = Some (xs, r)"
      "v = JArr xs"
  | c s1 where "s = c # s1" "c \<noteq> 34" "c \<noteq> 123" "c \<noteq> 91" "scan_scalar s = Some (v, r)"
  using assms by (auto split: list.splits if_splits)

lemma jmembers_SucE:
  assumes "jmembers (Suc f) s = Some (ms, r)"
  obtains s1 k s2 s3 v s4 where "s = 34 # s1" "scan_string s1 = Some (k, s2)" "skip_ws s2 = 58 # s3"
      "jvalue f (skip_ws s3) = Some (v, s4)" "skip_ws s4 = 125 # r" "ms = [(k, v)]"
  | s1 k s2 s3 v s4 q ms' where "s = 34 # s1" "scan_string s1 = Some (k, s2)" "skip_ws s2 = 58 # s3"
      "jvalue f (skip_ws s3) = Some (v, s4)" "skip_ws s4 = 44 # q"
      "jmembers f (skip_ws q) = Some (ms', r)" "ms = (k, v) # ms'"
proof -
  from assms obtain s1 k s2 s3 v s4 where a: "s = 34 # s1" "scan_string s1 = Some (k, s2)"
      "skip_ws s2 = 58 # s3" "jvalue f (skip_ws s3) = Some (v, s4)"
    and c: "(case skip_ws s4 of [] \<Rightarrow> None
       | c # r \<Rightarrow> if c = 125 then Some ([(k, v)], r)
            else if c = 44 then map_option (\<lambda>(ms, q). ((k, v) # ms, q)) (jmembers f (skip_ws r))
            else None) = Some (ms, r)"
    by (auto simp: bind_eq_Some_conv expect_cp_Some)
  show thesis using that a c by (cases "skip_ws s4") (auto split: if_splits)
qed

lemma jelems_SucE:
  assumes "jelems (Suc f) s = Some (xs, r)"
  obtains v s1 where "jvalue f s = Some (v, s1)" "skip_ws s1 = 93 # r" "xs = [v]"
  | v s1 q ys where "jvalue f s = Some (v, s1)" "skip_ws s1 = 44 # q"
      "jelems f (skip_ws q) = Some (ys, r)" "xs = v # ys"
proof -
  from assms obtain v s1 where a: "jvalue f s = Some (v, s1)"
    and c: "(case skip_ws s1 of [] \<Rightarrow> None
       | c # r \<Rightarrow> if c = 93 then Some ([v], r)
            else if c = 44 then map_option (\<lambda>(xs, q). (v # xs, q)) (jelems f (skip_ws r))
            else None) = Some (xs, r)"
    by (auto simp: bind_eq_Some_conv)
  show thesis using that a c by (cases "skip_ws s1") (auto split: if_splits)
qed

lemma jparse_length:
  "(jvalue f s = Some (v, r) \<longrightarrow> length r < length s) \<and>
   (jmembers f s' = Some (ms, r') \<longrightarrow> length r' < length s') \<and>
   (jelems f s'' = Some (xs, r'') \<longrightarrow> length r'' < length s'')"
proof (induction f arbitrary: s v r s' ms r' s'' xs r'')
  case (Suc f)
  have V: "length r < length s" if "jvalue f s = Some (v, r)" for s v r using Suc that by blast
  have M: "length r < length s" if "jmembers f s = Some (ms, r)" for s ms r using Suc that by blast
  have E: "length r < length s" if "jelems f s = Some (xs, r)" for s xs r using Suc that by blast
  show ?case
  proof (intro conjI impI)
    assume "jvalue (Suc f) s = Some (v, r)"
    then show "length r < length s"
      by (cases rule: jvalue_SucE)
        (auto dest!: scan_string_length skip_ws_Cons_length M E scan_scalar_length)
  next
    assume "jmembers (Suc f) s' = Some (ms, r')"
    then show "length r' < length s'"
    proof (cases rule: jmembers_SucE)
      case (1 s1 k s2 s3 v s4)
      with V [OF 1(4)] length_skip_ws [of s3] show ?thesis
        by (auto dest!: scan_string_length skip_ws_Cons_length)
    next
      case (2 s1 k s2 s3 v s4 q ms')
      with V [OF 2(4)] M [OF 2(6)] length_skip_ws [of s3] length_skip_ws [of q] show ?thesis
        by (auto dest!: scan_string_length skip_ws_Cons_length)
    qed
  next
    assume "jelems (Suc f) s'' = Some (xs, r'')"
    then show "length r'' < length s''"
    proof (cases rule: jelems_SucE)
      case (1 v s1)
      with V [OF 1(1)] show ?thesis by (auto dest!: skip_ws_Cons_length)
    next
      case (2 v s1 q ys)
      with V [OF 2(1)] E [OF 2(3)] length_skip_ws [of q] show ?thesis
        by (auto dest!: skip_ws_Cons_length)
    qed
  qed
qed simp

lemma jvalue_length: "jvalue f s = Some (v, r) \<Longrightarrow> length r < length s"
  using jparse_length by blast

text \<open>Enough fuel: beyond twice the length of the text more fuel changes nothing.\<close>

lemma jparse_fuel:
  "(2 * length s + 1 \<le> f \<longrightarrow> jvalue (Suc f) s = jvalue f s) \<and>
   (2 * length s' + 1 \<le> f \<longrightarrow> jmembers (Suc f) s' = jmembers f s') \<and>
   (2 * length s'' + 2 \<le> f \<longrightarrow> jelems (Suc f) s'' = jelems f s'')"
proof (induction f arbitrary: s s' s'')
  case (Suc f)
  have V: "jvalue (Suc f) x = jvalue f x" if "2 * length x + 1 \<le> f" for x using Suc that by blast
  have M: "jmembers (Suc f) x = jmembers f x" if "2 * length x + 1 \<le> f" for x using Suc that by blast
  have E: "jelems (Suc f) x = jelems f x" if "2 * length x + 2 \<le> f" for x using Suc that by blast
  show ?case
  proof (intro conjI impI)
    assume l: "2 * length s + 1 \<le> Suc f"
    have "jmembers (Suc f) (d # q) = jmembers f (d # q)" "jelems (Suc f) (d # q) = jelems f (d # q)"
      if "skip_ws (tl s) = d # q" "s \<noteq> []" for d q
      using l that length_skip_ws [of "tl s"] by (auto intro!: M E simp del: jmembers.simps jelems.simps)
    then show "jvalue (Suc (Suc f)) s = jvalue (Suc f) s"
      unfolding jvalue.simps(2) [of "Suc f" s] jvalue.simps(2) [of f s]
      by (auto split: list.splits simp del: jvalue.simps jmembers.simps jelems.simps)
  next
    assume l: "2 * length s' + 1 \<le> Suc f"
    have v: "jvalue (Suc f) (skip_ws s3) = jvalue f (skip_ws s3)"
      if "s' = 34 # s1" "scan_string s1 = Some (k, s2)" "skip_ws s2 = 58 # s3" for s1 k s2 s3
      using l that length_skip_ws [of s3]
      by (intro V) (auto dest!: scan_string_length skip_ws_Cons_length)
    have m: "jmembers (Suc f) (skip_ws q) = jmembers f (skip_ws q)"
      if "s' = 34 # s1" "scan_string s1 = Some (k, s2)" "skip_ws s2 = 58 # s3"
        "jvalue f (skip_ws s3) = Some (v, s4)" "skip_ws s4 = 44 # q" for s1 k s2 s3 v s4 q
      using l that length_skip_ws [of s3] length_skip_ws [of q] jvalue_length [OF that(4)]
      by (intro M) (auto dest!: scan_string_length skip_ws_Cons_length)
    show "jmembers (Suc (Suc f)) s' = jmembers (Suc f) s'"
      unfolding jmembers.simps(2) [of "Suc f" s'] jmembers.simps(2) [of f s']
      by (auto simp: expect_cp_Some v m intro!: bind_option_cong split: list.splits
          simp del: jvalue.simps jmembers.simps jelems.simps)
  next
    assume l: "2 * length s'' + 2 \<le> Suc f"
    have v: "jvalue (Suc f) s'' = jvalue f s''" using l by (intro V) simp
    have m: "jelems (Suc f) (skip_ws q) = jelems f (skip_ws q)"
      if "jvalue f s'' = Some (v, s4)" "skip_ws s4 = 44 # q" for v s4 q
      using l that length_skip_ws [of q] jvalue_length [OF that(1)]
      by (intro E) (auto dest!: skip_ws_Cons_length)
    show "jelems (Suc (Suc f)) s'' = jelems (Suc f) s''"
      unfolding jelems.simps(2) [of "Suc f" s''] jelems.simps(2) [of f s'']
      by (auto simp: v m intro!: bind_option_cong split: list.splits
          simp del: jvalue.simps jmembers.simps jelems.simps)
  qed
qed auto

lemma jvalue_fuel: "2 * length s + 1 \<le> f \<Longrightarrow> jvalue f s = jvalue (2 * length s + 1) s"
  by (induction f rule: dec_induct) (use jparse_fuel in \<open>auto simp del: jvalue.simps\<close>)


section \<open>Text that follows\<close>

text \<open>Characters that cannot continue a number.\<close>

definition num_stop :: "pystr \<Rightarrow> bool" where
  "num_stop r \<longleftrightarrow> (case r of [] \<Rightarrow> True | c # _ \<Rightarrow> \<not> ascii_digit c \<and> c \<noteq> 46 \<and> c \<noteq> 101 \<and> c \<noteq> 69)"

lemma num_stop_simps [simp]:
  "num_stop []"
  "num_stop (c # r) \<longleftrightarrow> \<not> ascii_digit c \<and> c \<noteq> 46 \<and> c \<noteq> 101 \<and> c \<noteq> 69"
  by (simp_all add: num_stop_def)

lemma takeWhile_append_stop:
  "(dropWhile P xs = [] \<Longrightarrow> ys = [] \<or> \<not> P (hd ys)) \<Longrightarrow> takeWhile P (xs @ ys) = takeWhile P xs"
  by (induction xs) (auto, cases ys, auto)

lemma digits_append:
  assumes "num_stop (drop (length (takeWhile ascii_digit x)) x @ t)"
  shows "takeWhile ascii_digit (x @ t) = takeWhile ascii_digit x"
proof (rule takeWhile_append_stop)
  assume "dropWhile ascii_digit x = []"
  then have "drop (length (takeWhile ascii_digit x)) x = []" by (simp add: dropWhile_eq_drop)
  with assms show "t = [] \<or> \<not> ascii_digit (hd t)" by (cases t) auto
qed

lemma num_stop_exp: "num_stop s \<Longrightarrow> num_exp s = []"
  by (auto simp: num_exp_def num_stop_def split: list.splits)

lemma num_stop_frac: "num_stop s \<Longrightarrow> num_frac s = []"
  by (auto simp: num_frac_def num_stop_def split: list.splits)

lemma num_exp_append:
  assumes "num_stop (drop (length (num_exp s)) s @ t)" shows "num_exp (s @ t) = num_exp s"
proof (cases s)
  case Nil
  with assms show ?thesis by (simp add: num_stop_exp num_exp_def [of "[]"])
next
  case (Cons c r)
  define sg where "sg x = (case x of [] \<Rightarrow> [] | d # _ \<Rightarrow> if d = 45 \<or> d = (43::nat) then [d] else [])" for x
  define ds where "ds = takeWhile ascii_digit (drop (length (sg r)) r)"
  have e: "num_exp (c # x) = (if c = 101 \<or> c = 69 then
      (if takeWhile ascii_digit (drop (length (sg x)) x) = [] then []
       else c # sg x @ takeWhile ascii_digit (drop (length (sg x)) x)) else [])" for x
    by (simp add: num_exp_def Let_def sg_def)
  show ?thesis
  proof (cases "c = 101 \<or> c = 69")
    case True
    have n: "ds \<noteq> []" using assms True Cons by (auto simp: e ds_def split: if_splits)
    then have "r \<noteq> []" by (auto simp: ds_def)
    then have g: "sg (r @ t) = sg r" by (cases r) (simp_all add: sg_def)
    have l: "length (sg r) \<le> length r" by (auto simp: sg_def split: list.splits)
    have "num_exp s = c # sg r @ ds" using True n Cons by (simp add: e ds_def)
    with assms Cons have "num_stop (drop (length ds) (drop (length (sg r)) r) @ t)"
      by (simp add: add.commute)
    then have "takeWhile ascii_digit (drop (length (sg r)) r @ t) = ds"
      unfolding ds_def by (rule digits_append)
    then show ?thesis using True n l Cons by (simp add: e g ds_def)
  qed (simp add: Cons e)
qed

lemma num_frac_append:
  assumes "num_stop (drop (length (num_exp s3)) s3 @ t)" "s3 = drop (length (num_frac s)) s"
  shows "num_frac (s @ t) = num_frac s"
proof (cases s)
  case Nil
  with assms show ?thesis by (simp add: num_stop_frac num_frac_def [of "[]"] num_exp_def [of "[]"])
next
  case (Cons c r)
  define ds where "ds = takeWhile ascii_digit r"
  show ?thesis
  proof (cases "c = 46")
    case True
    have n: "ds \<noteq> []"
    proof
      assume "ds = []"
      then have "num_frac s = []" using True Cons by (simp add: num_frac_def ds_def)
      then have "s3 = s" "num_exp s3 = []" using assms(2) True Cons by (simp_all add: num_exp_def)
      with assms(1) True Cons show False by simp
    qed
    then have f: "num_frac s = 46 # ds" using True Cons by (simp add: num_frac_def ds_def)
    have s3: "s3 = drop (length ds) r" using f assms(2) Cons by simp
    have "dropWhile ascii_digit r = [] \<Longrightarrow> t = [] \<or> \<not> ascii_digit (hd t)"
    proof -
      assume "dropWhile ascii_digit r = []"
      then have "s3 = []" by (simp add: s3 ds_def dropWhile_eq_drop)
      with assms(1) show ?thesis by (cases t) (auto simp: num_exp_def)
    qed
    then have "takeWhile ascii_digit (r @ t) = ds" unfolding ds_def by (rule takeWhile_append_stop)
    with n True Cons f show ?thesis by (simp add: num_frac_def)
  qed (simp add: Cons num_frac_def)
qed

lemma num_int_append:
  assumes "num_int s \<noteq> []" "drop (length (num_int s)) s = [] \<Longrightarrow> num_stop t"
  shows "num_int (s @ t) = num_int s"
proof (cases s)
  case (Cons c r)
  show ?thesis
  proof (cases "49 \<le> c \<and> c \<le> 57")
    case True
    then have i: "num_int s = takeWhile ascii_digit s" using Cons by (simp add: num_int_def)
    have "takeWhile ascii_digit (s @ t) = takeWhile ascii_digit s"
    proof (rule takeWhile_append_stop)
      assume "dropWhile ascii_digit s = []"
      then have "num_stop t" using assms(2) i by (simp add: dropWhile_eq_drop)
      then show "t = [] \<or> \<not> ascii_digit (hd t)" by (cases t) auto
    qed
    with i True Cons show ?thesis by (simp add: num_int_def)
  qed (use assms Cons in \<open>auto simp: num_int_def split: if_splits\<close>)
qed (use assms in \<open>simp add: num_int_def\<close>)

lemma scan_number_append:
  assumes "scan_number s = Some (v, q)" "num_stop (q @ t)"
  shows "scan_number (s @ t) = Some (v, q @ t)"
proof -
  from assms(1) obtain sg ip fp ep where p: "s = sg @ ip @ fp @ ep @ q" "num_sign s = sg"
    "num_int (ip @ fp @ ep @ q) = ip" "ip \<noteq> []" "num_frac (fp @ ep @ q) = fp"
    "num_exp (ep @ q) = ep" "v = num_value sg ip fp ep"
    by (rule scan_number_elim)
  have e: "num_exp (ep @ q @ t) = ep"
    using num_exp_append [of "ep @ q" t] p(6) assms(2) by simp
  have f: "num_frac (fp @ ep @ q @ t) = fp"
    using num_frac_append [of "ep @ q" t "fp @ ep @ q"] p(5,6) assms(2) by simp
  have "num_int ((ip @ fp @ ep @ q) @ t) = num_int (ip @ fp @ ep @ q)"
    by (rule num_int_append) (use p(3,4) assms(2) in auto)
  then have i: "num_int (ip @ fp @ ep @ q @ t) = ip" using p(3) by simp
  have "s \<noteq> []" using p(1,4) by simp
  then have "num_sign (s @ t) = num_sign s" by (cases s) (auto simp: num_sign_def)
  then have g: "num_sign (sg @ ip @ fp @ ep @ q @ t) = sg" using p(1,2) by simp
  show ?thesis using scan_number_intro [OF g i p(4) f e] by (simp add: p(1,7))
qed

end
