(* ===== verification/Json_Roundtrip.thy ===== *)
theory Json_Roundtrip
  imports Json_Lemmas
begin

text \<open>
  \<^verbatim>\<open>json.loads\<close> inverts \<^verbatim>\<open>json.dumps\<close> on well-formed values, for the separators of the wire and
  for the default ones; the text written is printable ASCII, so it holds no newline; and a
  proper prefix of an object's text is not a JSON text.
\<close>

section \<open>Text after a complete value\<close>

lemma take_hex4_short: "length s < 4 \<Longrightarrow> take_hex4 s = None"
  by (auto simp: take_hex4_def split: list.splits)

lemma low_half_append:
  assumes "low_half s = Some (lo, r)" shows "low_half (s @ t) = Some (lo, r @ t)"
proof -
  from assms obtain h where h: "s = 92 # 117 # h" "take_hex4 h = Some (lo, r)"
      "56320 \<le> lo" "lo \<le> 57343"
    by (auto simp: low_half_def expect_cp_Some bind_eq_Some_conv split: if_splits)
  then show ?thesis using take_hex4_append [OF h(2), of t] by (simp add: low_half_def)
qed

text \<open>An escape that more text would complete is not a complete string.\<close>

lemma low_half_cut:
  assumes "low_half s = None" "low_half (s @ t) = Some x" shows "scan_string s = None"
proof -
  obtain h r where x: "s @ t = 92 # 117 # h" "take_hex4 h = Some (fst x, r)"
      "56320 \<le> fst x" "fst x \<le> 57343"
    using assms(2) by (cases x) (auto simp: low_half_def expect_cp_Some bind_eq_Some_conv split: if_splits)
  show ?thesis
  proof (cases "6 \<le> length s")
    case True
    then obtain a b c d e g s' where s: "s = a # b # c # d # e # g # s'"
      by (auto simp: Suc_le_length_iff numeral_eq_Suc)
    with x have "take_hex4 (c # d # e # g # s') = Some (fst x, s')"
      by (auto simp: take_hex4_def split: option.splits)
    with s x assms(1) show ?thesis by (auto simp: low_half_def)
  next
    case False
    have "take_hex4 (tl (tl s)) = None" using False by (intro take_hex4_short) auto
    moreover have "s = [] \<or> s = [92] \<or> (\<exists>q. s = 92 # 117 # q)"
      using x(1) by (auto simp: append_eq_Cons_conv)
    ultimately show ?thesis by (subst scan_string.simps) (auto simp: scan_char_def)
  qed
qed

lemma scan_char_SEnd_append: "scan_char s = SEnd r \<Longrightarrow> scan_char (s @ t) = SEnd (r @ t)"
  by (auto simp: scan_char_def split: list.splits if_splits option.splits)

lemma scan_char_SChar_append:
  assumes "scan_char s = SChar c r" "scan_string r \<noteq> None"
  shows "scan_char (s @ t) = SChar c (r @ t)"
proof -
  from assms(1) obtain a cs where s: "s = a # cs" by (auto simp: scan_char_def split: list.splits)
  show ?thesis
  proof (cases "a = 92")
    case False
    with assms(1) s show ?thesis by (auto simp: scan_char_def split: if_splits)
  next
    case a: True
    with assms(1) s obtain e q where cs: "cs = e # q" by (auto simp: scan_char_def split: list.splits)
    show ?thesis
    proof (cases "e = 117")
      case False
      with assms(1) s a cs show ?thesis by (auto simp: scan_char_def split: option.splits)
    next
      case e: True
      with assms(1) s a cs obtain h r1 where h: "take_hex4 q = Some (h, r1)"
        by (auto simp: scan_char_def split: option.splits)
      have low: "low_half (r1 @ t) = None"
        if "55296 \<le> h" "h \<le> 56319" "low_half r1 = None"
      proof (rule ccontr)
        assume "low_half (r1 @ t) \<noteq> None"
        then have "scan_string r1 = None" using low_half_cut that(3) by blast
        moreover have "r = r1" using assms(1) s a cs e h that by (simp add: scan_char_def)
        ultimately show False using assms(2) by simp
      qed
      note sc = s a cs e h take_hex4_append [OF h, of t]
      show ?thesis
      proof (cases "55296 \<le> h \<and> h \<le> 56319")
        case True
        show ?thesis
        proof (cases "low_half r1")
          case None
          with low True assms(1) sc show ?thesis by (simp add: scan_char_def)
        next
          case (Some y)
          obtain lo r2 where y: "y = (lo, r2)" by (cases y)
          from Some y have "low_half (r1 @ t) = Some (lo, r2 @ t)" by (simp add: low_half_append)
          with Some y True assms(1) sc show ?thesis by (simp add: scan_char_def)
        qed
      next
        case False
        then have "\<not> (55296 \<le> h \<and> h \<le> 56319)" .
        with assms(1) sc show ?thesis by (auto simp: scan_char_def)
      qed
    qed
  qed
qed

lemma scan_string_append:
  "scan_string s = Some (x, r) \<Longrightarrow> scan_string (s @ t) = Some (x, r @ t)"
proof (induction s arbitrary: x r rule: scan_string.induct)
  case (1 s)
  show ?case
  proof (cases "scan_char s")
    case SErr
    with "1.prems" show ?thesis by (simp add: scan_string.simps [of s])
  next
    case (SEnd q)
    with "1.prems" show ?thesis
      by (simp add: scan_string.simps [of s] scan_string.simps [of "s @ t"] scan_char_SEnd_append)
  next
    case (SChar c q)
    with "1.prems" obtain y where y: "scan_string q = Some (y, r)" "x = c # y"
      by (auto simp: scan_string.simps [of s])
    have "scan_char (s @ t) = SChar c (q @ t)" using SChar y by (simp add: scan_char_SChar_append)
    with "1.IH" [OF SChar y(1)] y(2) show ?thesis by (simp add: scan_string.simps [of "s @ t"])
  qed
qed

lemma scan_number_hd: "scan_number s = Some x \<Longrightarrow> s \<noteq> [] \<and> (hd s = 45 \<or> ascii_digit (hd s))"
  by (cases x) (auto elim!: scan_number_elim simp: num_sign_def num_int_def ascii_digit_def
      split: list.splits if_splits)

lemma scan_number_None: "s = [] \<or> (hd s \<noteq> 45 \<and> \<not> ascii_digit (hd s)) \<Longrightarrow> scan_number s = None"
  using scan_number_hd by (cases "scan_number s") auto

lemma scan_scalar_intros:
  "scan_scalar (u ''null'' @ r) = Some (JNull, r)"
  "scan_scalar (u ''true'' @ r) = Some (JBool True, r)"
  "scan_scalar (u ''false'' @ r) = Some (JBool False, r)"
  "scan_scalar (u ''NaN'' @ r) = Some (JFloat (u ''NaN''), r)"
  "scan_scalar (u ''Infinity'' @ r) = Some (JFloat (u ''Infinity''), r)"
  "scan_scalar (u ''-Infinity'' @ r) = Some (JFloat (u ''-Infinity''), r)"
proof -
  have "scan_number (u ''-Infinity'' @ r) = None"
    by (simp add: scan_number_def num_sign_def num_int_def u_def)
  then show "scan_scalar (u ''-Infinity'' @ r) = Some (JFloat (u ''-Infinity''), r)"
    by (simp add: scan_scalar_def strip_prefix_def u_def)
qed (simp_all add: scan_scalar_def strip_prefix_def u_def scan_number_None ascii_digit_def)

lemma scan_scalar_number: "scan_number s = Some x \<Longrightarrow> scan_scalar s = Some x"
  using scan_number_hd [of s x]
  by (cases s) (auto simp: scan_scalar_def strip_prefix_def u_def ascii_digit_def)

lemma scan_scalar_elim:
  assumes "scan_scalar s = Some (v, r)"
  obtains "s = u ''null'' @ r" "v = JNull" | "s = u ''true'' @ r" "v = JBool True"
  | "s = u ''false'' @ r" "v = JBool False" | "scan_number s = Some (v, r)"
  | "s = u ''NaN'' @ r" "v = JFloat (u ''NaN'')"
  | "s = u ''Infinity'' @ r" "v = JFloat (u ''Infinity'')"
  | "s = u ''-Infinity'' @ r" "v = JFloat (u ''-Infinity'')"
  using assms by (auto simp: scan_scalar_def strip_prefix_Some split: option.splits)

lemma scan_scalar_append:
  assumes "scan_scalar s = Some (v, r)" "num_stop (r @ t)"
  shows "scan_scalar (s @ t) = Some (v, r @ t)"
  using assms(1)
  by (cases rule: scan_scalar_elim)
    (simp_all add: scan_scalar_intros scan_scalar_number scan_number_append assms(2))

lemma skip_ws_append: "skip_ws s \<noteq> [] \<Longrightarrow> skip_ws (s @ t) = skip_ws s @ t"
  by (induction s) (auto simp: skip_ws_def)

lemma skip_ws_num_stop: "skip_ws s = c # r \<Longrightarrow> num_stop [c] \<Longrightarrow> num_stop (s @ t)"
  by (cases s) (auto simp: skip_ws_def is_ws_def ascii_digit_def split: if_splits)

lemma jvalue_Nil [simp]: "jvalue f [] = None"
  by (cases f) simp_all

lemma jparse_append:
  "(jvalue f s = Some (v, r) \<longrightarrow> num_stop (r @ t) \<longrightarrow> jvalue f (s @ t) = Some (v, r @ t)) \<and>
   (jmembers f s' = Some (ms, r') \<longrightarrow> jmembers f (s' @ t) = Some (ms, r' @ t)) \<and>
   (jelems f s'' = Some (xs, r'') \<longrightarrow> jelems f (s'' @ t) = Some (xs, r'' @ t))"
proof (induction f arbitrary: s v r s' ms r' s'' xs r'')
  case (Suc f)
  have V: "jvalue f (s @ t) = Some (v, r @ t)" if "jvalue f s = Some (v, r)" "num_stop (r @ t)"
    for s v r using Suc that by blast
  have M: "jmembers f (s @ t) = Some (ms, r @ t)" if "jmembers f s = Some (ms, r)"
    for s ms r using Suc that by blast
  have E: "jelems f (s @ t) = Some (xs, r @ t)" if "jelems f s = Some (xs, r)"
    for s xs r using Suc that by blast
  show ?case
  proof (intro conjI impI)
    assume "jvalue (Suc f) s = Some (v, r)" and n: "num_stop (r @ t)"
    then show "jvalue (Suc f) (s @ t) = Some (v, r @ t)"
    proof (cases rule: jvalue_SucE)
      case (1 s1 t')
      then show ?thesis by (simp add: scan_string_append)
    next
      case (2 s1)
      then show ?thesis by (simp add: skip_ws_append)
    next
      case (3 s1 q ms)
      with M [OF 3(3)] show ?thesis by (simp add: skip_ws_append)
    next
      case (4 s1)
      then show ?thesis by (simp add: skip_ws_append)
    next
      case (5 s1 d q xs)
      with E [OF 5(4)] show ?thesis by (simp add: skip_ws_append)
    next
      case (6 c s1)
      with scan_scalar_append [OF 6(5) n] show ?thesis by simp
    qed
  next
    assume "jmembers (Suc f) s' = Some (ms, r')"
    then show "jmembers (Suc f) (s' @ t) = Some (ms, r' @ t)"
    proof (cases rule: jmembers_SucE)
      case (1 s1 k s2 s3 v s4)
      have "num_stop (s4 @ t)" by (rule skip_ws_num_stop [OF 1(5)]) (simp add: ascii_digit_def)
      note v = V [OF 1(4) this]
      have "skip_ws s3 \<noteq> []" using 1(4) by (cases "skip_ws s3") simp_all
      with 1 v show ?thesis by (simp add: scan_string_append skip_ws_append)
    next
      case (2 s1 k s2 s3 v s4 q ms')
      have "num_stop (s4 @ t)" by (rule skip_ws_num_stop [OF 2(5)]) (simp add: ascii_digit_def)
      note v = V [OF 2(4) this]
      have "skip_ws s3 \<noteq> []" using 2(4) by (cases "skip_ws s3") simp_all
      moreover have "skip_ws q \<noteq> []" using 2(6) by (cases f; cases "skip_ws q") simp_all
      ultimately show ?thesis using 2 v M [OF 2(6)] by (simp add: scan_string_append skip_ws_append)
    qed
  next
    assume "jelems (Suc f) s'' = Some (xs, r'')"
    then show "jelems (Suc f) (s'' @ t) = Some (xs, r'' @ t)"
    proof (cases rule: jelems_SucE)
      case (1 v s1)
      have "num_stop (s1 @ t)" by (rule skip_ws_num_stop [OF 1(2)]) (simp add: ascii_digit_def)
      with V [OF 1(1)] 1 show ?thesis by (simp add: skip_ws_append)
    next
      case (2 v s1 q ys)
      have "num_stop (s1 @ t)" by (rule skip_ws_num_stop [OF 2(2)]) (simp add: ascii_digit_def)
      moreover have "skip_ws q \<noteq> []" using 2(3) by (cases f; cases "skip_ws q") simp_all
      ultimately show ?thesis using V [OF 2(1)] E [OF 2(3)] 2 by (simp add: skip_ws_append)
    qed
  qed
qed simp

text \<open>A complete object stays complete, and the same, whatever follows.\<close>

lemma jvalue_object_append:
  assumes "jvalue f (123 # s) = Some (v, r)"
  shows "jvalue f (123 # s @ t) = Some (v, r @ t)"
proof (cases f)
  case (Suc f')
  have M: "jmembers f' (s @ t) = Some (ms, r @ t)" if "jmembers f' s = Some (ms, r)"
    for s ms r using jparse_append that by blast
  from assms have "jvalue (Suc f') (123 # s) = Some (v, r)" by (simp add: Suc del: jvalue.simps)
  then have "jvalue (Suc f') (123 # s @ t) = Some (v, r @ t)"
  proof (cases rule: jvalue_SucE)
    case (3 s1 q ms)
    with M [OF 3(3)] show ?thesis by (simp add: skip_ws_append)
  qed (simp_all add: skip_ws_append)
  then show ?thesis by (simp add: Suc del: jvalue.simps)
qed (use assms in simp)


section \<open>Round trip\<close>

lemma scan_string_escape:
  assumes "is_scalar c"
  shows "scan_string (escape_cp c @ q) = map_option (\<lambda>(t, r). (c # t, r)) (scan_string q)"
proof -
  have "scan_char (escape_cp c @ q) = SChar c q"
  proof (cases "c < 65536")
    case True
    have n: "\<not> (55296 \<le> c \<and> c \<le> 56319)" using assms by (auto simp: is_scalar_def is_surrogate_def)
    show ?thesis
    proof (cases "c \<in> {34, 92, 10, 13, 9, 12, 8} \<or> (32 \<le> c \<and> c \<le> 126)")
      case True
      then show ?thesis by (auto simp: escape_cp_def scan_char_def simple_escape_def)
    next
      case False
      then have "escape_cp c = [92, 117] @ fmt_04x c" using True by (auto simp: escape_cp_def)
      with True n show ?thesis by (auto simp: scan_char_def)
    qed
  next
    case False
    define v where "v = c - 65536"
    have v: "c = 65536 + v" "v < 1048576" using False assms by (auto simp: v_def is_scalar_def)
    have e: "escape_cp c = [92, 117] @ fmt_04x (55296 + v div 1024) @ [92, 117] @ fmt_04x (56320 + v mod 1024)"
      using False by (simp add: escape_cp_def v_def Let_def)
    have d: "v div 1024 < 1024" using v(2) by (simp add: div_less_iff_less_mult)
    have m: "v mod 1024 < 1024" by simp
    have low: "low_half (92 # 117 # fmt_04x (56320 + v mod 1024) @ q) = Some (56320 + v mod 1024, q)"
      using m by (simp add: low_half_def)
    show ?thesis unfolding e using d m low v(1) by (simp add: scan_char_def)
  qed
  then show ?thesis by (subst scan_string.simps) simp
qed

lemma scan_string_dump: "list_all is_scalar s \<Longrightarrow> scan_string (concat (map escape_cp s) @ 34 # r) = Some (s, r)"
proof (induction s)
  case Nil
  show ?case by (subst scan_string.simps) (simp add: scan_char_def)
next
  case (Cons c s)
  then show ?case by (simp add: scan_string_escape)
qed

lemma str_nat_ascii: "list_all ascii_digit (str_nat n)"
  by (auto simp: str_nat_def list_all_iff ascii_digit_def upper_cp_def dest!: nat_digits_less [rotated])

lemma str_nat_digits_eq: "map (\<lambda>c. c - 48) (str_nat n) = nat_digits 10 n"
  by (auto simp: str_nat_def upper_cp_def intro!: map_idI dest!: nat_digits_less [rotated])

lemma num_int_str_nat:
  assumes "num_stop r" shows "num_int (str_nat n @ r) = str_nat n"
proof -
  have tw: "takeWhile ascii_digit (str_nat n @ r) = str_nat n"
    using assms str_nat_ascii [of n]
    by (cases r) (auto simp: list_all_iff takeWhile_append2 takeWhile_eq_all_conv)
  show ?thesis
  proof (cases "n = 0")
    case True
    then show ?thesis by (simp add: str_nat_def upper_cp_def num_int_def)
  next
    case False
    obtain c cs where s: "str_nat n = c # cs" by (cases "str_nat n") (simp_all add: str_nat_def)
    have "hd (nat_digits 10 n) < 10" by (rule nat_digits_less [of 10 _ n]) simp_all
    with False nat_digits_hd [of n 10] s have "49 \<le> c \<and> c \<le> 57"
      by (auto simp: str_nat_def upper_cp_def hd_map split: if_splits)
    with s tw show ?thesis by (simp add: num_int_def)
  qed
qed

lemma scan_number_int: assumes "num_stop r" shows "scan_number (str_int n @ r) = Some (JInt n, r)"
proof -
  define sg where "sg = (if n < 0 then [45::nat] else [])"
  define m where "m = (if n < 0 then nat (- n) else nat n)"
  have s: "str_int n = sg @ str_nat m" by (simp add: str_int_def sg_def m_def)
  obtain c cs where c: "str_nat m = c # cs" "ascii_digit c"
    using str_nat_ascii [of m] by (cases "str_nat m") (simp_all add: str_nat_def)
  have ne: "str_nat m \<noteq> []" by (simp add: c(1))
  have g: "num_sign (sg @ str_nat m @ [] @ [] @ r) = sg"
    using c by (simp add: num_sign_def sg_def ascii_digit_def)
  have "scan_number (sg @ str_nat m @ [] @ [] @ r) = Some (num_value sg (str_nat m) [] [], r)"
    by (rule scan_number_intro [OF g])
      (use assms ne in \<open>simp_all add: num_int_str_nat num_stop_frac num_stop_exp\<close>)
  moreover have "num_value sg (str_nat m) [] [] = JInt n"
    unfolding num_value_def Let_def str_nat_digits_eq eval_nat_digits by (simp add: sg_def m_def)
  ultimately show ?thesis by (simp add: s)
qed

lemma dict_of_pairs_snoc: "dict_of_pairs (ps @ [(k, v)]) = dict_set (dict_of_pairs ps) k v"
  by (simp add: dict_of_pairs_def)

lemma dict_of_pairs_distinct: "distinct (map fst ps) \<Longrightarrow> dict_of_pairs ps = ps"
proof (induction ps rule: rev_induct)
  case (snoc p ps)
  have up: "k \<notin> set (map fst d) \<Longrightarrow> dict_set d k v = d @ [(k, v)]" for d and k :: 'a and v :: 'b
    by (induction d) (auto simp: dict_set_def)
  from snoc show ?case by (cases p) (simp add: dict_of_pairs_snoc up)
qed (simp add: dict_of_pairs_def)

text \<open>Separators: the character and blanks after it.\<close>

definition sep_ok :: "nat \<Rightarrow> pystr \<Rightarrow> bool" where
  "sep_ok c i \<longleftrightarrow> (\<exists>w. i = c # w \<and> list_all (\<lambda>x. x = 32) w)"

lemma skip_ws_blank: "list_all (\<lambda>x. x = 32) w \<Longrightarrow> skip_ws (w @ s) = skip_ws s"
  by (induction w) (auto simp: skip_ws_def is_ws_def)

lemma skip_ws_id: "s \<noteq> [] \<Longrightarrow> \<not> is_ws (hd s) \<Longrightarrow> skip_ws s = s"
  by (cases s) (auto simp: skip_ws_def)

definition starts_value :: "pystr \<Rightarrow> bool" where
  "starts_value s \<longleftrightarrow> s \<noteq> [] \<and> \<not> is_ws (hd s) \<and> hd s \<noteq> 93"

lemma str_int_starts: "\<exists>c cs. str_int n = c # cs \<and> (c = 45 \<or> ascii_digit c)"
proof (cases "str_nat (nat n)")
  case (Cons c cs)
  then show ?thesis using str_nat_ascii [of "nat n"] by (simp add: str_int_def)
qed (simp add: str_nat_def)

lemma float_ok_starts:
  "float_ok l \<Longrightarrow> \<exists>c cs. l = c # cs \<and> (c = 45 \<or> ascii_digit c \<or> c = 78 \<or> c = 73)"
  using scan_number_hd [of l "(JFloat l, [])"] by (cases l) (auto simp: float_ok_def u_def)

lemma dumps_starts:
  assumes "wf_json v" shows "starts_value (dumps_sep i k v @ r)"
proof (cases v)
  case (JInt n)
  then show ?thesis
    using str_int_starts [of n] by (auto simp: starts_value_def is_ws_def ascii_digit_def)
next
  case (JFloat l)
  then show ?thesis
    using float_ok_starts [of l] assms by (auto simp: starts_value_def is_ws_def ascii_digit_def)
qed (simp_all add: starts_value_def is_ws_def u_def dump_str_def)

lemma starts_value_skip: "starts_value s \<Longrightarrow> skip_ws s = s"
  by (simp add: starts_value_def skip_ws_id)


lemma jelems_dump:
  assumes sep: "sep_ok 44 i" and wf: "list_all wf_json xs" and ne: "xs \<noteq> []"
    and IH: "\<And>x r f. x \<in> set xs \<Longrightarrow> num_stop r \<Longrightarrow> 2 * length (d x) + 1 \<le> f \<Longrightarrow>
              jvalue f (d x @ r) = Some (x, r)"
    and st: "\<And>x r. x \<in> set xs \<Longrightarrow> starts_value (d x @ r)"
    and fuel: "2 * length (join i (map d xs)) + 2 \<le> f"
  shows "jelems f (join i (map d xs) @ 93 # r) = Some (xs, r)"
  using ne IH st fuel
proof (induction xs arbitrary: f rule: induct_list012)
  case (2 x)
  then obtain f' where f: "f = Suc f'" by (cases f) auto
  have "jvalue f' (d x @ 93 # r) = Some (x, 93 # r)"
    using 2 f by (auto simp: ascii_digit_def)
  then show ?case by (simp add: f skip_ws_def is_ws_def)
next
  case (3 x y zs)
  from sep obtain w where i: "i = 44 # w" "list_all (\<lambda>x. x = 32) w" by (auto simp: sep_ok_def)
  define rest where "rest = join i (map d (y # zs)) @ 93 # r"
  from 3(6) obtain f' where f: "f = Suc f'" by (cases f) auto
  have "jvalue f' (d x @ i @ rest) = Some (x, i @ rest)"
    using 3(4,6) f by (auto simp: i ascii_digit_def)
  moreover have "skip_ws (i @ rest) = 44 # w @ rest" by (simp add: i skip_ws_def is_ws_def)
  moreover have "skip_ws (w @ rest) = rest"
  proof -
    have "starts_value rest"
      using 3(5) [of y] by (cases zs) (auto simp: rest_def)
    then show ?thesis by (simp add: skip_ws_blank i starts_value_skip)
  qed
  moreover have "jelems f' rest = Some (y # zs, r)"
    unfolding rest_def using 3(4-6) by (intro 3(2)) (auto simp: f i)
  ultimately show ?case by (simp add: f rest_def)
qed simp

lemma jmembers_dump:
  assumes si: "sep_ok 44 i" and sk: "sep_ok 58 k" and ne: "ms \<noteq> []"
    and keys: "\<And>n v. (n, v) \<in> set ms \<Longrightarrow> list_all is_scalar n"
    and IH: "\<And>n x r f. (n, x) \<in> set ms \<Longrightarrow> num_stop r \<Longrightarrow> 2 * length (d x) + 1 \<le> f \<Longrightarrow>
              jvalue f (d x @ r) = Some (x, r)"
    and st: "\<And>n x r. (n, x) \<in> set ms \<Longrightarrow> starts_value (d x @ r)"
    and fuel: "2 * length (join i (map (\<lambda>(n, v). dump_str n @ k @ d v) ms)) + 1 \<le> f"
  shows "jmembers f (join i (map (\<lambda>(n, v). dump_str n @ k @ d v) ms) @ 125 # r) = Some (ms, r)"
  using ne keys IH st fuel
proof (induction ms arbitrary: f rule: induct_list012)
  case (2 p)
  obtain n x where p: "p = (n, x)" by (cases p)
  from sk obtain w where k: "k = 58 # w" "list_all (\<lambda>x. x = 32) w" by (auto simp: sep_ok_def)
  from 2 obtain f' where f: "f = Suc f'" by (cases f) auto
  have v: "jvalue f' (d x @ 125 # r) = Some (x, 125 # r)"
    using 2(3) [of n x "125 # r" f'] 2(5) by (simp add: p f ascii_digit_def k)
  have w: "skip_ws (w @ d x @ 125 # r) = d x @ 125 # r"
    using 2(4) [of n x] by (simp add: p skip_ws_blank k starts_value_skip)
  have s: "scan_string (concat (map escape_cp n) @ 34 # k @ d x @ 125 # r) = Some (n, k @ d x @ 125 # r)"
    using 2(2) [of n x] by (simp add: p scan_string_dump)
  have "skip_ws (k @ q) = 58 # w @ q" for q by (simp add: k skip_ws_def is_ws_def)
  with v w s show ?case by (simp add: f p dump_str_def skip_ws_def is_ws_def)
next
  case (3 p q zs)
  obtain n x where p: "p = (n, x)" by (cases p)
  let ?g = "\<lambda>(n, v). dump_str n @ k @ d v"
  from sk obtain w where k: "k = 58 # w" "list_all (\<lambda>x. x = 32) w" by (auto simp: sep_ok_def)
  from si obtain wi where i: "i = 44 # wi" "list_all (\<lambda>x. x = 32) wi" by (auto simp: sep_ok_def)
  define rest where "rest = join i (map ?g (q # zs)) @ 125 # r"
  from 3(7) obtain f' where f: "f = Suc f'" by (cases f) auto
  have v: "jvalue f' (d x @ i @ rest) = Some (x, i @ rest)"
    using 3(5) [of n x "i @ rest" f'] 3(7) by (simp add: p f ascii_digit_def k i)
  have w: "skip_ws (w @ d x @ i @ rest) = d x @ i @ rest"
    using 3(6) [of n x] by (simp add: p skip_ws_blank k starts_value_skip)
  have s: "scan_string (concat (map escape_cp n) @ 34 # k @ d x @ i @ rest) = Some (n, k @ d x @ i @ rest)"
    using 3(4) [of n x] by (simp add: p scan_string_dump)
  have k': "skip_ws (k @ y) = 58 # w @ y" for y by (simp add: k skip_ws_def is_ws_def)
  have i': "skip_ws (i @ rest) = 44 # wi @ rest" by (simp add: i skip_ws_def is_ws_def)
  have r: "skip_ws (wi @ rest) = rest"
  proof -
    obtain n' x' where "q = (n', x')" by (cases q)
    then have "\<exists>y. rest = 34 # y" by (cases zs) (auto simp: rest_def dump_str_def)
    then show ?thesis using i(2) by (auto simp: skip_ws_blank) (simp add: skip_ws_def is_ws_def)
  qed
  have sub: "\<And>y. y \<in> set (q # zs) \<Longrightarrow> y \<in> set (p # q # zs)" by simp
  have "jmembers f' rest = Some (q # zs, r)"
    unfolding rest_def
  proof (rule 3(2))
    show "2 * length (join i (map ?g (q # zs))) + 1 \<le> f'" using 3(7) by (simp add: f i p)
  qed (use 3(4-6) sub in \<open>blast | simp\<close>)+
  moreover have "join i (map ?g (p # q # zs)) @ 125 # r = 34 # concat (map escape_cp n) @ 34 # k @ d x @ i @ rest"
    by (simp add: p rest_def dump_str_def)
  ultimately show ?case using v w s k' i' r by (simp add: f flip: p)
qed simp

lemma jvalue_dumps:
  assumes si: "sep_ok 44 i" and sk: "sep_ok 58 k"
  shows "wf_json v \<Longrightarrow> num_stop r \<Longrightarrow> 2 * length (dumps_sep i k v) + 1 \<le> f \<Longrightarrow>
    jvalue f (dumps_sep i k v @ r) = Some (v, r)"
proof (induction v arbitrary: r f)
  case JNull
  then obtain f' where "f = Suc f'" by (cases f) auto
  with scan_scalar_intros(1) [of r] show ?case by (simp add: u_def)
next
  case (JBool b)
  then obtain f' where "f = Suc f'" by (cases f) auto
  with scan_scalar_intros(2,3) [of r] show ?case by (cases b) (simp_all add: u_def)
next
  case (JInt n)
  then obtain f' where f: "f = Suc f'" by (cases f) auto
  obtain c cs where "str_int n = c # cs" "c = 45 \<or> ascii_digit c" using str_int_starts by blast
  with scan_scalar_number [OF scan_number_int [OF JInt(2), of n]] show ?case
    by (auto simp: f ascii_digit_def)
next
  case (JFloat l)
  then obtain f' where f: "f = Suc f'" by (cases f) auto
  have "scan_scalar (l @ r) = Some (JFloat l, r)"
    using JFloat scan_scalar_intros(4-6) [of r] scan_number_append [of l "JFloat l" "[]" r]
    by (auto simp: float_ok_def intro: scan_scalar_number)
  moreover obtain c cs where "l = c # cs" "c = 45 \<or> ascii_digit c \<or> c = 78 \<or> c = 73"
    using float_ok_starts [of l] JFloat by auto
  ultimately show ?case by (auto simp: f ascii_digit_def)
next
  case (JStr s)
  then obtain f' where f: "f = Suc f'" by (cases f) auto
  with JStr show ?case by (simp add: dump_str_def scan_string_dump)
next
  case (JArr xs)
  then obtain f' where f: "f = Suc f'" by (cases f) auto
  show ?case
  proof (cases "xs = []")
    case True
    then show ?thesis by (simp add: f skip_ws_def is_ws_def)
  next
    case False
    let ?d = "dumps_sep i k"
    have e: "jelems f' (join i (map ?d xs) @ 93 # r) = Some (xs, r)"
      by (rule jelems_dump) (use si JArr False f in \<open>auto simp: list_all_iff dumps_starts\<close>)
    obtain x ys where xs: "xs = x # ys" using False by (cases xs) auto
    have "starts_value (join i (map ?d xs) @ 93 # r)"
      using JArr(2) dumps_starts by (cases ys) (auto simp: xs)
    then obtain c q where "join i (map ?d xs) @ 93 # r = c # q" "\<not> is_ws c" "c \<noteq> 93"
      by (cases "join i (map ?d xs) @ 93 # r") (auto simp: starts_value_def)
    with e show ?thesis by (simp add: f skip_ws_def)
  qed
next
  case (JObj ms)
  then obtain f' where f: "f = Suc f'" by (cases f) auto
  let ?d = "dumps_sep i k"
  let ?g = "\<lambda>(n, v). dump_str n @ k @ ?d v"
  show ?case
  proof (cases "ms = []")
    case True
    then show ?thesis by (simp add: f skip_ws_def is_ws_def)
  next
    case False
    have wf: "\<And>n x. (n, x) \<in> set ms \<Longrightarrow> list_all is_scalar n \<and> wf_json x"
      using JObj(2) by (auto simp: list_all_iff)
    have e: "jmembers f' (join i (map ?g ms) @ 125 # r) = Some (ms, r)"
      by (rule jmembers_dump) (use si sk False f wf JObj in \<open>auto simp: dumps_starts\<close>)
    obtain n x ys where ms: "ms = (n, x) # ys" using False by (cases ms) auto
    have "\<exists>y. join i (map ?g ms) @ 125 # r = 34 # y" by (cases ys) (auto simp: ms dump_str_def)
    then obtain y where "join i (map ?g ms) @ 125 # r = 34 # y" ..
    with e JObj(2) show ?thesis
      by (simp add: f skip_ws_def is_ws_def dict_of_pairs_distinct)
  qed
qed


section \<open>json.loads after json.dumps\<close>

lemma loads_dumps_sep:
  assumes "sep_ok 44 i" "sep_ok 58 k" "wf_json v"
  shows "loads_str (dumps_sep i k v) = Some v"
proof -
  have "jvalue (2 * length (dumps_sep i k v) + 2) (dumps_sep i k v @ []) = Some (v, [])"
    by (rule jvalue_dumps) (use assms in simp_all)
  moreover have "skip_ws (dumps_sep i k v) = dumps_sep i k v"
    using dumps_starts [OF assms(3), of i k "[]"] by (simp add: starts_value_skip)
  ultimately show ?thesis by (simp add: loads_str_def skip_ws_def)
qed

lemma sep_ok_wire: "sep_ok 44 [44]" "sep_ok 58 [58]" "sep_ok 44 [44, 32]" "sep_ok 58 [58, 32]"
  by (auto simp: sep_ok_def)

lemma loads_str_dumps [json_simps]: "wf_json v \<Longrightarrow> loads_str (json_dumps v) = Some v"
  unfolding json_dumps_def by (rule loads_dumps_sep [OF sep_ok_wire(1,2)])

lemma loads_str_dumps_default [json_simps]:
  "wf_json v \<Longrightarrow> loads_str (json_dumps_default v) = Some v"
  unfolding json_dumps_default_def by (rule loads_dumps_sep [OF sep_ok_wire(3,4)])

text \<open>The text is printable ASCII.\<close>

definition printable :: "nat \<Rightarrow> bool" where
  "printable c \<longleftrightarrow> 32 \<le> c \<and> c \<le> 126"

lemma fmt_04x_printable: "list_all printable (fmt_04x n)"
proof -
  have "c \<le> 39" if "c \<in> set (nat_digits 16 n)" for c using nat_digits_less [of 16 c n] that by simp
  then show ?thesis
    by (auto simp: fmt_04x_def list_all_iff printable_def lower_cp_def pad0_def split: if_splits)
qed

lemma escape_cp_printable: "list_all printable (escape_cp c)"
  using fmt_04x_printable by (simp add: escape_cp_def Let_def) (simp add: printable_def)

lemma dump_str_printable: "list_all printable (dump_str s)"
  using escape_cp_printable by (induction s) (auto simp: dump_str_def printable_def)

lemma str_int_printable: "list_all printable (str_int n)"
proof -
  have "list_all printable (str_nat m)" for m
    using str_nat_ascii [of m] by (auto simp: list_all_iff printable_def ascii_digit_def)
  then show ?thesis by (simp add: str_int_def printable_def)
qed

lemma num_parts_printable:
  "list_all printable (num_sign s)" "list_all printable (num_int s)"
  "list_all printable (num_frac s)" "list_all printable (num_exp s)"
proof -
  have d: "list_all printable (takeWhile ascii_digit x)" for x
    by (auto simp: list_all_iff printable_def ascii_digit_def dest!: set_takeWhileD)
  show "list_all printable (num_sign s)"
    by (auto simp: num_sign_def printable_def split: list.splits)
  show "list_all printable (num_int s)"
    using d [of s] by (auto simp: num_int_def printable_def split: list.splits)
  show "list_all printable (num_frac s)"
    using d by (auto simp: num_frac_def printable_def split: list.splits)
  show "list_all printable (num_exp s)"
    using d by (auto simp: num_exp_def Let_def printable_def split: list.splits)
qed

lemma float_ok_printable: "float_ok l \<Longrightarrow> list_all printable l"
proof -
  assume "float_ok l"
  then consider "scan_number l = Some (JFloat l, [])"
    | "l = u ''NaN'' \<or> l = u ''Infinity'' \<or> l = u ''-Infinity''"
    by (auto simp: float_ok_def)
  then show ?thesis
  proof cases
    case 1
    then show ?thesis
      by (rule scan_number_elim)
        (use num_parts_printable in \<open>metis append_Nil2 list_all_append\<close>)
  qed (auto simp: u_def printable_def)
qed

lemma join_printable:
  "list_all printable i \<Longrightarrow> (\<And>x. x \<in> set xs \<Longrightarrow> list_all printable x) \<Longrightarrow> list_all printable (join i xs)"
  by (induction i xs rule: join.induct) auto

lemma dumps_printable:
  assumes "list_all printable i" "list_all printable k"
  shows "wf_json v \<Longrightarrow> list_all printable (dumps_sep i k v)"
proof (induction v)
  case (JObj ms)
  then have "list_all printable (join i (map (\<lambda>(n, v). dump_str n @ k @ dumps_sep i k v) ms))"
    using assms
    by (intro join_printable) (auto simp: dump_str_printable list_all_iff [of _ ms] intro!: JObj.IH)
  then show ?case by (simp add: printable_def [of 91] printable_def [of 93] printable_def [of 123] printable_def [of 125])
next
  case (JArr xs)
  then have "list_all printable (join i (map (dumps_sep i k) xs))"
    using assms by (intro join_printable) (auto simp: list_all_iff)
  then show ?case by (simp add: printable_def [of 91] printable_def [of 93] printable_def [of 123] printable_def [of 125])
qed (simp_all add: u_def printable_def dump_str_printable str_int_printable float_ok_printable)

lemma json_dumps_printable: "wf_json v \<Longrightarrow> list_all printable (json_dumps v)"
  unfolding json_dumps_def by (rule dumps_printable) (simp_all add: printable_def)

lemma printable_no_newline: "list_all printable s \<Longrightarrow> NEWLINE \<notin> set s"
  by (auto simp: list_all_iff printable_def)

text \<open>A proper prefix of an object's text is not a JSON text.\<close>

lemma loads_str_object_prefix:
  assumes wf: "wf_json (JObj ms)" and t: "json_dumps (JObj ms) = p @ t" "t \<noteq> []"
  shows "loads_str p = None"
proof (cases p)
  case Nil
  then show ?thesis by (simp add: loads_str_def skip_ws_def)
next
  case (Cons c p')
  then have p: "p = 123 # p'" using t by (simp add: json_dumps_def)
  have ws: "skip_ws p = p" by (simp add: p skip_ws_def is_ws_def)
  show ?thesis
  proof (rule ccontr)
    assume "loads_str p \<noteq> None"
    then obtain v r where j: "jvalue (2 * length p + 2) p = Some (v, r)"
      unfolding loads_str_def ws by (auto split: option.splits)
    let ?s = "json_dumps (JObj ms)"
    have "jvalue (2 * length ?s + 2) p = Some (v, r)"
      using j jvalue_fuel [of p "2 * length ?s + 2"] jvalue_fuel [of p "2 * length p + 2"]
      by (simp add: t del: jvalue.simps)
    from this [unfolded p] have "jvalue (2 * length ?s + 2) ?s = Some (v, r @ t)"
      using jvalue_object_append [of "2 * length ?s + 2" p' v r t] by (simp add: t p del: jvalue.simps)
    moreover have "jvalue (2 * length ?s + 2) (?s @ []) = Some (JObj ms, [])"
      unfolding json_dumps_def by (rule jvalue_dumps) (use wf sep_ok_wire in simp_all)
    ultimately show False using t(2) by simp
  qed
qed

end
