(* ===== verification/Wire.thy ===== *)
theory Wire
  imports Json_Roundtrip
begin

text \<open>
  \<^verbatim>\<open>wire.py\<close> and \<^verbatim>\<open>errors.py\<close>: the request and reply texts, the typed exception of an error
  reply, and the contract that the newline-framed JSON channel of \<^verbatim>\<open>server.py\<close> and
  \<^verbatim>\<open>runnables.py\<close> rests on, as the locale \<open>frame_codec\<close>.
\<close>

section \<open>Requests and replies\<close>

definition WIRE_VERSION :: int where "WIRE_VERSION = 1"
definition DEFAULT_REQUEST_PORT :: int where "DEFAULT_REQUEST_PORT = 5000"
definition DEFAULT_REPLY_PORT :: int where "DEFAULT_REPLY_PORT = 5001"
definition PILOT_ECHO_PORT :: int where "PILOT_ECHO_PORT = 7"

text \<open>
  The payload is the JSON value that \<^verbatim>\<open>default=str\<close> has left; a reply repeats the \<^verbatim>\<open>call_id\<close> of
  the request, which is whatever JSON value the request had there.
\<close>

definition encode_request :: "pystr \<Rightarrow> pystr \<Rightarrow> pystr \<Rightarrow> int \<Rightarrow> json \<Rightarrow> pystr \<Rightarrow> pystr" where
  "encode_request call_id node sender_hostname reply_port payload kind =
     json_dumps (JObj
       [(u ''v'', JInt WIRE_VERSION),
        (u ''kind'', JStr kind),
        (u ''call_id'', JStr call_id),
        (u ''node'', JStr node),
        (u ''from'', JStr sender_hostname),
        (u ''reply_port'', JInt reply_port),
        (u ''payload'', payload)])"

definition encode_reply :: "json \<Rightarrow> bool \<Rightarrow> json \<Rightarrow> pystr option \<Rightarrow> pystr" where
  "encode_reply call_id ok result error =
     json_dumps (JObj
       [(u ''v'', JInt WIRE_VERSION),
        (u ''call_id'', call_id),
        (u ''ok'', JBool ok),
        (u ''result'', result),
        (u ''error'', case error of None \<Rightarrow> JNull | Some e \<Rightarrow> JStr e)])"

definition decode :: "pystr \<Rightarrow> json result" where
  "decode blob = (case loads_str blob of None \<Rightarrow> Inl JSONDecodeError | Some v \<Rightarrow> Inr v)"

section \<open>Typed exceptions\<close>

definition ERROR_TYPE_MAP :: "(pystr, remote_class) dict" where
  "ERROR_TYPE_MAP =
     [(u ''handler_not_found'', PilotHandlerNotFoundError),
      (u ''unauthorized'', PilotUnauthorizedError),
      (u ''handler_error'', PilotHandlerError),
      (u ''rate_limited'', PilotRateLimitError),
      (u ''remote_error'', PilotRemoteError)]"

text \<open>The class attribute \<^verbatim>\<open>error_type\<close>.\<close>

fun error_type :: "remote_class \<Rightarrow> pystr" where
  "error_type PilotRemoteError = u ''remote_error''"
| "error_type PilotHandlerNotFoundError = u ''handler_not_found''"
| "error_type PilotUnauthorizedError = u ''unauthorized''"
| "error_type PilotHandlerError = u ''handler_error''"
| "error_type PilotRateLimitError = u ''rate_limited''"

text \<open>\<^verbatim>\<open>x or default\<close>.\<close>

definition py_or :: "json \<Rightarrow> json \<Rightarrow> json" where
  "py_or x d = (if truthy x then x else d)"

text \<open>
  \<^verbatim>\<open>_ERROR_TYPE_MAP.get(err_type, PilotRemoteError)\<close>: a list or a dict is not hashable, any
  other value that is not one of the keys gives the base class.
\<close>

definition error_class :: "json \<Rightarrow> remote_class result" where
  "error_class t =
     (case t of
        JStr s \<Rightarrow> Inr (case dict_get ERROR_TYPE_MAP s of None \<Rightarrow> PilotRemoteError | Some c \<Rightarrow> c)
      | JArr _ \<Rightarrow> Inl (TypeError (u ''unhashable type: list''))
      | JObj _ \<Rightarrow> Inl (TypeError (u ''unhashable type: dict''))
      | _ \<Rightarrow> Inr PilotRemoteError)"

text \<open>The exception object, or the exception that building it raises.\<close>

definition from_reply :: "json \<Rightarrow> pystr option \<Rightarrow> pystr option \<Rightarrow> exn result" where
  "from_reply reply peer node =
     rbind (jget reply (u ''error'')) (\<lambda>e.
     rbind (jget reply (u ''error_type'')) (\<lambda>t.
     rmap (\<lambda>cls. PilotRemote cls (py_or e (JStr (u ''remote error''))) peer node)
       (error_class (py_or t (JStr (u ''remote_error''))))))"

section \<open>Round trips\<close>

lemma decode_json_dumps [json_simps]: "wf_json v \<Longrightarrow> decode (json_dumps v) = Inr v"
  by (simp add: decode_def json_simps)

lemma scalar_u: "list_all is_scalar (u s)"
proof -
  have "is_scalar (of_char c)" for c :: char
    using nat_of_char_less_256 [of c] unfolding is_scalar_def is_surrogate_def by linarith
  then show ?thesis by (simp add: u_def list_all_iff)
qed

text \<open>Decoding an encoded request gives back every field, for any well-formed payload.\<close>

theorem request_roundtrip:
  assumes "wf_json payload" "list_all is_scalar call_id" "list_all is_scalar node"
    "list_all is_scalar sender" "list_all is_scalar kind"
  shows "\<exists>d. decode (encode_request call_id node sender reply_port payload kind) = Inr d \<and>
    jget d (u ''v'') = Inr (JInt 1) \<and> jget d (u ''kind'') = Inr (JStr kind) \<and>
    jget d (u ''call_id'') = Inr (JStr call_id) \<and> jget d (u ''node'') = Inr (JStr node) \<and>
    jget d (u ''from'') = Inr (JStr sender) \<and> jget d (u ''reply_port'') = Inr (JInt reply_port) \<and>
    jget d (u ''payload'') = Inr payload"
  using assms unfolding encode_request_def
  by (subst decode_json_dumps) (simp_all add: scalar_u jget_def dict_get_def WIRE_VERSION_def)

theorem request_roundtrip_witness:
  "\<exists>d. decode (encode_request (u ''c1'') (u ''plan'') (u ''alice'') 5001
      (JObj [(u ''q'', JArr [JInt 1, JNull])]) (u ''invoke'')) = Inr d \<and>
    jget d (u ''payload'') = Inr (JObj [(u ''q'', JArr [JInt 1, JNull])])"
  using request_roundtrip [of "JObj [(u ''q'', JArr [JInt 1, JNull])]" "u ''c1''" "u ''plan''"
    "u ''alice''" "u ''invoke''" 5001] by (simp add: scalar_u) blast

text \<open>The typed exception of an error reply is the class whose tag the reply carries.\<close>

theorem from_reply_typed:
  assumes "msg \<noteq> []"
  shows "from_reply (JObj [(u ''ok'', JBool False), (u ''error'', JStr msg),
      (u ''error_type'', JStr (error_type cls))]) peer node = Inr (PilotRemote cls (JStr msg) peer node)"
  using assms
  by (cases cls) (simp_all add: from_reply_def jget_def dict_get_def error_class_def ERROR_TYPE_MAP_def
      py_or_def u_def)

theorem from_reply_typed_witness:
  "from_reply (JObj [(u ''ok'', JBool False), (u ''error'', JStr (u ''boom'')),
      (u ''error_type'', JStr (u ''handler_error''))]) None (Some (u ''f'')) =
    Inr (PilotRemote PilotHandlerError (JStr (u ''boom'')) None (Some (u ''f'')))"
  using from_reply_typed [of "u ''boom''" PilotHandlerError None "Some (u ''f'')"] by (simp add: u_def)

section \<open>Newline-framed JSON\<close>

text \<open>\<^verbatim>\<open>line, _, rest = buf.partition(b"\n")\<close> when the buffer holds a newline.\<close>

definition cut_line :: "bytes \<Rightarrow> (bytes \<times> bytes) option" where
  "cut_line buf =
     (if 10 \<in> set buf
      then Some (takeWhile (\<lambda>b. b \<noteq> 10) buf, drop (Suc (length (takeWhile (\<lambda>b. b \<noteq> 10) buf))) buf)
      else None)"

lemma cut_line_append: "10 \<notin> set l \<Longrightarrow> cut_line (l @ 10 # r) = Some (l, r)"
proof -
  assume "10 \<notin> set l"
  then have "takeWhile (\<lambda>b. b \<noteq> 10) (l @ 10 # r) = l"
    by (subst takeWhile_append2) auto
  then show ?thesis by (simp add: cut_line_def)
qed

lemma cut_line_None [simp]: "cut_line buf = None \<longleftrightarrow> 10 \<notin> set buf"
  by (simp add: cut_line_def)

lemma cut_line_Some: "cut_line buf = Some (l, r) \<Longrightarrow> buf = l @ 10 # r \<and> 10 \<notin> set l"
proof -
  assume c: "cut_line buf = Some (l, r)"
  then have "10 \<in> set buf" by (auto simp: cut_line_def split: if_splits)
  then obtain a b where "buf = a @ 10 # b" "10 \<notin> set a" by (meson split_list_first)
  with c show ?thesis by (simp add: cut_line_append)
qed

lemma cut_line_length: "cut_line buf = Some (l, r) \<Longrightarrow> length r < length buf"
  by (auto dest!: cut_line_Some)

text \<open>
  What the two ends of a stream agree on: a value that may be sent has one line of text, which
  the receiver reads back, and no shorter text of it is a value.
\<close>

locale frame_codec =
  fixes enc :: "'v \<Rightarrow> bytes" and dec :: "bytes \<Rightarrow> 'v result" and ok :: "'v \<Rightarrow> bool"
  assumes dec_enc: "ok v \<Longrightarrow> dec (enc v) = Inr v"
    and dec_empty: "dec [] = Inl JSONDecodeError"
    and enc_no_newline: "ok v \<Longrightarrow> 10 \<notin> set (enc v)"
    and enc_prefix: "ok v \<Longrightarrow> enc v = p @ t \<Longrightarrow> t \<noteq> [] \<Longrightarrow> dec p = Inl JSONDecodeError"
begin

definition framed :: "'v list \<Rightarrow> bytes" where
  "framed vs = concat (map (\<lambda>v. enc v @ [10]) vs)"

lemma framed_simps [simp]:
  "framed [] = []" "framed (v # vs) = enc v @ 10 # framed vs" "framed (vs @ ws) = framed vs @ framed ws"
  by (simp_all add: framed_def)

lemma enc_nonempty: "ok v \<Longrightarrow> enc v \<noteq> []"
  using dec_empty dec_enc [of v] by auto

lemma cut_framed: "ok v \<Longrightarrow> cut_line (enc v @ 10 # r) = Some (enc v, r)"
  by (simp add: cut_line_append enc_no_newline)

lemma enc_inj: "ok v \<Longrightarrow> ok w \<Longrightarrow> enc v = enc w \<Longrightarrow> v = w"
  by (metis dec_enc sum.inject(2))

lemma framed_inj: "list_all ok vs \<Longrightarrow> list_all ok ws \<Longrightarrow> framed vs = framed ws \<Longrightarrow> vs = ws"
proof (induction vs arbitrary: ws)
  case Nil
  then show ?case by (cases ws) simp_all
next
  case (Cons v vs)
  then obtain w ws' where ws: "ws = w # ws'" by (cases ws) simp_all
  with Cons.prems(3) have "cut_line (enc v @ 10 # framed vs) = cut_line (enc w @ 10 # framed ws')" by simp
  moreover have o: "ok v" "ok w" using Cons.prems ws by simp_all
  ultimately have "enc v = enc w \<and> framed vs = framed ws'"
    unfolding cut_framed [OF o(1)] cut_framed [OF o(2)] by simp
  then have "v = w" "vs = ws'" using Cons.IH [of ws'] Cons.prems(1,2) enc_inj [OF o] unfolding ws list.pred_inject by blast+
  then show ?case by (simp add: ws)
qed

text \<open>A prefix of a framed text is some whole lines and a part of the next.\<close>

lemma framed_prefix:
  assumes "q @ t = framed vs"
  shows "(q = framed vs \<and> t = []) \<or>
    (\<exists>ws v us p s. vs = ws @ v # us \<and> q = framed ws @ p \<and> enc v = p @ s \<and> t = s @ 10 # framed us)"
  using assms
proof (induction vs arbitrary: q)
  case (Cons v vs)
  from Cons.prems consider
    (inside) s where "enc v = q @ s" "t = s @ 10 # framed vs"
  | (after) q' where "q = enc v @ 10 # q'" "q' @ t = framed vs"
  proof -
    from Cons.prems have "(\<exists>r. q = enc v @ r \<and> r @ t = 10 # framed vs) \<or> (\<exists>r. q @ r = enc v \<and> t = r @ 10 # framed vs)"
      by (simp only: framed_simps append_eq_append_conv2) blast
    then show thesis
    proof (elim disjE exE conjE)
      fix r assume r: "q = enc v @ r" "r @ t = 10 # framed vs"
      show thesis
      proof (cases r)
        case Nil
        with r show thesis by (intro inside [of "[]"]) simp_all
      next
        case (Cons x q')
        with r show thesis by (intro after [of q']) simp_all
      qed
    next
      fix r assume "q @ r = enc v" "t = r @ 10 # framed vs"
      then show thesis by (intro inside [of r]) simp_all
    qed
  qed
  then show ?case
  proof cases
    case inside
    then show ?thesis by (intro disjI2, rule_tac x = "[]" in exI, rule_tac x = v in exI, rule_tac x = vs in exI, auto)
  next
    case after
    from Cons.IH [OF after(2)] show ?thesis
    proof
      assume "\<exists>ws v' us p s. vs = ws @ v' # us \<and> q' = framed ws @ p \<and> enc v' = p @ s \<and> t = s @ 10 # framed us"
      then obtain ws v' us p s where "vs = ws @ v' # us" "q' = framed ws @ p" "enc v' = p @ s" "t = s @ 10 # framed us"
        by blast
      then show ?thesis using after(1) by (intro disjI2, rule_tac x = "v # ws" in exI, rule_tac x = v' in exI, rule_tac x = us in exI, auto)
    qed (simp add: after(1))
  qed
qed simp

end

text \<open>The JSON objects that the server writes, \<^verbatim>\<open>json.dumps(frame).encode("utf-8")\<close>.\<close>

definition frame_bytes :: "json \<Rightarrow> bytes" where
  "frame_bytes v = ascii_bytes (json_dumps v)"

definition frame_ok :: "json \<Rightarrow> bool" where
  "frame_ok v \<longleftrightarrow> wf_json v \<and> (case v of JObj _ \<Rightarrow> True | _ \<Rightarrow> False)"

lemma printable_ascii: "list_all printable s \<Longrightarrow> is_ascii s"
  by (auto simp: list_all_iff printable_def is_ascii_def)

lemma printable_bytes:
  assumes "list_all printable s" "b \<in> set (ascii_bytes s)" shows "32 \<le> unat b \<and> unat b \<le> 126"
proof -
  from assms obtain c where "c \<in> set s" "b = word_of_nat c" by (auto simp: ascii_bytes_def)
  with assms(1) show ?thesis by (auto simp: list_all_iff printable_def unat_byte_of_nat)
qed

lemma printable_detects_utf8:
  assumes "list_all printable s" shows "detects_utf8 (ascii_bytes s)"
proof -
  let ?b = "ascii_bytes s"
  have bad: "x \<notin> set ?b" if "unat x < 32 \<or> 126 < unat x" for x
    using printable_bytes [OF assms, of x] that by auto
  have t: "take n ?b \<noteq> x # y" if "unat x < 32 \<or> 126 < unat x" for n x y
    using bad [OF that] by (metis in_set_takeD list.set_intros(1))
  have z: "?b ! i \<noteq> 0" if "i < length ?b" for i
    using bad [of 0] nth_mem [OF that] by auto
  have "\<not> (4 \<le> length ?b \<and> (?b ! 0 = 0 \<or> ?b ! 1 = 0))" "\<not> (length ?b = 2 \<and> (?b ! 0 = 0 \<or> ?b ! 1 = 0))"
    using z [of 0] z [of 1] by fastforce+
  then show ?thesis unfolding detects_utf8_def by (simp add: t)
qed

lemma json_loads_printable:
  "list_all printable s \<Longrightarrow>
    json_loads (ascii_bytes s) = (case loads_str s of None \<Rightarrow> Inl JSONDecodeError | Some v \<Rightarrow> Inr v)"
  by (simp add: json_loads_def printable_detects_utf8 decode_strict_ascii_append printable_ascii)

lemma json_loads_dumps [json_simps]: "wf_json v \<Longrightarrow> json_loads (frame_bytes v) = Inr v"
  by (simp add: frame_bytes_def json_loads_printable json_dumps_printable json_simps)

lemma frame_bytes_encode: "wf_json v \<Longrightarrow> utf8_encode (json_dumps v) = Inr (frame_bytes v)"
  by (simp add: frame_bytes_def utf8_encode_ascii printable_ascii json_dumps_printable)

lemma frame_bytes_no_newline: "wf_json v \<Longrightarrow> 10 \<notin> set (frame_bytes v)"
  using printable_bytes [OF json_dumps_printable, of v 10] by (auto simp: frame_bytes_def)

lemma frame_bytes_prefix:
  assumes "frame_ok v" "frame_bytes v = p @ t" "t \<noteq> []"
  shows "json_loads p = Inl JSONDecodeError"
proof -
  obtain ms where v: "v = JObj ms" "wf_json v" using assms(1) by (cases v) (auto simp: frame_ok_def)
  define s where "s = take (length p) (json_dumps v)"
  have s: "json_dumps v = s @ drop (length p) (json_dumps v)" by (simp add: s_def)
  have len: "length (json_dumps v) = length p + length t"
    using arg_cong [OF assms(2), of length] by (simp add: frame_bytes_def ascii_bytes_def)
  have p: "p = ascii_bytes s"
    using arg_cong [OF assms(2), of "take (length p)"] by (simp add: frame_bytes_def ascii_bytes_def s_def take_map)
  have "loads_str s = None"
    by (rule loads_str_object_prefix [of ms s "drop (length p) (json_dumps v)"])
      (use v s len assms(3) in auto)
  moreover have "list_all printable s"
    using json_dumps_printable [OF v(2)] by (auto simp: s_def list_all_iff dest: in_set_takeD)
  ultimately show ?thesis by (simp add: p json_loads_printable)
qed

interpretation jf: frame_codec frame_bytes json_loads frame_ok
proof unfold_locales
  show "json_loads [] = Inl JSONDecodeError"
    by (simp add: json_loads_def detects_utf8_def loads_str_def skip_ws_def)
qed (auto simp: frame_ok_def json_simps frame_bytes_no_newline intro: frame_bytes_prefix)

end
