(* ===== verification/Client.thy ===== *)
theory Client
  imports Ipc Wire
begin

text \<open>
  \<^verbatim>\<open>asyncio_client.py\<close>: the multiplexed connection to the daemon. The state holds the waiter
  queues, the futures, the registered queues and the bytes written; a queue object is an index
  into a heap, because a \<^verbatim>\<open>Stream\<close> keeps its queue after the connection has dropped it. Each
  definition is a piece of code between two suspension points; the step relation interleaves
  them in any order.
\<close>

section \<open>State\<close>

datatype fut = FPending | FResult bytes | FException exn | FCancelled

record client =
  waiters :: "(byte, nat list) dict"
  futs :: "fut list"
  port_dgram_queues :: "(int, nat list) dict"
  stream_recv_queues :: "(int, nat) dict"
  pending_recv :: "(int, bytes option list) dict"
  listener_accept_queues :: "(int, nat) dict"
  recv_qs :: "bytes option list list"
  accept_qs :: "accepted_conn list list"
  dgram_qs :: "datagram list list"
  conn_closed :: bool
  transport_closing :: bool
  reader_done :: bool
  written :: bytes

definition client_init :: client where
  "client_init =
     \<lparr>waiters = [], futs = [], port_dgram_queues = [], stream_recv_queues = [], pending_recv = [],
      listener_accept_queues = [], recv_qs = [], accept_qs = [], dgram_qs = [],
      conn_closed = False, transport_closing = False, reader_done = False, written = []\<rparr>"

record stream =
  conn_id :: int
  recv_q :: nat
  stream_peer :: "(addr \<times> int) option"
  stream_closed :: bool

record listener =
  listener_port :: int
  accept_q :: nat
  listener_closed :: bool

text \<open>\<^verbatim>\<open>queue.put_nowait(x)\<close>: the queues are unbounded.\<close>

definition put :: "nat \<Rightarrow> 'a \<Rightarrow> 'a list list \<Rightarrow> 'a list list" where
  "put q x h = h[q := h ! q @ [x]]"

definition settle :: "nat \<Rightarrow> fut \<Rightarrow> fut list \<Rightarrow> fut list" where
  "settle f r fs = (if fs ! f = FPending then fs[f := r] else fs)"

definition waiters_of :: "client \<Rightarrow> byte \<Rightarrow> nat list" where
  "waiters_of st c = (case dict_get (waiters st) c of None \<Rightarrow> [] | Some q \<Rightarrow> q)"

section \<open>The read loop\<close>

definition deliver_to_waiter :: "client \<Rightarrow> byte \<Rightarrow> bytes \<Rightarrow> client" where
  "deliver_to_waiter st cmd payload =
     (case dict_get (waiters st) cmd of
        None \<Rightarrow> st
      | Some [] \<Rightarrow> st
      | Some (f # fs) \<Rightarrow>
          st\<lparr>waiters := dict_set (waiters st) cmd fs, futs := settle f (FResult payload) (futs st)\<rparr>)"

text \<open>The first waiter queue, in the order the keys were first used, that is not empty.\<close>

definition fail_oldest_waiter :: "client \<Rightarrow> pystr \<Rightarrow> client" where
  "fail_oldest_waiter st err =
     (case filter (\<lambda>(c, q). q \<noteq> []) (waiters st) of
        [] \<Rightarrow> st
      | (c, q) # _ \<Rightarrow>
          st\<lparr>waiters := dict_set (waiters st) c (tl q),
             futs := settle (hd q) (FException (PilotConnectionError (u ''daemon: '' @ err))) (futs st)\<rparr>)"

definition pend_item :: "client \<Rightarrow> int \<Rightarrow> bytes option \<Rightarrow> client" where
  "pend_item st cid x =
     st\<lparr>pending_recv := dict_set (pending_recv st) cid
          ((case dict_get (pending_recv st) cid of None \<Rightarrow> [] | Some l \<Rightarrow> l) @ [x])\<rparr>"

definition on_recv :: "client \<Rightarrow> bytes \<Rightarrow> client" where
  "on_recv st payload =
     (case parse_recv payload of
        None \<Rightarrow> st
      | Some (cid, d) \<Rightarrow>
          (case dict_get (stream_recv_queues st) cid of
             Some q \<Rightarrow> st\<lparr>recv_qs := put q (Some d) (recv_qs st)\<rparr>
           | None \<Rightarrow> pend_item st cid (Some d)))"

definition on_accept :: "client \<Rightarrow> bytes \<Rightarrow> client result" where
  "on_accept st payload =
     rmap (\<lambda>r. case r of
        None \<Rightarrow> st
      | Some a \<Rightarrow>
          (case dict_get (listener_accept_queues st) (local_port a) of
             Some q \<Rightarrow> st\<lparr>accept_qs := put q a (accept_qs st)\<rparr>
           | None \<Rightarrow> st)) (parse_accept payload)"

definition on_close_ok :: "client \<Rightarrow> bytes \<Rightarrow> client" where
  "on_close_ok st payload =
     (case parse_close_ok payload of
        None \<Rightarrow> st
      | Some cid \<Rightarrow>
          (case dict_get (stream_recv_queues st) cid of
             Some q \<Rightarrow> st\<lparr>stream_recv_queues := dict_del (stream_recv_queues st) cid,
                            recv_qs := put q None (recv_qs st)\<rparr>
           | None \<Rightarrow> pend_item st cid None))"

definition on_recv_from :: "client \<Rightarrow> bytes \<Rightarrow> client result" where
  "on_recv_from st payload =
     rmap (\<lambda>r. case r of
        None \<Rightarrow> st
      | Some dg \<Rightarrow>
          st\<lparr>dgram_qs := foldl (\<lambda>h q. put q dg h) (dgram_qs st)
               (case dict_get (port_dgram_queues st) (dst_port dg) of None \<Rightarrow> [] | Some qs \<Rightarrow> qs)\<rparr>)
       (parse_datagram payload)"

text \<open>The body of the loop for one message: its command byte and its payload.\<close>

definition dispatch :: "client \<Rightarrow> byte \<Rightarrow> bytes \<Rightarrow> client result" where
  "dispatch st cmd payload =
     (if cmd = CMD_RECV then Inr (on_recv st payload)
      else if cmd = CMD_ACCEPT then on_accept st payload
      else if cmd = CMD_CLOSE_OK then Inr (deliver_to_waiter (on_close_ok st payload) cmd payload)
      else if cmd = CMD_RECV_FROM then on_recv_from st payload
      else if cmd = CMD_ERROR then Inr (fail_oldest_waiter st (parse_error payload))
      else Inr (deliver_to_waiter st cmd payload))"

section \<open>Closing\<close>

text \<open>\<^verbatim>\<open>close()\<close> up to \<^verbatim>\<open>wait_closed\<close>, and from there to its end.\<close>

definition close_begin :: "client \<Rightarrow> client" where
  "close_begin st = (if conn_closed st then st else st\<lparr>conn_closed := True, transport_closing := True\<rparr>)"

definition fail_all :: "client \<Rightarrow> client" where
  "fail_all st =
     st\<lparr>waiters := map (\<lambda>(c, q). (c, [])) (waiters st),
        futs := foldl (\<lambda>fs f. settle f (FException (PilotConnectionError (u ''connection closed''))) fs)
                  (futs st) (concat (map snd (waiters st)))\<rparr>"

definition eof_all :: "client \<Rightarrow> client" where
  "eof_all st = st\<lparr>recv_qs := foldl (\<lambda>h q. put q None h) (recv_qs st) (map snd (stream_recv_queues st))\<rparr>"

definition close_finish :: "client \<Rightarrow> client" where
  "close_finish st = eof_all (fail_all (st\<lparr>reader_done := True\<rparr>))"

definition close :: "client \<Rightarrow> client" where
  "close st = (if conn_closed st then st else close_finish (close_begin st))"

definition force_close_sync :: "client \<Rightarrow> client" where
  "force_close_sync st =
     (if conn_closed st then st
      else eof_all (st\<lparr>conn_closed := True, transport_closing := True\<rparr>))"

definition is_alive :: "client \<Rightarrow> bool" where
  "is_alive st \<longleftrightarrow> \<not> conn_closed st \<and> \<not> reader_done st \<and> \<not> transport_closing st"

text \<open>
  \<^verbatim>\<open>_read_loop\<close> on the bytes received so far: the messages are dispatched until the loop waits
  for more bytes (the unread ones are returned) or ends with an exception.
\<close>

datatype loop_status = Waiting bytes | Ended "exn option"

function read_loop :: "client \<Rightarrow> bytes \<Rightarrow> client \<times> loop_status" where
  "read_loop st buf =
     (if conn_closed st then (st, Ended None)
      else if length buf < 4 then (st, Waiting buf)
      else (let n = be_nat (take 4 buf) in
            if n = 0 \<or> MAX_MESSAGE_SIZE < n
            then (close st, Ended (Some (PilotConnectionError (u ''invalid frame length: '' @ str_nat n))))
            else if length buf < 4 + n then (st, Waiting buf)
            else (case dispatch st (buf ! 4) (take (n - 1) (drop 5 buf)) of
                    Inl e \<Rightarrow> (close st, Ended (Some e))
                  | Inr st' \<Rightarrow> read_loop st' (drop (4 + n) buf))))"
  by pat_completeness auto
termination
  by (relation "measure (\<lambda>(st, buf). length buf)") auto

declare read_loop.simps [simp del]

text \<open>End of file while the loop waits: \<^verbatim>\<open>IncompleteReadError\<close> is swallowed, then \<^verbatim>\<open>close()\<close>.\<close>

definition read_loop_eof :: "client \<Rightarrow> client" where
  "read_loop_eof st = close (st\<lparr>reader_done := True\<rparr>)"

section \<open>Requests\<close>

text \<open>
  \<^verbatim>\<open>drain\<close> is what awaiting \<^verbatim>\<open>writer.drain()\<close> raises, if anything. A transport that is closing
  drops what is written to it.
\<close>

definition send_raw_locked :: "client \<Rightarrow> bytes \<Rightarrow> exn option \<Rightarrow> client \<times> unit result" where
  "send_raw_locked st payload drain =
     (if 2 ^ 32 \<le> length payload then (st, Inl OverflowError)
      else (if transport_closing st then st
            else st\<lparr>written := written st @ be_bytes 4 (length payload) @ payload\<rparr>,
            case drain of None \<Rightarrow> Inr () | Some e \<Rightarrow> Inl e))"

definition send_raw :: "client \<Rightarrow> bytes \<Rightarrow> exn option \<Rightarrow> client \<times> unit result" where
  "send_raw st payload drain = send_raw_locked st payload drain"

text \<open>\<^verbatim>\<open>_request\<close>, the part under the lock: a fresh future, registered and sent.\<close>

definition request_begin :: "client \<Rightarrow> bytes \<Rightarrow> byte \<Rightarrow> exn option \<Rightarrow> client \<times> nat result" where
  "request_begin st payload expect drain =
     (let f = length (futs st);
          st1 = st\<lparr>futs := futs st @ [FPending],
                   waiters := dict_set (waiters st) expect (waiters_of st expect @ [f])\<rparr>;
          (st2, r) = send_raw_locked st1 payload drain
      in (st2, rmap (\<lambda>_. f) r))"

text \<open>What \<^verbatim>\<open>await fut\<close> gives; \<open>None\<close> while it is pending.\<close>

definition request_await :: "client \<Rightarrow> nat \<Rightarrow> bytes result option" where
  "request_await st f =
     (case futs st ! f of
        FPending \<Rightarrow> None
      | FResult b \<Rightarrow> Some (Inr b)
      | FException e \<Rightarrow> Some (Inl e)
      | FCancelled \<Rightarrow> Some (Inl CancelledError))"

text \<open>
  \<^verbatim>\<open>wait_for\<close> runs out: the future is cancelled and taken out of the queue. A caller that is
  itself cancelled leaves its cancelled future in the queue.
\<close>

definition request_timeout :: "client \<Rightarrow> byte \<Rightarrow> nat \<Rightarrow> client" where
  "request_timeout st expect f =
     st\<lparr>futs := settle f FCancelled (futs st),
        waiters := dict_set (waiters st) expect (remove1 f (waiters_of st expect))\<rparr>"

definition request_cancel :: "client \<Rightarrow> nat \<Rightarrow> client" where
  "request_cancel st f = st\<lparr>futs := settle f FCancelled (futs st)\<rparr>"

text \<open>\<^verbatim>\<open>_request_json\<close> on the reply, and the two list-valued calls.\<close>

definition request_json :: "bytes \<Rightarrow> json result" where
  "request_json body = (if body \<noteq> [] then json_loads body else Inr (JObj []))"

definition list_field :: "pystr \<Rightarrow> json \<Rightarrow> json" where
  "list_field k d =
     (case d of JObj ms \<Rightarrow> (case dict_get ms k of None \<Rightarrow> JArr [] | Some v \<Rightarrow> v) | _ \<Rightarrow> py_or d (JArr []))"

definition trust_list :: "bytes \<Rightarrow> json result" where
  "trust_list body = rmap (list_field (u ''trusted'')) (request_json body)"

definition pending_list :: "bytes \<Rightarrow> json result" where
  "pending_list body = rmap (list_field (u ''pending'')) (request_json body)"

definition info_begin :: "client \<Rightarrow> exn option \<Rightarrow> client \<times> nat result" where
  "info_begin st d = request_begin st encode_info CMD_INFO_OK d"

definition health_begin :: "client \<Rightarrow> exn option \<Rightarrow> client \<times> nat result" where
  "health_begin st d = request_begin st encode_health CMD_HEALTH_OK d"

definition with_payload :: "client \<Rightarrow> bytes result \<Rightarrow> byte \<Rightarrow> exn option \<Rightarrow> client \<times> nat result" where
  "with_payload st p expect d = (case p of Inl e \<Rightarrow> (st, Inl e) | Inr b \<Rightarrow> request_begin st b expect d)"

definition resolve_hostname_begin :: "client \<Rightarrow> pystr \<Rightarrow> exn option \<Rightarrow> client \<times> nat result" where
  "resolve_hostname_begin st h d = with_payload st (encode_resolve_hostname h) CMD_RESOLVE_HOSTNAME_OK d"

definition set_hostname_begin :: "client \<Rightarrow> pystr \<Rightarrow> exn option \<Rightarrow> client \<times> nat result" where
  "set_hostname_begin st h d = with_payload st (encode_set_hostname h) CMD_SET_HOSTNAME_OK d"

definition handshake_send_begin :: "client \<Rightarrow> int \<Rightarrow> pystr \<Rightarrow> exn option \<Rightarrow> client \<times> nat result" where
  "handshake_send_begin st n j d = with_payload st (encode_handshake_send n j) CMD_HANDSHAKE_OK d"

definition handshake_approve_begin :: "client \<Rightarrow> int \<Rightarrow> exn option \<Rightarrow> client \<times> nat result" where
  "handshake_approve_begin st n d = with_payload st (encode_handshake_approve n) CMD_HANDSHAKE_OK d"

definition trust_list_begin :: "client \<Rightarrow> exn option \<Rightarrow> client \<times> nat result" where
  "trust_list_begin st d = request_begin st encode_handshake_trusted CMD_HANDSHAKE_OK d"

definition pending_begin :: "client \<Rightarrow> exn option \<Rightarrow> client \<times> nat result" where
  "pending_begin st d = request_begin st encode_handshake_pending CMD_HANDSHAKE_OK d"

section \<open>Streams, listeners, datagrams\<close>

definition register_recv_queue :: "client \<Rightarrow> int \<Rightarrow> client \<times> nat" where
  "register_recv_queue st cid =
     (let q = length (recv_qs st);
          items = (case dict_get (pending_recv st) cid of None \<Rightarrow> [] | Some l \<Rightarrow> l)
      in (st\<lparr>stream_recv_queues := dict_set (stream_recv_queues st) cid q,
             pending_recv := dict_del (pending_recv st) cid,
             recv_qs := recv_qs st @ [items]\<rparr>, q))"

definition dial_begin :: "client \<Rightarrow> addr + pystr \<Rightarrow> int \<Rightarrow> exn option \<Rightarrow> client \<times> (addr \<times> nat) result" where
  "dial_begin st dst port d =
     (case (case dst of Inl a \<Rightarrow> Inr a | Inr s \<Rightarrow> addr_parse s) of
        Inl e \<Rightarrow> (st, Inl e)
      | Inr a \<Rightarrow>
          (let (st', r) = with_payload st (encode_dial a port) CMD_DIAL_OK d
           in (st', rmap (\<lambda>f. (a, f)) r)))"

definition dial_finish :: "client \<Rightarrow> addr \<Rightarrow> int \<Rightarrow> bytes \<Rightarrow> client \<times> stream result" where
  "dial_finish st dst port body =
     (case parse_dial_ok body of
        None \<Rightarrow> (st, Inl (PilotConnectionError (u ''dial: malformed cmdDialOK'')))
      | Some cid \<Rightarrow>
          (let (st', q) = register_recv_queue st cid
           in (st', Inr \<lparr>conn_id = cid, recv_q = q, stream_peer = Some (dst, port), stream_closed = False\<rparr>)))"

definition listen_begin :: "client \<Rightarrow> int \<Rightarrow> exn option \<Rightarrow> client \<times> nat result" where
  "listen_begin st port d = with_payload st (encode_bind port) CMD_BIND_OK d"

definition listen_finish :: "client \<Rightarrow> bytes \<Rightarrow> client \<times> listener result" where
  "listen_finish st body =
     (case parse_bind_ok body of
        None \<Rightarrow> (st, Inl (PilotConnectionError (u ''bind: malformed cmdBindOK'')))
      | Some bound \<Rightarrow>
          (let q = length (accept_qs st)
           in (st\<lparr>accept_qs := accept_qs st @ [[]],
                  listener_accept_queues := dict_set (listener_accept_queues st) bound q\<rparr>,
               Inr \<lparr>listener_port = bound, accept_q = q, listener_closed = False\<rparr>)))"

text \<open>\<^verbatim>\<open>Listener.accept\<close>; \<open>None\<close> while the queue is empty (then a timeout raises, with no effect).\<close>

definition listener_accept :: "client \<Rightarrow> listener \<Rightarrow> (client \<times> stream) option" where
  "listener_accept st l =
     (case accept_qs st ! accept_q l of
        [] \<Rightarrow> None
      | a # as \<Rightarrow>
          (let (st', q) = register_recv_queue
                 (st\<lparr>accept_qs := (accept_qs st)[accept_q l := as]\<rparr>) (acc_conn_id a)
           in Some (st', \<lparr>conn_id = acc_conn_id a, recv_q = q,
                          stream_peer = Some (remote_addr a, remote_port a), stream_closed = False\<rparr>)))"

definition listener_close :: "client \<Rightarrow> listener \<Rightarrow> client \<times> listener" where
  "listener_close st l =
     (if listener_closed l then (st, l)
      else (st\<lparr>listener_accept_queues := dict_del (listener_accept_queues st) (listener_port l)\<rparr>,
            l\<lparr>listener_closed := True\<rparr>))"

text \<open>\<^verbatim>\<open>Stream.write\<close>: \<open>drain i\<close> is what awaiting the write of the chunk at offset \<open>i\<close> raises.\<close>

lemma MAX_SEND_CHUNK_pos: "0 < MAX_SEND_CHUNK"
  by (simp add: MAX_SEND_CHUNK_def MAX_MESSAGE_SIZE_def)

function write_loop :: "client \<Rightarrow> int \<Rightarrow> bytes \<Rightarrow> nat \<Rightarrow> (nat \<Rightarrow> exn option) \<Rightarrow> client \<times> unit result" where
  "write_loop st cid data i drain =
     (if length data \<le> i then (st, Inr ())
      else (case encode_send cid (take MAX_SEND_CHUNK (drop i data)) of
              Inl e \<Rightarrow> (st, Inl e)
            | Inr p \<Rightarrow>
                (case send_raw st p (drain i) of
                   (st', Inl e) \<Rightarrow> (st', Inl e)
                 | (st', Inr _) \<Rightarrow> write_loop st' cid data (i + MAX_SEND_CHUNK) drain)))"
  by pat_completeness auto
termination
  using MAX_SEND_CHUNK_pos
  by (relation "measure (\<lambda>(st, cid, data, i, drain). length data - i)") auto

declare write_loop.simps [simp del]

definition stream_write :: "client \<Rightarrow> stream \<Rightarrow> bytes \<Rightarrow> (nat \<Rightarrow> exn option) \<Rightarrow> client \<times> unit result" where
  "stream_write st s data drain =
     (if stream_closed s then (st, Inl (PilotConnectionError (u ''stream closed'')))
      else write_loop st (conn_id s) data 0 drain)"

text \<open>\<^verbatim>\<open>Stream.read\<close>; \<open>None\<close> while the queue is empty. \<^verbatim>\<open>b""\<close> stands for end of file.\<close>

definition stream_read :: "client \<Rightarrow> stream \<Rightarrow> (bytes \<times> client) option" where
  "stream_read st s =
     (case recv_qs st ! recv_q s of
        [] \<Rightarrow> None
      | x # xs \<Rightarrow>
          Some (case x of None \<Rightarrow> [] | Some d \<Rightarrow> d, st\<lparr>recv_qs := (recv_qs st)[recv_q s := xs]\<rparr>))"

text \<open>\<^verbatim>\<open>read_until_eof\<close> on the items the queue delivers; \<open>None\<close> when they run out before the end.\<close>

fun until_eof :: "bytes option list \<Rightarrow> bytes list \<Rightarrow> (bytes \<times> bytes option list) option" where
  "until_eof [] chunks = None"
| "until_eof (x # xs) chunks =
     (case x of
        None \<Rightarrow> Some (concat chunks, xs)
      | Some d \<Rightarrow> if d = [] then Some (concat chunks, xs) else until_eof xs (chunks @ [d]))"

definition read_until_eof :: "client \<Rightarrow> stream \<Rightarrow> (bytes \<times> client) option" where
  "read_until_eof st s =
     map_option (\<lambda>(b, xs). (b, st\<lparr>recv_qs := (recv_qs st)[recv_q s := xs]\<rparr>))
       (until_eof (recv_qs st ! recv_q s) [])"

definition stream_close :: "client \<Rightarrow> stream \<Rightarrow> exn option \<Rightarrow> client \<times> stream" where
  "stream_close st s drain =
     (if stream_closed s then (st, s)
      else (let st' = (case encode_close (conn_id s) of Inl _ \<Rightarrow> st | Inr p \<Rightarrow> fst (send_raw st p drain))
            in (st'\<lparr>stream_recv_queues := dict_del (stream_recv_queues st') (conn_id s)\<rparr>,
                s\<lparr>stream_closed := True\<rparr>)))"

definition send_to :: "client \<Rightarrow> addr + pystr \<Rightarrow> int \<Rightarrow> bytes + pystr \<Rightarrow> exn option \<Rightarrow> client \<times> unit result" where
  "send_to st dst port dat drain =
     (case rbind (case dst of Inl a \<Rightarrow> Inr a | Inr s \<Rightarrow> addr_parse s) (\<lambda>a.
           rbind (case dat of Inl b \<Rightarrow> Inr b | Inr s \<Rightarrow> utf8_encode s) (\<lambda>b.
           encode_send_to a port b)) of
        Inl e \<Rightarrow> (st, Inl e)
      | Inr p \<Rightarrow> send_raw st p drain)"

definition subscription_enter :: "client \<Rightarrow> int \<Rightarrow> client \<times> nat" where
  "subscription_enter st port =
     (let q = length (dgram_qs st)
      in (st\<lparr>dgram_qs := dgram_qs st @ [[]],
             port_dgram_queues := dict_set (port_dgram_queues st) port
               ((case dict_get (port_dgram_queues st) port of None \<Rightarrow> [] | Some l \<Rightarrow> l) @ [q])\<rparr>, q))"

definition subscription_exit :: "client \<Rightarrow> int \<Rightarrow> nat \<Rightarrow> client" where
  "subscription_exit st port q =
     st\<lparr>port_dgram_queues := dict_set (port_dgram_queues st) port
          (remove1 q (case dict_get (port_dgram_queues st) port of None \<Rightarrow> [] | Some l \<Rightarrow> l))\<rparr>"

end
