(* ===== verification/Client_Steps.thy ===== *)
theory Client_Steps
  imports Client
begin

text \<open>
  The interleavings of the connection's operations as a step relation, what a step does to the
  waiter queues, and the invariant of the waiters: a future waits in at most one queue, and a
  pending future waits in one.
\<close>

section \<open>Interleavings\<close>

datatype label =
    LFrame byte bytes
  | LRequest byte nat
  | LRequestFail byte
  | LTimeout byte nat
  | LCancel nat
  | LRegister int nat
  | LRead nat "bytes option"
  | LStreamClose int
  | LEof
  | LOther

text \<open>
  One step of the connection: a frame read by the loop, or the next piece of one of the
  coroutines that use it. The frames may still arrive between \<^verbatim>\<open>close_begin\<close> and
  \<^verbatim>\<open>close_finish\<close>, where the reader task is cancelled.
\<close>

inductive client_step :: "client \<Rightarrow> label \<Rightarrow> client \<Rightarrow> bool" where
  frame: "\<not> reader_done st \<Longrightarrow> dispatch st c p = Inr st' \<Longrightarrow> client_step st (LFrame c p) st'"
| request: "request_begin st payload c d = (st', Inr f) \<Longrightarrow> client_step st (LRequest c f) st'"
| request_fail: "request_begin st payload c d = (st', Inl e) \<Longrightarrow> client_step st (LRequestFail c) st'"
| timeout: "f < length (futs st) \<Longrightarrow> futs st ! f = FPending \<Longrightarrow> f \<in> set (waiters_of st c) \<Longrightarrow>
    client_step st (LTimeout c f) (request_timeout st c f)"
| cancel: "f < length (futs st) \<Longrightarrow> client_step st (LCancel f) (request_cancel st f)"
| dial: "dial_finish st dst port body = (st', Inr s) \<Longrightarrow>
    client_step st (LRegister (conn_id s) (recv_q s)) st'"
| accept: "accept_q l < length (accept_qs st) \<Longrightarrow> listener_accept st l = Some (st', s) \<Longrightarrow>
    client_step st (LRegister (conn_id s) (recv_q s)) st'"
| listen: "listen_finish st body = (st', Inr l) \<Longrightarrow> client_step st LOther st'"
| listener_close: "listener_close st l = (st', l') \<Longrightarrow> client_step st LOther st'"
| stream_write: "stream_write st s data dr = (st', r) \<Longrightarrow> client_step st LOther st'"
| stream_read: "recv_q s < length (recv_qs st) \<Longrightarrow> recv_qs st ! recv_q s = x # xs \<Longrightarrow>
    stream_read st s = Some (b, st') \<Longrightarrow> client_step st (LRead (recv_q s) x) st'"
| stream_close: "\<not> stream_closed s \<Longrightarrow> stream_close st s d = (st', s') \<Longrightarrow>
    client_step st (LStreamClose (conn_id s)) st'"
| send_to: "send_to st dst port dat d = (st', r) \<Longrightarrow> client_step st LOther st'"
| sub_enter: "subscription_enter st port = (st', q) \<Longrightarrow> client_step st LOther st'"
| sub_exit: "client_step st LOther (subscription_exit st port q)"
| close_begin: "client_step st LOther (close_begin st)"
| close_finish: "conn_closed st \<Longrightarrow> client_step st LEof (close_finish st)"
| force_close: "\<not> conn_closed st \<Longrightarrow> client_step st LEof (force_close_sync st)"

inductive client_trace :: "label list \<Rightarrow> client \<Rightarrow> bool" where
  start: "client_trace [] client_init"
| step: "client_trace es st \<Longrightarrow> client_step st e st' \<Longrightarrow> client_trace (es @ [e]) st'"

inductive_cases trace_snocE: "client_trace (es @ [e]) st"

section \<open>Elementary facts\<close>

lemma length_put [simp]: "length (put q x h) = length h"
  by (simp add: put_def)

lemma put_nth: "q < length h \<Longrightarrow> put q x h ! r = (if r = q then h ! q @ [x] else h ! r)"
  by (simp add: put_def nth_list_update)

lemma length_settle [simp]: "length (settle f r fs) = length fs"
  by (simp add: settle_def)

lemma settle_nth:
  "f < length fs \<Longrightarrow> settle f r fs ! g = (if g = f \<and> fs ! f = FPending then r else fs ! g)"
  by (simp add: settle_def nth_list_update)

lemma settle_settled: "fs ! g \<noteq> FPending \<Longrightarrow> settle f r fs ! g = fs ! g"
  by (cases "g = f") (simp_all add: settle_def nth_list_update)

lemma send_raw_written: "send_raw st p d = (st', r) \<Longrightarrow> st' = st\<lparr>written := written st'\<rparr>"
  by (auto simp: send_raw_def send_raw_locked_def split: if_splits)

lemma written_trans:
  "st1 = st\<lparr>written := w\<rparr> \<Longrightarrow> st2 = st1\<lparr>written := written st2\<rparr> \<Longrightarrow> st2 = (st::client)\<lparr>written := written st2\<rparr>"
  by (metis client.surjective client.update_convs(13))

lemma write_loop_written: "write_loop st cid dat i dr = (st', r) \<Longrightarrow> st' = st\<lparr>written := written st'\<rparr>"
proof (induction st cid dat i dr rule: write_loop.induct)
  case (1 st cid dat i dr)
  show ?case
  proof (cases "length dat \<le> i")
    case True
    then show ?thesis using "1.prems" by (auto simp: write_loop.simps [of st])
  next
    case False
    show ?thesis
    proof (cases "encode_send cid (take MAX_SEND_CHUNK (drop i dat))")
      case (Inl e)
      then show ?thesis using False "1.prems" by (auto simp: write_loop.simps [of st])
    next
      case (Inr p)
      obtain st1 x where s: "send_raw st p (dr i) = (st1, x)" by (cases "send_raw st p (dr i)")
      note w = send_raw_written [OF s]
      show ?thesis
      proof (cases x)
        case (Inl e)
        then show ?thesis using False Inr s w "1.prems" by (auto simp: write_loop.simps [of st])
      next
        case (Inr y)
        then have l: "write_loop st1 cid dat (i + MAX_SEND_CHUNK) dr = (st', r)"
          using False \<open>encode_send _ _ = Inr p\<close> s "1.prems" by (simp add: write_loop.simps [of st])
        have "st' = st1\<lparr>written := written st'\<rparr>"
          by (rule "1.IH" [OF _ \<open>encode_send _ _ = Inr p\<close> s [symmetric] _ l]) (use False Inr in auto)
        with w show ?thesis by (rule written_trans)
      qed
    qed
  qed
qed

lemma stream_write_written: "stream_write st s dat dr = (st', r) \<Longrightarrow> st' = st\<lparr>written := written st'\<rparr>"
  by (auto simp: stream_write_def dest: write_loop_written split: if_splits)

lemma send_to_written: "send_to st dst port dat d = (st', r) \<Longrightarrow> st' = st\<lparr>written := written st'\<rparr>"
  by (auto simp: send_to_def dest: send_raw_written split: sum.splits)

text \<open>Every request pushes one pending future at the end of its queue, whatever the transport does.\<close>

lemma request_begin_waiters:
  assumes "request_begin st payload c d = (st', r)"
  shows "futs st' = futs st @ [FPending]"
    "waiters st' = dict_set (waiters st) c (waiters_of st c @ [length (futs st)])"
    "stream_recv_queues st' = stream_recv_queues st" "pending_recv st' = pending_recv st"
    "recv_qs st' = recv_qs st" "r = Inr f \<Longrightarrow> f = length (futs st)"
  using assms
  by (auto simp: request_begin_def send_raw_locked_def Let_def split: if_splits option.splits)

lemma stream_close_frame:
  assumes "stream_close st s d = (st', s')" "\<not> stream_closed s"
  shows "waiters st' = waiters st" "futs st' = futs st"
    "stream_recv_queues st' = dict_del (stream_recv_queues st) (conn_id s)"
    "pending_recv st' = pending_recv st" "recv_qs st' = recv_qs st"
  using assms
  by (auto simp: stream_close_def Let_def send_raw_def send_raw_locked_def split: sum.splits if_splits)

text \<open>The part of the state that a registration changes.\<close>

lemma register_state:
  assumes "register_recv_queue st cid = (st', q)"
  shows "st' = st\<lparr>stream_recv_queues := dict_set (stream_recv_queues st) cid (length (recv_qs st)),
      pending_recv := dict_del (pending_recv st) cid,
      recv_qs := recv_qs st @ [case dict_get (pending_recv st) cid of None \<Rightarrow> [] | Some l \<Rightarrow> l]\<rparr>"
    "q = length (recv_qs st)"
  using assms by (auto simp: register_recv_queue_def Let_def)

section \<open>The waiter queues\<close>

lemma written_only:
  assumes "st' = (st :: client)\<lparr>written := w\<rparr>"
  shows "waiters st' = waiters st" "futs st' = futs st" "stream_recv_queues st' = stream_recv_queues st"
    "pending_recv st' = pending_recv st" "recv_qs st' = recv_qs st"
  by (simp_all add: assms)

definition push_cmds :: "byte set" where
  "push_cmds = {CMD_RECV, CMD_ACCEPT, CMD_RECV_FROM}"

lemma waiters_of_set [simp]:
  "waiters_of (st\<lparr>waiters := dict_set (waiters st) c q\<rparr>) c' = (if c' = c then q else waiters_of st c')"
  by (simp add: waiters_of_def)

lemma waiters_of_cong: "waiters st = waiters st' \<Longrightarrow> waiters_of st = waiters_of st'"
  by (simp add: waiters_of_def fun_eq_iff)

lemma waiters_of_updates [simp]:
  "waiters_of (st\<lparr>futs := x\<rparr>) = waiters_of st"
  "waiters_of (st\<lparr>written := w\<rparr>) = waiters_of st"
  by (simp_all add: waiters_of_def fun_eq_iff)

lemma deliver_to_waiter_Nil: "waiters_of st c = [] \<Longrightarrow> deliver_to_waiter st c p = st"
  by (auto simp: deliver_to_waiter_def waiters_of_def split: option.splits list.splits)

lemma deliver_to_waiter_Cons:
  "waiters_of st c = f # fs \<Longrightarrow> deliver_to_waiter st c p =
    st\<lparr>waiters := dict_set (waiters st) c fs, futs := settle f (FResult p) (futs st)\<rparr>"
  by (auto simp: deliver_to_waiter_def waiters_of_def split: option.splits list.splits)

lemma on_close_ok_waiters: "waiters (on_close_ok st p) = waiters st" "futs (on_close_ok st p) = futs st"
  by (auto simp: on_close_ok_def pend_item_def split: option.splits)

lemma dispatch_push:
  assumes "dispatch st c p = Inr st'" "c \<in> push_cmds"
  shows "waiters st' = waiters st \<and> futs st' = futs st"
  using assms
  by (auto simp: dispatch_def push_cmds_def on_recv_def on_accept_def on_recv_from_def pend_item_def
      CMD_RECV_def CMD_ACCEPT_def CMD_RECV_FROM_def CMD_CLOSE_OK_def result_simps
      split: if_splits option.splits)

lemma dispatch_reply:
  assumes "dispatch st c p = Inr st'" "c \<notin> push_cmds" "c \<noteq> CMD_ERROR"
  shows "waiters st' = waiters (deliver_to_waiter st c p) \<and> futs st' = futs (deliver_to_waiter st c p)"
  using assms
  by (auto simp: dispatch_def push_cmds_def deliver_to_waiter_def on_close_ok_waiters
      split: if_splits option.splits list.splits)

lemma dispatch_error: "dispatch st CMD_ERROR p = Inr (fail_oldest_waiter st (parse_error p))"
  by (simp add: dispatch_def CMD_ERROR_def CMD_RECV_def CMD_ACCEPT_def CMD_CLOSE_OK_def CMD_RECV_FROM_def)

text \<open>\<^verbatim>\<open>_fail_oldest_waiter\<close> pops the head of one non-empty queue.\<close>

lemma fail_oldest_waiter_cases:
  assumes "distinct (dict_keys (waiters st))"
  obtains "fail_oldest_waiter st e = st" "\<And>c. waiters_of st c = []"
  | c f fs where "waiters_of st c = f # fs"
      "fail_oldest_waiter st e = st\<lparr>waiters := dict_set (waiters st) c fs,
        futs := settle f (FException (PilotConnectionError (u ''daemon: '' @ e))) (futs st)\<rparr>"
proof (cases "filter (\<lambda>(c, q). q \<noteq> []) (waiters st)")
  case Nil
  then have "waiters_of st c = []" for c
    by (auto simp: waiters_of_def filter_empty_conv dest!: dict_get_Some_in split: option.splits)
  with that(1) Nil show ?thesis by (simp add: fail_oldest_waiter_def)
next
  case (Cons a as)
  obtain c q where a: "a = (c, q)" by (cases a)
  then have "(c, q) \<in> set (filter (\<lambda>(c, q). q \<noteq> []) (waiters st))" by (simp add: Cons)
  then have m: "(c, q) \<in> set (waiters st)" "q \<noteq> []" by auto
  then obtain f fs where q: "q = f # fs" by (cases q) auto
  have "dict_get (waiters st) c = Some q"
    using assms m(1) by (simp add: dict_get_def dict_keys_def)
  with that(2) [of c f fs] Cons a q show ?thesis
    by (simp add: fail_oldest_waiter_def waiters_of_def)
qed

definition waiter_inv :: "client \<Rightarrow> bool" where
  "waiter_inv st \<longleftrightarrow>
     distinct (dict_keys (waiters st)) \<and>
     (\<forall>c. distinct (waiters_of st c)) \<and>
     (\<forall>c c' f. f \<in> set (waiters_of st c) \<and> f \<in> set (waiters_of st c') \<longrightarrow> c = c') \<and>
     (\<forall>c f. f \<in> set (waiters_of st c) \<longrightarrow> f < length (futs st)) \<and>
     (\<forall>f < length (futs st). futs st ! f = FPending \<longrightarrow> (\<exists>c. f \<in> set (waiters_of st c)))"

lemma waiter_invD:
  assumes "waiter_inv st"
  shows "distinct (dict_keys (waiters st))" "distinct (waiters_of st c)"
    "f \<in> set (waiters_of st c) \<Longrightarrow> f \<in> set (waiters_of st c') \<Longrightarrow> c = c'"
    "f \<in> set (waiters_of st c) \<Longrightarrow> f < length (futs st)"
    "f < length (futs st) \<Longrightarrow> futs st ! f = FPending \<Longrightarrow> \<exists>c. f \<in> set (waiters_of st c)"
  using assms unfolding waiter_inv_def by blast+

lemma waiter_inv_cong: "waiters st = waiters st' \<Longrightarrow> futs st = futs st' \<Longrightarrow> waiter_inv st = waiter_inv st'"
  by (simp add: waiter_inv_def waiters_of_def)

lemma waiter_inv_init: "waiter_inv client_init"
  by (simp add: waiter_inv_def client_init_def waiters_of_def dict_keys_def)

text \<open>Queues that only lose elements keep the invariant when what they lose is settled.\<close>

lemma waiter_inv_shrink:
  assumes inv: "waiter_inv st" and "distinct (dict_keys (waiters st'))"
    and "\<And>c. distinct (waiters_of st' c)" "\<And>c. set (waiters_of st' c) \<subseteq> set (waiters_of st c)"
    and "length (futs st') = length (futs st)"
    and "\<And>g. g < length (futs st) \<Longrightarrow> futs st' ! g = FPending \<Longrightarrow>
      futs st ! g = FPending \<and> (\<forall>c. g \<in> set (waiters_of st c) \<longrightarrow> g \<in> set (waiters_of st' c))"
  shows "waiter_inv st'"
  unfolding waiter_inv_def
proof (intro conjI allI impI)
  fix c c' f assume "f \<in> set (waiters_of st' c) \<and> f \<in> set (waiters_of st' c')"
  with assms(4) show "c = c'" using waiter_invD(3) [OF inv] by blast
next
  fix c f assume "f \<in> set (waiters_of st' c)"
  with assms(4,5) show "f < length (futs st')" using waiter_invD(4) [OF inv] by fastforce
next
  fix f assume f: "f < length (futs st')" "futs st' ! f = FPending"
  then obtain c where "f \<in> set (waiters_of st c)" using waiter_invD(5) [OF inv] assms(5,6) by metis
  with f assms(5,6) show "\<exists>c. f \<in> set (waiters_of st' c)" by metis
qed (use assms in auto)

lemma waiter_inv_pop:
  assumes inv: "waiter_inv st" and q: "waiters_of st c = f # fs" and r: "r \<noteq> FPending"
  shows "waiter_inv (st\<lparr>waiters := dict_set (waiters st) c fs, futs := settle f r (futs st)\<rparr>)"
    (is "waiter_inv ?st")
proof (rule waiter_inv_shrink [OF inv])
  have f: "f < length (futs st)" by (rule waiter_invD(4) [OF inv, of f c]) (simp add: q)
  show "distinct (waiters_of ?st c')" for c'
    using waiter_invD(2) [OF inv, of c] waiter_invD(2) [OF inv, of c'] by (simp add: q)
  show "set (waiters_of ?st c') \<subseteq> set (waiters_of st c')" for c' by (auto simp: q)
  fix g assume "g < length (futs st)" "futs ?st ! g = FPending"
  then have "g \<noteq> f" "futs st ! g = FPending" using r f by (auto simp: settle_nth split: if_splits)
  then show "futs st ! g = FPending \<and> (\<forall>c'. g \<in> set (waiters_of st c') \<longrightarrow> g \<in> set (waiters_of ?st c'))"
    by (auto simp: q)
qed (use waiter_invD(1) [OF inv] in simp_all)

lemma waiter_inv_push:
  assumes inv: "waiter_inv st"
  shows "waiter_inv (st\<lparr>futs := futs st @ [FPending],
      waiters := dict_set (waiters st) c (waiters_of st c @ [length (futs st)]), written := w\<rparr>)"
proof -
  have n: "length (futs st) \<notin> set (waiters_of st c')" for c' using waiter_invD(4) [OF inv] by blast
  have l: "g \<in> set (waiters_of st c') \<Longrightarrow> g < length (futs st)" for g c' using inv by (auto simp: waiter_inv_def)
  let ?st = "st\<lparr>futs := futs st @ [FPending],
      waiters := dict_set (waiters st) c (waiters_of st c @ [length (futs st)]), written := w\<rparr>"
  have wo: "waiters_of ?st c' = (if c' = c then waiters_of st c @ [length (futs st)] else waiters_of st c')" for c'
    by (simp add: waiters_of_def)
  show ?thesis
    unfolding waiter_inv_def
  proof (intro conjI allI impI)
    fix g assume "g < length (futs ?st)" "futs ?st ! g = FPending"
    then have "g = length (futs st) \<or> (g < length (futs st) \<and> futs st ! g = FPending)"
      by (auto simp: nth_append split: if_splits)
    then show "\<exists>c'. g \<in> set (waiters_of ?st c')"
    proof
      assume "g < length (futs st) \<and> futs st ! g = FPending"
      then obtain c' where "g \<in> set (waiters_of st c')" using inv by (auto simp: waiter_inv_def)
      then have "g \<in> set (waiters_of ?st c')" unfolding wo by auto
      then show ?thesis ..
    next
      assume "g = length (futs st)"
      then have "g \<in> set (waiters_of ?st c)" unfolding wo by simp
      then show ?thesis ..
    qed
  next
    show "distinct (dict_keys (waiters ?st))" using inv by (simp add: waiter_inv_def)
    fix c1 show "distinct (waiters_of ?st c1)"
      using waiter_invD(2) [OF inv] n unfolding wo by simp
    fix c2 f
    show "f \<in> set (waiters_of ?st c1) \<Longrightarrow> f < length (futs ?st)" using l unfolding wo by (auto simp: less_Suc_eq split: if_splits)
    show "f \<in> set (waiters_of ?st c1) \<and> f \<in> set (waiters_of ?st c2) \<Longrightarrow> c1 = c2"
      using waiter_invD(3) [OF inv, of f] n unfolding wo by (auto split: if_splits)
  qed
qed

lemma waiter_inv_cancel:
  "waiter_inv st \<Longrightarrow> f < length (futs st) \<Longrightarrow> waiter_inv (request_cancel st f)"
  by (auto simp: waiter_inv_def request_cancel_def settle_nth)

lemma waiter_inv_timeout:
  assumes inv: "waiter_inv st" and f: "f < length (futs st)"
  shows "waiter_inv (request_timeout st c f)"
proof (rule waiter_inv_shrink [OF inv])
  have wo: "waiters_of (request_timeout st c f) c' = (if c' = c then remove1 f (waiters_of st c) else waiters_of st c')" for c'
    by (simp add: request_timeout_def waiters_of_def)
  have fu: "futs (request_timeout st c f) = settle f FCancelled (futs st)"
    by (simp add: request_timeout_def)
  show "distinct (waiters_of (request_timeout st c f) c')" for c'
    using waiter_invD(2) [OF inv] by (simp add: wo)
  show "set (waiters_of (request_timeout st c f) c') \<subseteq> set (waiters_of st c')" for c'
    using set_remove1_subset [of f "waiters_of st c"] by (simp add: wo)
  fix g assume "g < length (futs st)" "futs (request_timeout st c f) ! g = FPending"
  then have "g \<noteq> f" "futs st ! g = FPending" using f by (auto simp: fu settle_nth split: if_splits)
  then show "futs st ! g = FPending \<and>
      (\<forall>c'. g \<in> set (waiters_of st c') \<longrightarrow> g \<in> set (waiters_of (request_timeout st c f) c'))"
    by (auto simp: wo)
qed (use waiter_invD(1) [OF inv] in \<open>simp_all add: request_timeout_def\<close>)

text \<open>After \<^verbatim>\<open>close()\<close> has failed the waiters nothing is queued and nothing is pending.\<close>

lemma settle_all:
  assumes "\<forall>f \<in> set l. f < length fs" "r \<noteq> FPending"
  shows "length (foldl (\<lambda>fs f. settle f r fs) fs l) = length fs"
    "foldl (\<lambda>fs f. settle f r fs) fs l ! g = (if g \<in> set l \<and> fs ! g = FPending then r else fs ! g)"
  using assms by (induction l arbitrary: fs) (auto simp: settle_nth)

lemma queued_waiters_of:
  assumes d: "distinct (dict_keys (waiters st))"
  shows "f \<in> set (concat (map snd (waiters st))) \<longleftrightarrow> (\<exists>c. f \<in> set (waiters_of st c))"
proof
  assume "f \<in> set (concat (map snd (waiters st)))"
  then obtain c q where "(c, q) \<in> set (waiters st)" "f \<in> set q" by auto
  with d have "f \<in> set (waiters_of st c)" by (simp add: waiters_of_def dict_get_def dict_keys_def)
  then show "\<exists>c. f \<in> set (waiters_of st c)" ..
next
  assume "\<exists>c. f \<in> set (waiters_of st c)"
  then obtain c where c: "f \<in> set (waiters_of st c)" ..
  then obtain q where "dict_get (waiters st) c = Some q" "f \<in> set q"
    by (cases "dict_get (waiters st) c") (auto simp: waiters_of_def)
  then show "f \<in> set (concat (map snd (waiters st)))" by (force dest: dict_get_Some_in)
qed

lemma fail_all_facts:
  assumes inv: "waiter_inv st"
  shows "waiters_of (fail_all st) c = []" "length (futs (fail_all st)) = length (futs st)"
    "futs (fail_all st) ! f = (if f < length (futs st) \<and> futs st ! f = FPending
       then FException (PilotConnectionError (u ''connection closed'')) else futs st ! f)"
    "waiter_inv (fail_all st)"
proof -
  let ?l = "concat (map snd (waiters st))"
  have k: "distinct (dict_keys (waiters st))" using inv by (simp add: waiter_inv_def)
  have l: "\<forall>f \<in> set ?l. f < length (futs st)"
    using waiter_invD(4) [OF inv] queued_waiters_of [OF k] by blast
  have p: "f < length (futs st) \<Longrightarrow> futs st ! f = FPending \<Longrightarrow> f \<in> set ?l" for f
    using waiter_invD(5) [OF inv] queued_waiters_of [OF k] by blast
  show wo: "waiters_of (fail_all st) c = []" for c
  proof -
    have "dict_get (map (\<lambda>(c, q). (c, [] :: nat list)) ws) c \<in> {None, Some []}" for ws :: "(byte \<times> nat list) list"
      by (induction ws) (auto simp: dict_get_def)
    from this [of "waiters st"] show ?thesis
      by (auto simp: fail_all_def waiters_of_def)
  qed
  show len: "length (futs (fail_all st)) = length (futs st)"
    using l by (simp add: fail_all_def settle_all)
  show nth: "futs (fail_all st) ! f = (if f < length (futs st) \<and> futs st ! f = FPending
       then FException (PilotConnectionError (u ''connection closed'')) else futs st ! f)" for f
    using l p [of f] by (auto simp: fail_all_def settle_all)
  have "dict_keys (waiters (fail_all st)) = dict_keys (waiters st)"
    by (auto simp: fail_all_def dict_keys_def)
  with k have "distinct (dict_keys (waiters (fail_all st)))" by simp
  then show "waiter_inv (fail_all st)" by (auto simp: waiter_inv_def wo len nth)
qed

text \<open>Every step keeps the invariant of the waiters.\<close>

lemma dispatch_waiter_inv:
  assumes inv: "waiter_inv st" and d: "dispatch st c p = Inr st'" shows "waiter_inv st'"
proof -
  consider "c \<in> push_cmds" | "c = CMD_ERROR" | "c \<notin> push_cmds" "c \<noteq> CMD_ERROR" by blast
  then show ?thesis
  proof cases
    case 1
    with dispatch_push [OF d] inv show ?thesis using waiter_inv_cong [of st' st] by simp
  next
    case 2
    with d dispatch_error have st': "st' = fail_oldest_waiter st (parse_error p)" by simp
    show ?thesis
      unfolding st'
      by (rule fail_oldest_waiter_cases [OF waiter_invD(1) [OF inv], of "parse_error p"])
        (use inv in \<open>simp_all add: waiter_inv_pop\<close>)
  next
    case 3
    have "waiter_inv (deliver_to_waiter st c p)"
      using inv by (cases "waiters_of st c")
        (simp_all add: deliver_to_waiter_Nil deliver_to_waiter_Cons waiter_inv_pop)
    with dispatch_reply [OF d 3] show ?thesis using waiter_inv_cong by blast
  qed
qed

lemma waiter_inv_written [simp]: "waiter_inv (st\<lparr>written := w\<rparr>) = waiter_inv st"
  by (rule waiter_inv_cong) simp_all

text \<open>What a step may do to the waiters, by its label.\<close>

definition waiter_effect :: "client \<Rightarrow> label \<Rightarrow> client \<Rightarrow> bool" where
  "waiter_effect st e st' \<longleftrightarrow>
     (case e of
        LFrame c p \<Rightarrow> dispatch st c p = Inr st'
      | LRequest c f \<Rightarrow> f = length (futs st) \<and> futs st' = futs st @ [FPending] \<and>
          waiters st' = dict_set (waiters st) c (waiters_of st c @ [f])
      | LRequestFail c \<Rightarrow> futs st' = futs st @ [FPending] \<and>
          waiters st' = dict_set (waiters st) c (waiters_of st c @ [length (futs st)])
      | LTimeout c f \<Rightarrow> f < length (futs st) \<and> st' = request_timeout st c f
      | LCancel f \<Rightarrow> f < length (futs st) \<and> st' = request_cancel st f
      | LEof \<Rightarrow> waiters st' = waiters st \<and> futs st' = futs st \<or>
          waiters st' = waiters (fail_all st) \<and> futs st' = futs (fail_all st)
      | _ \<Rightarrow> waiters st' = waiters st \<and> futs st' = futs st)"

lemma client_step_waiters:
  assumes "client_step st e st'" shows "waiter_effect st e st'"
  using assms
proof cases
  case (request payload c d f)
  then show ?thesis
    using request_begin_waiters [OF request(2)] by (simp add: waiter_effect_def)
next
  case (stream_close s d s')
  with stream_close_frame [OF this(3,2)] show ?thesis by (simp add: waiter_effect_def)
next
  case (dial dst port body s)
  then show ?thesis
    by (auto simp: waiter_effect_def dial_finish_def register_recv_queue_def Let_def split: option.splits)
next
  case (accept l s)
  then show ?thesis
    by (auto simp: waiter_effect_def listener_accept_def register_recv_queue_def Let_def split: list.splits)
next
  case (listen body l)
  then show ?thesis by (auto simp: waiter_effect_def listen_finish_def Let_def split: option.splits)
next
  case (stream_write s dat dr r)
  with written_only(1,2) [OF stream_write_written [OF this(2)]] show ?thesis by (simp add: waiter_effect_def)
next
  case (send_to dst port dat d r)
  with written_only(1,2) [OF send_to_written [OF this(2)]] show ?thesis by (simp add: waiter_effect_def)
next
  case (listener_close l l')
  then show ?thesis by (auto simp: waiter_effect_def listener_close_def split: if_splits)
next
  case (request_fail payload c d x)
  then show ?thesis
    using request_begin_waiters [OF request_fail(2)] by (simp add: waiter_effect_def)
qed (auto simp: waiter_effect_def stream_read_def subscription_enter_def subscription_exit_def
    close_begin_def close_finish_def force_close_sync_def eof_all_def fail_all_def Let_def)

lemma client_step_waiter_inv:
  assumes "client_step st e st'" and inv: "waiter_inv st" shows "waiter_inv st'"
proof -
  note eff = client_step_waiters [OF assms(1), unfolded waiter_effect_def]
  have push: "futs st' = futs st @ [FPending] \<Longrightarrow>
      waiters st' = dict_set (waiters st) c (waiters_of st c @ [length (futs st)]) \<Longrightarrow> waiter_inv st'" for c
    by (rule waiter_inv_cong [THEN iffD2, OF _ _ waiter_inv_push [OF inv]]) simp_all
  have same: "waiters st' = waiters st \<Longrightarrow> futs st' = futs st \<Longrightarrow> waiter_inv st'"
    using inv waiter_inv_cong by blast
  show ?thesis
  proof (cases e)
    case (LFrame c p)
    with eff inv show ?thesis by (auto intro: dispatch_waiter_inv)
  next
    case LEof
    with eff consider "waiters st' = waiters st" "futs st' = futs st"
      | "waiters st' = waiters (fail_all st)" "futs st' = futs (fail_all st)" by auto
    then show ?thesis
      using same waiter_inv_cong [THEN iffD2, OF _ _ fail_all_facts(4) [OF inv], of st'] by cases blast+
  qed (use eff inv push same in \<open>auto intro: waiter_inv_timeout waiter_inv_cancel\<close>)
qed

lemma client_trace_waiter_inv: "client_trace es st \<Longrightarrow> waiter_inv st"
  by (induction rule: client_trace.induct) (auto intro: waiter_inv_init client_step_waiter_inv)

end
