(* ===== verification/Client_Order.thy ===== *)
theory Client_Order
  imports Client_Steps
begin

text \<open>
  In every interleaving without timeouts and errors, the replies of a command are the results of
  the requests that wait for it, in order.
\<close>

section \<open>Replies are matched in order\<close>

definition reqs :: "byte \<Rightarrow> label list \<Rightarrow> nat list" where
  "reqs c es = concat (map (\<lambda>e. case e of LRequest c' f \<Rightarrow> if c' = c then [f] else [] | _ \<Rightarrow> []) es)"

definition replies :: "byte \<Rightarrow> label list \<Rightarrow> bytes list" where
  "replies c es = concat (map (\<lambda>e. case e of LFrame c' p \<Rightarrow> if c' = c then [p] else [] | _ \<Rightarrow> []) es)"

text \<open>
  The daemon answers only what was asked: no command has had more replies than requests at any
  moment.
\<close>

definition solicited :: "byte \<Rightarrow> label list \<Rightarrow> bool" where
  "solicited c es \<longleftrightarrow> (\<forall>n \<le> length es. length (replies c (take n es)) \<le> length (reqs c (take n es)))"

text \<open>No step that takes a future out of its queue before its reply.\<close>

definition orderly :: "label \<Rightarrow> bool" where
  "orderly e \<longleftrightarrow>
     (case e of LFrame c p \<Rightarrow> c \<noteq> CMD_ERROR | LRequestFail c \<Rightarrow> False | LTimeout c f \<Rightarrow> False | LEof \<Rightarrow> False | _ \<Rightarrow> True)"

lemma reqs_snoc [simp]: "reqs c (es @ [e]) = reqs c es @ (case e of LRequest c' f \<Rightarrow> if c' = c then [f] else [] | _ \<Rightarrow> [])"
  by (simp add: reqs_def)

lemma replies_snoc [simp]: "replies c (es @ [e]) = replies c es @ (case e of LFrame c' p \<Rightarrow> if c' = c then [p] else [] | _ \<Rightarrow> [])"
  by (simp add: replies_def)

lemma solicited_snocD:
  "solicited c (es @ [e]) \<Longrightarrow> solicited c es"
  "solicited c (es @ [e]) \<Longrightarrow> length (replies c (es @ [e])) \<le> length (reqs c (es @ [e]))"
proof -
  assume s: "solicited c (es @ [e])"
  show "solicited c es"
    unfolding solicited_def
  proof (intro allI impI)
    fix n assume "n \<le> length es"
    with s show "length (replies c (take n es)) \<le> length (reqs c (take n es))"
      unfolding solicited_def by (force dest: spec [of _ n])
  qed
next
  assume "solicited c (es @ [e])"
  then show "length (replies c (es @ [e])) \<le> length (reqs c (es @ [e]))"
    unfolding solicited_def by (auto dest: spec [of _ "length (es @ [e])"])
qed

definition matched :: "byte \<Rightarrow> label list \<Rightarrow> client \<Rightarrow> bool" where
  "matched c es st \<longleftrightarrow>
     length (replies c es) \<le> length (reqs c es) \<and>
     waiters_of st c = drop (length (replies c es)) (reqs c es) \<and>
     (\<forall>i < length (replies c es).
        futs st ! (reqs c es ! i) = FResult (replies c es ! i) \<or>
        futs st ! (reqs c es ! i) = FCancelled \<and> LCancel (reqs c es ! i) \<in> set es) \<and>
     (\<forall>f \<in> set (waiters_of st c).
        futs st ! f = FPending \<or> futs st ! f = FCancelled \<and> LCancel f \<in> set es) \<and>
     (\<forall>f \<in> set (reqs c es). f < length (futs st))"

text \<open>A step that leaves the queue alone and settles no waiting future except by cancelling it.\<close>

lemma matched_keep:
  assumes m: "matched c es st" and r: "reqs c (es @ [e]) = reqs c es" "replies c (es @ [e]) = replies c es"
    and w: "waiters_of st' c = waiters_of st c" and l: "length (futs st) \<le> length (futs st')"
    and f: "\<And>f. f < length (futs st) \<Longrightarrow> futs st ! f \<noteq> FPending \<Longrightarrow> futs st' ! f = futs st ! f"
    and q: "\<And>f. f < length (futs st) \<Longrightarrow> f \<in> set (waiters_of st c) \<Longrightarrow> futs st ! f = FPending \<Longrightarrow>
       futs st' ! f = FPending \<or> futs st' ! f = FCancelled \<and> e = LCancel f"
  shows "matched c (es @ [e]) st'"
  unfolding matched_def r w
proof (intro conjI allI impI ballI)
  show "waiters_of st c = drop (length (replies c es)) (reqs c es)" using m by (simp add: matched_def)
  have lt: "f < length (futs st)" if "f \<in> set (reqs c es)" for f using m that by (simp add: matched_def)
  show "f < length (futs st')" if "f \<in> set (reqs c es)" for f using lt [OF that] l by simp
  have sub: "set (waiters_of st c) \<subseteq> set (reqs c es)"
    using m set_drop_subset [of "length (replies c es)" "reqs c es"] by (simp add: matched_def)
  fix f assume fq: "f \<in> set (waiters_of st c)"
  with m have "futs st ! f = FPending \<or> futs st ! f = FCancelled \<and> LCancel f \<in> set es"
    by (simp add: matched_def)
  then show "futs st' ! f = FPending \<or> futs st' ! f = FCancelled \<and> LCancel f \<in> set (es @ [e])"
    using q [OF lt fq] f [OF lt] fq sub by fastforce
next
  fix i assume i: "i < length (replies c es)"
  show "futs st' ! (reqs c es ! i) = FResult (replies c es ! i) \<or>
     futs st' ! (reqs c es ! i) = FCancelled \<and> LCancel (reqs c es ! i) \<in> set (es @ [e])"
  proof -
    have "i < length (reqs c es)" using m i by (simp add: matched_def)
    then have "reqs c es ! i < length (futs st)" using m by (simp add: matched_def)
    moreover have "futs st ! (reqs c es ! i) = FResult (replies c es ! i) \<or>
        futs st ! (reqs c es ! i) = FCancelled \<and> LCancel (reqs c es ! i) \<in> set es"
      using m i by (simp add: matched_def)
    ultimately show ?thesis using f by auto
  qed
next
  show "length (replies c es) \<le> length (reqs c es)" using m by (simp add: matched_def)
qed

text \<open>A new request joins the end of the queue.\<close>

lemma matched_request:
  assumes m: "matched c es st" and f: "futs st' = futs st @ [FPending]"
    and w: "waiters_of st' c = waiters_of st c @ [length (futs st)]"
  shows "matched c (es @ [LRequest c (length (futs st))]) st'"
proof -
  have lt: "f < length (futs st)" if "f \<in> set (reqs c es)" for f using m that by (simp add: matched_def)
  have le: "length (replies c es) \<le> length (reqs c es)" using m by (simp add: matched_def)
  have sub: "set (waiters_of st c) \<subseteq> set (reqs c es)"
    using m set_drop_subset [of "length (replies c es)" "reqs c es"] by (simp add: matched_def)
  have old: "futs st' ! f = futs st ! f" if "f \<in> set (reqs c es)" for f
    using lt [OF that] by (simp add: f nth_append)
  have i: "reqs c es ! i \<in> set (reqs c es)" if "i < length (replies c es)" for i
    using le that by simp
  show ?thesis
    unfolding matched_def w
  proof (intro conjI allI impI ballI)
    fix i assume "i < length (replies c (es @ [LRequest c (length (futs st))]))"
    then have l: "i < length (replies c es)" by simp
    then have n: "(reqs c es @ [length (futs st)]) ! i = reqs c es ! i" using le by (simp add: nth_append)
    show "futs st' ! (reqs c (es @ [LRequest c (length (futs st))]) ! i) =
        FResult (replies c (es @ [LRequest c (length (futs st))]) ! i) \<or>
      futs st' ! (reqs c (es @ [LRequest c (length (futs st))]) ! i) = FCancelled \<and>
        LCancel (reqs c (es @ [LRequest c (length (futs st))]) ! i) \<in> set (es @ [LRequest c (length (futs st))])"
      using m l old [OF i [OF l]] by (simp add: matched_def n)
  next
    fix g assume "g \<in> set (waiters_of st c @ [length (futs st)])"
    then show "futs st' ! g = FPending \<or> futs st' ! g = FCancelled \<and>
        LCancel g \<in> set (es @ [LRequest c (length (futs st))])"
    proof (cases "g = length (futs st)")
      case False
      with \<open>g \<in> _\<close> have g: "g \<in> set (waiters_of st c)" by simp
      then have "futs st' ! g = futs st ! g" using old sub by blast
      with g m show ?thesis by (auto simp: matched_def)
    qed (simp add: f)
  qed (use m le f in \<open>auto simp: matched_def\<close>)
qed

text \<open>A reply settles the future at the head of the queue.\<close>

lemma matched_reply:
  assumes m: "matched c es st" and inv: "waiter_inv st"
    and le: "length (replies c es) < length (reqs c es)"
    and w: "waiters st' = waiters (deliver_to_waiter st c p)" and fu: "futs st' = futs (deliver_to_waiter st c p)"
  shows "matched c (es @ [LFrame c p]) st'"
proof -
  let ?n = "length (replies c es)"
  define f where "f = reqs c es ! ?n"
  have q: "waiters_of st c = f # drop (Suc ?n) (reqs c es)"
    using m le by (simp add: matched_def f_def Cons_nth_drop_Suc)
  note d = deliver_to_waiter_Cons [OF q, of p]
  have w': "waiters_of st' c = drop (Suc ?n) (reqs c es)" using w by (simp add: d waiters_of_def)
  have f: "f < length (futs st)" using waiter_invD(4) [OF inv, of f c] q by simp
  have fn: "futs st' ! g = (if g = f \<and> futs st ! f = FPending then FResult p else futs st ! g)" for g
    using f by (simp add: fu d settle_nth)
  have nf: "f \<notin> set (drop (Suc ?n) (reqs c es))" using waiter_invD(2) [OF inv, of c] q by simp
  have ff: "futs st ! f = FPending \<or> futs st ! f = FCancelled \<and> LCancel f \<in> set es"
    using m q by (auto simp: matched_def)
  show ?thesis
    unfolding matched_def w'
  proof (intro conjI allI impI ballI)
    fix i assume "i < length (replies c (es @ [LFrame c p]))"
    then have "i = ?n \<or> i < ?n" by auto
    then show "futs st' ! (reqs c (es @ [LFrame c p]) ! i) = FResult (replies c (es @ [LFrame c p]) ! i) \<or>
      futs st' ! (reqs c (es @ [LFrame c p]) ! i) = FCancelled \<and>
        LCancel (reqs c (es @ [LFrame c p]) ! i) \<in> set (es @ [LFrame c p])"
    proof
      assume "i = ?n"
      then show ?thesis using ff by (auto simp: fn simp flip: f_def)
    next
      assume i: "i < ?n"
      with m have "futs st ! (reqs c es ! i) = FResult (replies c es ! i) \<or>
          futs st ! (reqs c es ! i) = FCancelled \<and> LCancel (reqs c es ! i) \<in> set es"
        by (simp add: matched_def)
      then show ?thesis using i by (auto simp: fn nth_append)
    qed
  next
    fix g assume "g \<in> set (drop (Suc ?n) (reqs c es))"
    with nf q m show "futs st' ! g = FPending \<or> futs st' ! g = FCancelled \<and> LCancel g \<in> set (es @ [LFrame c p])"
      by (auto simp: matched_def fn)
  qed (use m le fu d in \<open>auto simp: matched_def\<close>)
qed

lemma matched_frame_other:
  assumes m: "matched c es st" and inv: "waiter_inv st" and d: "dispatch st c' p = Inr st'"
    and c: "c' \<noteq> c" "c' \<noteq> CMD_ERROR"
  shows "matched c (es @ [LFrame c' p]) st'"
proof (cases "c' \<notin> push_cmds \<and> waiters_of st c' \<noteq> []")
  case False
  then have "waiters st' = waiters st \<and> futs st' = futs st"
    using dispatch_push [OF d] dispatch_reply [OF d _ c(2)]
    by (cases "c' \<in> push_cmds") (auto simp: deliver_to_waiter_Nil)
  then show ?thesis
    using c(1) by (intro matched_keep [OF m]) (auto simp: waiters_of_def)
next
  case True
  then obtain f fs where q: "waiters_of st c' = f # fs" by (cases "waiters_of st c'") auto
  note dw = dispatch_reply [OF d _ c(2)] deliver_to_waiter_Cons [OF q, of p]
  have f: "f < length (futs st)" "f \<notin> set (waiters_of st c)"
    using waiter_invD(3) [OF inv, of f c' c] waiter_invD(4) [OF inv, of f c'] q c(1) by auto
  show ?thesis
    by (rule matched_keep [OF m]) (use True dw f c(1) in \<open>auto simp: waiters_of_def settle_nth\<close>)
qed

lemma matched_step:
  assumes m: "matched c es st" and inv: "waiter_inv st" and s: "client_step st e st'" and o: "orderly e"
    and c: "c \<notin> push_cmds" "c \<noteq> CMD_ERROR"
    and sol: "length (replies c (es @ [e])) \<le> length (reqs c (es @ [e]))"
  shows "matched c (es @ [e]) st'"
proof -
  note eff = client_step_waiters [OF s, unfolded waiter_effect_def]
  have same: "matched c (es @ [e]) st'" if "waiters st' = waiters st" "futs st' = futs st"
    "reqs c (es @ [e]) = reqs c es" "replies c (es @ [e]) = replies c es"
    using that by (intro matched_keep [OF m]) (auto simp: waiters_of_def)
  show ?thesis
  proof (cases e)
    case (LFrame c' p)
    with eff have d: "dispatch st c' p = Inr st'" by simp
    show ?thesis
    proof (cases "c' = c")
      case True
      with sol LFrame have "length (replies c es) < length (reqs c es)" by simp
      from matched_reply [OF m inv this] dispatch_reply [OF d] c True LFrame show ?thesis by simp
    next
      case False
      with matched_frame_other [OF m inv d] o LFrame show ?thesis by (simp add: orderly_def)
    qed
  next
    case (LRequest c' f)
    with eff have e: "f = length (futs st)" "futs st' = futs st @ [FPending]"
      "waiters st' = dict_set (waiters st) c' (waiters_of st c' @ [f])" by auto
    show ?thesis
    proof (cases "c' = c")
      case True
      with matched_request [OF m e(2)] e LRequest show ?thesis by (simp add: waiters_of_def)
    next
      case False
      with LRequest e show ?thesis
        by (intro matched_keep [OF m]) (auto simp: waiters_of_def nth_append)
    qed
  next
    case (LCancel f)
    with eff show ?thesis
      by (intro matched_keep [OF m]) (auto simp: request_cancel_def settle_nth)
  qed (use o eff same in \<open>auto simp: orderly_def\<close>)
qed

lemma trace_matched:
  "client_trace es st \<Longrightarrow> list_all orderly es \<Longrightarrow> solicited c es \<Longrightarrow> c \<notin> push_cmds \<Longrightarrow> c \<noteq> CMD_ERROR \<Longrightarrow>
    matched c es st"
proof (induction rule: client_trace.induct)
  case start
  then show ?case by (simp add: matched_def reqs_def replies_def client_init_def waiters_of_def)
next
  case (step es st e st')
  show ?case
  proof (rule matched_step)
    show "matched c es st" using step solicited_snocD(1) by (simp add: list_all_iff) 
    show "waiter_inv st" by (rule client_trace_waiter_inv [OF step(1)])
  qed (use step solicited_snocD(2) in \<open>auto simp: list_all_iff\<close>)
qed

end
