(* ===== verification/Client_Streams.thy ===== *)
theory Client_Streams
  imports Client_Steps
begin

text \<open>
  What a step does to the stream queues, the invariant of the queue objects, and the delivery of
  what the daemon sends to the queue of the stream, whenever it is registered.
\<close>

lemma dict_del_absent: "dict_get d k = None \<Longrightarrow> dict_del d k = d"
  by (induction d) (auto simp: dict_get_def dict_del_def split: if_splits)

section \<open>What a step does to the streams\<close>

definition pend_of :: "client \<Rightarrow> int \<Rightarrow> bytes option list" where
  "pend_of st cid = (case dict_get (pending_recv st) cid of None \<Rightarrow> [] | Some l \<Rightarrow> l)"

text \<open>An item for a connection: where it goes when it arrives.\<close>

definition arrive :: "int \<Rightarrow> bytes option \<Rightarrow> client \<Rightarrow> client \<Rightarrow> bool" where
  "arrive cid x st st' \<longleftrightarrow>
     (case dict_get (stream_recv_queues st) cid of
        Some q \<Rightarrow> recv_qs st' = put q x (recv_qs st) \<and> pending_recv st' = pending_recv st
      | None \<Rightarrow> recv_qs st' = recv_qs st \<and>
          pending_recv st' = dict_set (pending_recv st) cid (pend_of st cid @ [x])) \<and>
     stream_recv_queues st' =
       (if x = None then dict_del (stream_recv_queues st) cid else stream_recv_queues st)"

definition same_streams :: "client \<Rightarrow> client \<Rightarrow> bool" where
  "same_streams st st' \<longleftrightarrow> stream_recv_queues st' = stream_recv_queues st \<and>
     pending_recv st' = pending_recv st \<and> recv_qs st' = recv_qs st"

definition item :: "label \<Rightarrow> (int \<times> bytes option) option" where
  "item e =
     (case e of
        LFrame c p \<Rightarrow>
          if c = CMD_RECV then map_option (\<lambda>(cid, d). (cid, Some d)) (parse_recv p)
          else if c = CMD_CLOSE_OK then map_option (\<lambda>cid. (cid, None)) (parse_close_ok p)
          else None
      | _ \<Rightarrow> None)"

definition stream_effect :: "client \<Rightarrow> label \<Rightarrow> client \<Rightarrow> bool" where
  "stream_effect st e st' \<longleftrightarrow>
     (case e of
        LFrame c p \<Rightarrow> (case item e of None \<Rightarrow> same_streams st st' | Some (cid, x) \<Rightarrow> arrive cid x st st')
      | LRegister cid q \<Rightarrow> q = length (recv_qs st) \<and>
          stream_recv_queues st' = dict_set (stream_recv_queues st) cid q \<and>
          pending_recv st' = dict_del (pending_recv st) cid \<and> recv_qs st' = recv_qs st @ [pend_of st cid]
      | LRead q x \<Rightarrow> q < length (recv_qs st) \<and>
          (\<exists>xs. recv_qs st ! q = x # xs \<and> recv_qs st' = (recv_qs st)[q := xs]) \<and>
          stream_recv_queues st' = stream_recv_queues st \<and> pending_recv st' = pending_recv st
      | LStreamClose cid \<Rightarrow> stream_recv_queues st' = dict_del (stream_recv_queues st) cid \<and>
          pending_recv st' = pending_recv st \<and> recv_qs st' = recv_qs st
      | LEof \<Rightarrow> stream_recv_queues st' = stream_recv_queues st \<and> pending_recv st' = pending_recv st \<and>
          recv_qs st' = foldl (\<lambda>h q. put q None h) (recv_qs st) (map snd (stream_recv_queues st))
      | _ \<Rightarrow> same_streams st st')"

lemma deliver_same_streams: "same_streams st (deliver_to_waiter st c p)"
  by (auto simp: same_streams_def deliver_to_waiter_def split: option.splits list.splits)

lemma fail_oldest_same_streams: "same_streams st (fail_oldest_waiter st e)"
  by (auto simp: same_streams_def fail_oldest_waiter_def split: list.splits)

lemma on_recv_arrive:
  "parse_recv p = Some (cid, d) \<Longrightarrow> arrive cid (Some d) st (on_recv st p)"
  by (auto simp: on_recv_def arrive_def pend_item_def pend_of_def split: option.splits)

lemma on_close_ok_arrive:
  "parse_close_ok p = Some cid \<Longrightarrow> arrive cid None st (on_close_ok st p)"
  by (cases "dict_get (stream_recv_queues st) cid")
    (auto simp: on_close_ok_def arrive_def pend_item_def pend_of_def dict_del_absent)

lemma arrive_then_same: "arrive cid x st st1 \<Longrightarrow> same_streams st1 st2 \<Longrightarrow> arrive cid x st st2"
  by (simp add: arrive_def same_streams_def split: option.splits)

lemma dispatch_streams:
  assumes d: "dispatch st c p = Inr st'" shows "stream_effect st (LFrame c p) st'"
proof -
  consider "c = CMD_RECV" | "c = CMD_CLOSE_OK" | "c \<noteq> CMD_RECV" "c \<noteq> CMD_CLOSE_OK" by blast
  then show ?thesis
  proof cases
    case 1
    with d have st': "st' = on_recv st p" by (simp add: dispatch_def)
    show ?thesis
      using on_recv_arrive [of p _ _ st]
      by (cases "parse_recv p") (auto simp: stream_effect_def item_def 1 st' same_streams_def on_recv_def)
  next
    case 2
    with d have st': "st' = deliver_to_waiter (on_close_ok st p) c p"
      by (simp add: dispatch_def CMD_RECV_def CMD_ACCEPT_def CMD_CLOSE_OK_def)
    have n: "CMD_CLOSE_OK \<noteq> CMD_RECV" by (simp add: CMD_RECV_def CMD_CLOSE_OK_def)
    show ?thesis
    proof (cases "parse_close_ok p")
      case None
      then show ?thesis
        using deliver_same_streams [of st c p]
        by (simp add: stream_effect_def item_def 2 n st' on_close_ok_def)
    next
      case (Some cid)
      with arrive_then_same [OF on_close_ok_arrive deliver_same_streams] show ?thesis
        by (simp add: stream_effect_def item_def 2 n st')
    qed
  next
    case 3
    with d have "same_streams st st'"
      by (auto simp: dispatch_def deliver_same_streams fail_oldest_same_streams on_accept_def
          on_recv_from_def result_simps split: if_splits option.splits) (auto simp: same_streams_def split: option.splits)
    with 3 show ?thesis by (simp add: stream_effect_def item_def)
  qed
qed

lemma client_step_streams:
  assumes "client_step st e st'" shows "stream_effect st e st'"
  using assms
proof cases
  case (frame c p)
  then show ?thesis by (simp add: dispatch_streams)
next
  case (request payload c d f)
  then show ?thesis
    using request_begin_waiters [OF request(2)] by (simp add: stream_effect_def same_streams_def)
next
  case (request_fail payload c d x)
  then show ?thesis
    using request_begin_waiters [OF request_fail(2)] by (simp add: stream_effect_def same_streams_def)
next
  case (stream_close s d s')
  with stream_close_frame [OF this(3,2)] show ?thesis by (simp add: stream_effect_def)
next
  case (dial dst port body s)
  then show ?thesis
    by (auto simp: stream_effect_def dial_finish_def register_recv_queue_def Let_def pend_of_def split: option.splits)
next
  case (accept l s)
  then show ?thesis
    by (auto simp: stream_effect_def listener_accept_def register_recv_queue_def Let_def pend_of_def
        split: list.splits)
next
  case (listen body l)
  then show ?thesis
    by (auto simp: stream_effect_def same_streams_def listen_finish_def Let_def split: option.splits)
next
  case (stream_write s dat dr r)
  with written_only(3-5) [OF stream_write_written [OF this(2)]] show ?thesis
    by (simp add: stream_effect_def same_streams_def)
next
  case (send_to dst port dat d r)
  with written_only(3-5) [OF send_to_written [OF this(2)]] show ?thesis
    by (simp add: stream_effect_def same_streams_def)
next
  case (listener_close l l')
  then show ?thesis by (auto simp: stream_effect_def same_streams_def listener_close_def split: if_splits)
qed (auto simp: stream_effect_def same_streams_def stream_read_def subscription_enter_def subscription_exit_def
    request_timeout_def request_cancel_def close_begin_def close_finish_def force_close_sync_def eof_all_def
    fail_all_def Let_def)

section \<open>Queue objects\<close>

text \<open>A registered queue exists, serves one connection, and no data of its connection is pending.\<close>

definition stream_inv :: "client \<Rightarrow> bool" where
  "stream_inv st \<longleftrightarrow>
     distinct (dict_keys (stream_recv_queues st)) \<and>
     (\<forall>cid q. dict_get (stream_recv_queues st) cid = Some q \<longrightarrow> q < length (recv_qs st)) \<and>
     (\<forall>cid cid' q. dict_get (stream_recv_queues st) cid = Some q \<and>
        dict_get (stream_recv_queues st) cid' = Some q \<longrightarrow> cid = cid') \<and>
     (\<forall>cid. dict_get (stream_recv_queues st) cid \<noteq> None \<longrightarrow> dict_get (pending_recv st) cid = None)"

lemma stream_invD:
  assumes "stream_inv st"
  shows "dict_get (stream_recv_queues st) cid = Some q \<Longrightarrow> q < length (recv_qs st)"
    "dict_get (stream_recv_queues st) cid = Some q \<Longrightarrow> dict_get (stream_recv_queues st) cid' = Some q \<Longrightarrow> cid = cid'"
    "dict_get (stream_recv_queues st) cid = Some q \<Longrightarrow> dict_get (pending_recv st) cid = None"
    "distinct (dict_keys (stream_recv_queues st))"
  using assms unfolding stream_inv_def by blast+

lemma length_put_all [simp]: "length (foldl (\<lambda>h q. put q x h) hs qs) = length hs"
  by (induction qs arbitrary: hs) simp_all

lemma arrive_stream_inv: "stream_inv st \<Longrightarrow> arrive cid x st st' \<Longrightarrow> stream_inv st'"
  by (cases "dict_get (stream_recv_queues st) cid")
    (auto simp: stream_inv_def arrive_def split: if_splits)

lemma client_step_stream_inv:
  assumes s: "client_step st e st'" and inv: "stream_inv st" shows "stream_inv st'"
proof -
  note eff = client_step_streams [OF s, unfolded stream_effect_def]
  have same: "same_streams st st' \<Longrightarrow> stream_inv st'" using inv by (simp add: stream_inv_def same_streams_def)
  show ?thesis
  proof (cases e)
    case (LFrame c p)
    with eff same arrive_stream_inv [OF inv] show ?thesis by (auto split: option.splits)
  next
    case (LRegister cid q)
    have "\<And>i. dict_get (stream_recv_queues st) i \<noteq> Some (length (recv_qs st))"
      using stream_invD(1) [OF inv] by blast
    with LRegister eff stream_invD [OF inv] show ?thesis
      by (auto simp: stream_inv_def less_Suc_eq split: if_splits)
  next
    case (LRead q x)
    with eff inv show ?thesis by (auto simp: stream_inv_def)
  next
    case (LStreamClose cid)
    with eff inv show ?thesis by (auto simp: stream_inv_def split: if_splits)
  next
    case LEof
    with eff inv show ?thesis by (simp add: stream_inv_def)
  qed (use eff same in auto)
qed

lemma stream_inv_init: "stream_inv client_init"
  by (simp add: stream_inv_def client_init_def dict_keys_def)

lemma client_trace_stream_inv: "client_trace es st \<Longrightarrow> stream_inv st"
  by (induction rule: client_trace.induct) (auto intro: client_step_stream_inv stream_inv_init)

lemma put_all_nth:
  "distinct qs \<Longrightarrow> \<forall>q \<in> set qs. q < length h \<Longrightarrow>
    foldl (\<lambda>h q. put q x h) h qs ! q = (if q \<in> set qs then h ! q @ [x] else h ! q)"
  by (induction qs arbitrary: h) (auto simp: put_nth)

lemma registered_queues:
  assumes inv: "stream_inv st"
  shows "distinct (map snd (stream_recv_queues st))" "\<forall>q \<in> set (map snd (stream_recv_queues st)). q < length (recv_qs st)"
proof -
  note k = stream_invD(4) [OF inv]
  have g: "dict_get (stream_recv_queues st) i = Some q" if "(i, q) \<in> set (stream_recv_queues st)" for i q
    using k that by (simp add: dict_get_def dict_keys_def)
  show "\<forall>q \<in> set (map snd (stream_recv_queues st)). q < length (recv_qs st)"
    using g stream_invD(1) [OF inv] by fastforce
  have "inj_on snd (set (stream_recv_queues st))"
    using g stream_invD(2) [OF inv] by (fastforce intro!: inj_onI)
  moreover have "distinct (stream_recv_queues st)" using k by (simp add: dict_keys_def distinct_map)
  ultimately show "distinct (map snd (stream_recv_queues st))" by (simp add: distinct_map)
qed

section \<open>Delivery\<close>

text \<open>What the daemon sent for a connection, who registered for it, what was read from a queue.\<close>

definition items :: "int \<Rightarrow> label list \<Rightarrow> bytes option list" where
  "items cid es = concat (map (\<lambda>e. case item e of Some (i, x) \<Rightarrow> if i = cid then [x] else [] | None \<Rightarrow> []) es)"

definition registrations :: "int \<Rightarrow> label list \<Rightarrow> nat list" where
  "registrations cid es = concat (map (\<lambda>e. case e of LRegister i q \<Rightarrow> if i = cid then [q] else [] | _ \<Rightarrow> []) es)"

definition reads :: "nat \<Rightarrow> label list \<Rightarrow> bytes option list" where
  "reads q es = concat (map (\<lambda>e. case e of LRead q' x \<Rightarrow> if q' = q then [x] else [] | _ \<Rightarrow> []) es)"

lemma trace_logs_snoc [simp]:
  "items cid (es @ [e]) = items cid es @ (case item e of Some (i, x) \<Rightarrow> if i = cid then [x] else [] | None \<Rightarrow> [])"
  "registrations cid (es @ [e]) =
     registrations cid es @ (case e of LRegister i q \<Rightarrow> if i = cid then [q] else [] | _ \<Rightarrow> [])"
  "reads q (es @ [e]) = reads q es @ (case e of LRead q' x \<Rightarrow> if q' = q then [x] else [] | _ \<Rightarrow> [])"
  by (simp_all add: items_def registrations_def reads_def)

lemma item_simps [simp]:
  "item (LRegister cid q) = None" "item (LRead q x) = None" "item (LRequest c f) = None"
  "item (LRequestFail c) = None" "item (LTimeout c f) = None" "item (LCancel f) = None"
  "item (LStreamClose cid) = None" "item LEof = None" "item LOther = None"
  by (simp_all add: item_def)

lemma client_step_recv_qs_mono: "client_step st e st' \<Longrightarrow> length (recv_qs st) \<le> length (recv_qs st')"
  by (drule client_step_streams, cases e)
    (auto simp: stream_effect_def same_streams_def arrive_def split: option.splits)

lemma trace_reads_lt: "client_trace es st \<Longrightarrow> LRead q x \<in> set es \<Longrightarrow> q < length (recv_qs st)"
proof (induction rule: client_trace.induct)
  case (step es st e st')
  show ?case
  proof (cases "e = LRead q x")
    case True
    with step(2) have "q < length (recv_qs st)" by (auto dest!: client_step_streams simp: stream_effect_def)
    with client_step_recv_qs_mono [OF step(2)] show ?thesis by simp
  next
    case False
    with step show ?thesis using client_step_recv_qs_mono [OF step(2)] by auto
  qed
qed simp

lemma trace_reads_fresh: "client_trace es st \<Longrightarrow> length (recv_qs st) \<le> q \<Longrightarrow> reads q es = []"
  by (auto simp: reads_def dest!: trace_reads_lt split: label.splits)

definition waiting_for :: "int \<Rightarrow> label list \<Rightarrow> client \<Rightarrow> bool" where
  "waiting_for cid es st \<longleftrightarrow>
     dict_get (stream_recv_queues st) cid = None \<and> pend_of st cid = items cid es"

definition delivered :: "int \<Rightarrow> nat \<Rightarrow> label list \<Rightarrow> client \<Rightarrow> bool" where
  "delivered cid q es st \<longleftrightarrow>
     q < length (recv_qs st) \<and> reads q es @ recv_qs st ! q = items cid es \<and>
     (\<forall>i. dict_get (stream_recv_queues st) i = Some q \<longrightarrow> i = cid) \<and>
     (None \<notin> set (items cid es) \<longrightarrow> dict_get (stream_recv_queues st) cid = Some q)"

lemma arrive_waiting:
  "waiting_for cid es st \<Longrightarrow> arrive i x st st' \<Longrightarrow> item e = Some (i, x) \<Longrightarrow> waiting_for cid (es @ [e]) st'"
  by (cases "i = cid"; cases "dict_get (stream_recv_queues st) i")
    (auto simp: waiting_for_def arrive_def pend_of_def)

lemma arrive_delivered:
  assumes d: "delivered cid q es st" and a: "arrive i x st st'" and e: "item e = Some (i, x)"
    and inv: "stream_inv st" and fin: "i = cid \<Longrightarrow> None \<notin> set (items cid es)"
    and r: "reads q (es @ [e]) = reads q es"
  shows "delivered cid q (es @ [e]) st'"
proof (cases "i = cid")
  case True
  with d fin have "dict_get (stream_recv_queues st) cid = Some q" by (simp add: delivered_def)
  with a True have h: "recv_qs st' = put q x (recv_qs st)"
    "stream_recv_queues st' = (if x = None then dict_del (stream_recv_queues st) cid else stream_recv_queues st)"
    by (simp_all add: arrive_def)
  have i: "items cid (es @ [e]) = items cid es @ [x]" using e True by simp
  from d have q: "q < length (recv_qs st)" "reads q es @ recv_qs st ! q = items cid es"
    "\<And>i. dict_get (stream_recv_queues st) i = Some q \<Longrightarrow> i = cid" by (auto simp: delivered_def)
  have "reads q es @ recv_qs st' ! q = items cid es @ [x]" unfolding h(1) by (simp add: put_nth q(1) flip: q(2))
  moreover have "dict_get (stream_recv_queues st') j = Some q \<Longrightarrow> j = cid" for j
    using q(3) [of j] by (cases "x = None") (simp_all add: h(2) split: if_splits)
  moreover have "None \<notin> set (items cid es @ [x]) \<Longrightarrow> dict_get (stream_recv_queues st') cid = Some q"
    using \<open>dict_get _ cid = Some q\<close> by (cases x) (simp_all add: h(2))
  moreover have "q < length (recv_qs st')" by (simp add: h(1) q(1))
  ultimately show ?thesis unfolding delivered_def i r by blast
next
  case False
  show ?thesis
  proof (cases "dict_get (stream_recv_queues st) i")
    case None
    with d a e False r show ?thesis by (auto simp: delivered_def arrive_def split: if_splits)
  next
    case (Some q')
    with d False have "q' \<noteq> q" by (auto simp: delivered_def)
    with d a e False r Some stream_invD(1) [OF inv Some] show ?thesis
      by (auto simp: delivered_def arrive_def put_nth split: if_splits)
  qed
qed

lemma register_delivered:
  assumes w: "waiting_for cid es st" and inv: "stream_inv st" and t: "client_trace es st"
    and eff: "stream_effect st (LRegister cid q) st'"
  shows "delivered cid q (es @ [LRegister cid q]) st'"
proof -
  have "dict_get (stream_recv_queues st) i \<noteq> Some (length (recv_qs st))" for i
    using stream_invD(1) [OF inv] by blast
  moreover have "reads (length (recv_qs st)) es = []" by (rule trace_reads_fresh [OF t]) simp
  ultimately show ?thesis using w eff by (auto simp: delivered_def stream_effect_def waiting_for_def)
qed

lemma step_delivered:
  assumes d: "delivered cid q es st" and inv: "stream_inv st" and s: "client_step st e st'"
    and e: "e \<noteq> LStreamClose cid" "e \<noteq> LEof" and reg: "\<And>q'. e \<noteq> LRegister cid q'"
    and fin: "\<And>x. item e = Some (cid, x) \<Longrightarrow> None \<notin> set (items cid es)"
  shows "delivered cid q (es @ [e]) st'"
proof -
  note eff = client_step_streams [OF s, unfolded stream_effect_def]
  have same: "delivered cid q (es @ [e]) st'"
    if "same_streams st st'" "item e = None" "reads q (es @ [e]) = reads q es"
    using d that by (simp add: delivered_def same_streams_def)
  show ?thesis
  proof (cases e)
    case (LFrame c p)
    show ?thesis
    proof (cases "item e")
      case None
      with eff LFrame same show ?thesis by auto
    next
      case (Some ix)
      obtain i x where "ix = (i, x)" by (cases ix)
      with eff LFrame Some arrive_delivered [OF d _ _ inv, of i x st' e] fin show ?thesis by auto
    qed
  next
    case (LRegister i q')
    with eff d reg show ?thesis by (auto simp: delivered_def nth_append split: if_splits)
  next
    case (LRead q' x)
    then obtain xs where x: "q' < length (recv_qs st)" "recv_qs st ! q' = x # xs"
      "recv_qs st' = (recv_qs st)[q' := xs]" "stream_recv_queues st' = stream_recv_queues st"
      using eff by auto
    with LRead d show ?thesis by (cases "q' = q") (auto simp: delivered_def)
  next
    case (LStreamClose i)
    with eff d e show ?thesis by (auto simp: delivered_def split: if_splits)
  qed (use eff same e in auto)
qed

lemma step_waiting:
  assumes w: "waiting_for cid es st" and s: "client_step st e st'" and reg: "\<And>q. e \<noteq> LRegister cid q"
  shows "waiting_for cid (es @ [e]) st'"
proof -
  note eff = client_step_streams [OF s, unfolded stream_effect_def]
  show ?thesis
  proof (cases e)
    case (LFrame c p)
    show ?thesis
    proof (cases "item e")
      case None
      with eff w LFrame show ?thesis by (auto simp: waiting_for_def same_streams_def pend_of_def)
    next
      case (Some ix)
      obtain i x where "ix = (i, x)" by (cases ix)
      with eff Some LFrame show ?thesis by (auto intro: arrive_waiting [OF w])
    qed
  next
    case (LRegister i q)
    with eff w reg show ?thesis by (auto simp: waiting_for_def pend_of_def)
  qed (use eff w in \<open>auto simp: waiting_for_def same_streams_def pend_of_def\<close>)
qed

lemma trace_delivered:
  assumes "client_trace es st" "LStreamClose cid \<notin> set es" "LEof \<notin> set es"
    "None \<notin> set (butlast (items cid es))"
  shows "(registrations cid es = [] \<longrightarrow> waiting_for cid es st) \<and>
    (\<forall>q. registrations cid es = [q] \<longrightarrow> delivered cid q es st)"
  using assms
proof (induction rule: client_trace.induct)
  case start
  then show ?case by (simp add: waiting_for_def items_def client_init_def pend_of_def registrations_def)
next
  case (step es st e st')
  have bl: "None \<notin> set (butlast (items cid es))"
    using step.prems(3) by (auto simp: butlast_append dest: in_set_butlastD split: option.splits prod.splits if_splits)
  have fin: "None \<notin> set (items cid es)" if "item e = Some (cid, x)" for x
    using step.prems(3) that by (simp add: butlast_append)
  have IH: "(registrations cid es = [] \<longrightarrow> waiting_for cid es st) \<and>
    (\<forall>q. registrations cid es = [q] \<longrightarrow> delivered cid q es st)"
    by (rule step.IH) (use step.prems bl in auto)
  note inv = client_trace_stream_inv [OF step.hyps(1)]
  show ?case
  proof (cases "\<exists>q. e = LRegister cid q")
    case True
    then obtain q where e: "e = LRegister cid q" ..
    with IH register_delivered [OF _ inv step.hyps(1)] client_step_streams [OF step.hyps(2)]
    show ?thesis by auto
  next
    case False
    then have r: "registrations cid (es @ [e]) = registrations cid es" by (auto split: label.splits)
    from False have n: "e \<noteq> LRegister cid q" for q by blast
    show ?thesis
      unfolding r using IH step_waiting [OF _ step.hyps(2) n] step_delivered [OF _ inv step.hyps(2) _ _ n fin] step.prems
      by auto
  qed
qed

end
