(* ===== verification/Client_Props.thy ===== *)
theory Client_Props
  imports Client_Order Client_Streams
begin

text \<open>
  The read loop does not depend on how its input is cut; writes are cut into frames that fit; and
  the properties of the connection.
\<close>

section \<open>Framing\<close>

lemma read_loop_append:
  "read_loop st (a @ b) =
     (case read_loop st a of (st', Waiting r) \<Rightarrow> read_loop st' (r @ b) | (st', Ended e) \<Rightarrow> (st', Ended e))"
proof (induction st a rule: read_loop.induct)
  case (1 st a)
  define n where "n = be_nat (take 4 a)"
  consider (closed) "conn_closed st"
    | (wait) "\<not> conn_closed st" "length a < 4 \<or> \<not> (n = 0 \<or> MAX_MESSAGE_SIZE < n) \<and> length a < 4 + n"
    | (bad) "\<not> conn_closed st" "\<not> length a < 4" "n = 0 \<or> MAX_MESSAGE_SIZE < n"
    | (frame) "\<not> conn_closed st" "\<not> length a < 4" "\<not> (n = 0 \<or> MAX_MESSAGE_SIZE < n)" "\<not> length a < 4 + n"
    by blast
  then show ?case
  proof cases
    case closed
    then show ?thesis by (simp add: read_loop.simps [of st])
  next
    case wait
    then have "read_loop st a = (st, Waiting a)"
      unfolding read_loop.simps [of st a] by (auto simp: Let_def n_def [symmetric])
    then show ?thesis by simp
  next
    case bad
    then have "be_nat (take 4 (a @ b)) = n" by (simp add: n_def)
    with bad show ?thesis
      unfolding read_loop.simps [of st a] read_loop.simps [of st "a @ b"] by (simp add: Let_def n_def [symmetric])
  next
    case frame
    note f = frame
    from f have same: "be_nat (take 4 (a @ b)) = n" "(a @ b) ! 4 = a ! 4"
      "take (n - 1) (drop 5 (a @ b)) = take (n - 1) (drop 5 a)"
      "drop (4 + n) (a @ b) = drop (4 + n) a @ b"
      by (auto simp: n_def nth_append)
    show ?thesis
    proof (cases "dispatch st (a ! 4) (take (n - 1) (drop 5 a))")
      case (Inl e)
      then show ?thesis
        unfolding read_loop.simps [of st a] read_loop.simps [of st "a @ b"]
        using f same by (simp add: Let_def n_def [symmetric])
    next
      case (Inr st')
      from "1.IH" [OF f(1,2) n_def f(3,4) Inr]
      show ?thesis
        unfolding read_loop.simps [of st a] read_loop.simps [of st "a @ b"]
        using f same Inr by (simp add: Let_def n_def [symmetric])
    qed
  qed
qed

text \<open>The reader between two deliveries of the socket: its state and the bytes it has not used.\<close>

definition reader_feed :: "client \<times> loop_status \<Rightarrow> bytes \<Rightarrow> client \<times> loop_status" where
  "reader_feed s b = (case s of (st, Waiting r) \<Rightarrow> read_loop st (r @ b) | (st, Ended e) \<Rightarrow> (st, Ended e))"

interpretation rl: incremental reader_feed
proof
  fix s a b
  show "reader_feed s (a @ b) = reader_feed (reader_feed s a) b"
  proof (cases s)
    case (Pair st r)
    then show ?thesis
      by (cases r) (simp_all add: reader_feed_def read_loop_append [of st "_ @ a", simplified])
  qed
qed

definition send_frame :: "int \<Rightarrow> bytes \<Rightarrow> bytes" where
  "send_frame cid c = be_bytes 4 (5 + length c) @ CMD_SEND # be_bytes 4 (nat cid) @ c"

text \<open>The chunks of a write, as \<^verbatim>\<open>range(0, len(data), MAX_SEND_CHUNK)\<close> cuts them.\<close>

function chunks :: "bytes \<Rightarrow> bytes list" where
  "chunks d = (if d = [] then [] else take MAX_SEND_CHUNK d # chunks (drop MAX_SEND_CHUNK d))"
  by pat_completeness auto
termination
  using MAX_SEND_CHUNK_pos by (relation "measure length") auto

declare chunks.simps [simp del]

lemma chunks_facts: "concat (chunks d) = d \<and> (\<forall>c \<in> set (chunks d). c \<noteq> [] \<and> length c \<le> MAX_SEND_CHUNK)"
proof (induction d rule: chunks.induct)
  case (1 d)
  then show ?case
    using MAX_SEND_CHUNK_pos by (cases "d = []") (simp_all add: chunks.simps [of d] chunks.simps [of "[]"])
qed

lemma write_loop_chunks:
  assumes "0 \<le> cid" "cid < 4294967296" "\<not> transport_closing st"
  shows "write_loop st cid d i (\<lambda>_. None) =
    (st\<lparr>written := written st @ concat (map (send_frame cid) (chunks (drop i d)))\<rparr>, Inr ())"
  using assms(3)
proof (induction "length d - i" arbitrary: st i rule: less_induct)
  case less
  show ?case
  proof (cases "length d \<le> i")
    case True
    then show ?thesis by (simp add: write_loop.simps [of st] chunks.simps [of "[]"])
  next
    case False
    let ?c = "take MAX_SEND_CHUNK (drop i d)"
    let ?st = "st\<lparr>written := written st @ send_frame cid ?c\<rparr>"
    have e: "encode_send cid ?c = Inr (CMD_SEND # be_bytes 4 (nat cid) @ ?c)"
      using assms(1,2) by (simp add: encode_send_def pack_I_def)
    have "MAX_SEND_CHUNK \<le> 1048512" by (simp add: MAX_SEND_CHUNK_def MAX_MESSAGE_SIZE_def)
    then have s: "send_raw st (CMD_SEND # be_bytes 4 (nat cid) @ ?c) None = (?st, Inr ())"
      using less.prems by (simp add: send_raw_def send_raw_locked_def send_frame_def)
    have IH: "write_loop ?st cid d (i + MAX_SEND_CHUNK) (\<lambda>_. None) =
        (?st\<lparr>written := written ?st @ concat (map (send_frame cid) (chunks (drop (i + MAX_SEND_CHUNK) d)))\<rparr>, Inr ())"
      by (rule less.hyps) (use False less.prems MAX_SEND_CHUNK_pos in simp_all)
    have ch: "chunks (drop i d) = ?c # chunks (drop (i + MAX_SEND_CHUNK) d)"
      using False by (simp add: chunks.simps [of "drop i d"] add.commute)
    show ?thesis
      unfolding write_loop.simps [of st] ch using False by (simp add: e s IH)
  qed
qed

lemma send_frame_fits: "length c \<le> MAX_SEND_CHUNK \<Longrightarrow> length (send_frame cid c) - 4 \<le> MAX_MESSAGE_SIZE"
  by (simp add: send_frame_def MAX_SEND_CHUNK_def MAX_MESSAGE_SIZE_def)

section \<open>Properties\<close>

text \<open>
  C3: replies are matched to requests in order. In every interleaving of the connection's
  operations in which no request times out, no request fails to be written, no error frame
  arrives and the connection is not torn down, and in which the daemon never sends more
  replies of a command than were asked for, the \<open>i\<close>-th reply of a command is the result of the
  \<open>i\<close>-th request that waits for it, unless that request was cancelled; the others are still
  queued, in order.
\<close>

theorem replies_matched_in_order:
  assumes "client_trace es st" "list_all orderly es" "solicited c es" "c \<notin> push_cmds" "c \<noteq> CMD_ERROR"
  shows "waiters_of st c = drop (length (replies c es)) (reqs c es) \<and>
    (\<forall>i < length (replies c es). LCancel (reqs c es ! i) \<notin> set es \<longrightarrow>
       request_await st (reqs c es ! i) = Some (Inr (replies c es ! i)))"
  using trace_matched [OF assms] by (auto simp: matched_def request_await_def)

text \<open>Two requests of different kinds, answered in the opposite order.\<close>

definition two_requests :: client where
  "two_requests = fst (health_begin (fst (info_begin client_init None)) None)"

lemma two_requests_trace:
  "client_trace [LRequest CMD_INFO_OK 0, LRequest CMD_HEALTH_OK 1] two_requests"
proof -
  have "client_step client_init (LRequest CMD_INFO_OK 0) (fst (info_begin client_init None))"
    by (rule client_step.request [of _ encode_info _ None])
      (simp add: info_begin_def request_begin_def send_raw_locked_def client_init_def encode_info_def)
  from client_trace.step [OF client_trace.start this]
  have 1: "client_trace [LRequest CMD_INFO_OK 0] (fst (info_begin client_init None))" by simp
  have "client_step (fst (info_begin client_init None)) (LRequest CMD_HEALTH_OK 1) two_requests"
    by (rule client_step.request [of _ encode_health _ None])
      (simp add: two_requests_def health_begin_def info_begin_def request_begin_def send_raw_locked_def
        client_init_def encode_info_def encode_health_def)
  from client_trace.step [OF 1 this] show ?thesis by simp
qed

definition two_replies :: client where
  "two_replies = deliver_to_waiter (deliver_to_waiter two_requests CMD_HEALTH_OK [1]) CMD_INFO_OK [2]"

lemma two_replies_trace:
  "client_trace [LRequest CMD_INFO_OK 0, LRequest CMD_HEALTH_OK 1, LFrame CMD_HEALTH_OK [1],
     LFrame CMD_INFO_OK [2]] two_replies"
proof -
  note cmds = CMD_RECV_def CMD_ACCEPT_def CMD_CLOSE_OK_def CMD_RECV_FROM_def CMD_ERROR_def
    CMD_HEALTH_OK_def CMD_INFO_OK_def
  note defs = two_requests_def health_begin_def info_begin_def request_begin_def send_raw_locked_def
    client_init_def encode_info_def encode_health_def
  have r: "\<not> reader_done two_requests" by (simp add: defs)
  have "client_step two_requests (LFrame CMD_HEALTH_OK [1]) (deliver_to_waiter two_requests CMD_HEALTH_OK [1])"
    by (rule client_step.frame [OF r]) (simp add: dispatch_def cmds)
  from client_trace.step [OF two_requests_trace this]
  have t: "client_trace [LRequest CMD_INFO_OK 0, LRequest CMD_HEALTH_OK 1, LFrame CMD_HEALTH_OK [1]]
    (deliver_to_waiter two_requests CMD_HEALTH_OK [1])" by simp
  have "\<not> reader_done (deliver_to_waiter two_requests CMD_HEALTH_OK [1])"
    using r by (auto simp: deliver_to_waiter_def split: option.splits list.splits)
  then have "client_step (deliver_to_waiter two_requests CMD_HEALTH_OK [1]) (LFrame CMD_INFO_OK [2]) two_replies"
    by (rule client_step.frame) (simp add: dispatch_def two_replies_def cmds)
  from client_trace.step [OF t this] show ?thesis by simp
qed

theorem replies_matched_in_order_witness:
  "request_await two_replies 0 = Some (Inr [2]) \<and> waiters_of two_replies CMD_INFO_OK = []"
proof -
  let ?es = "[LRequest CMD_INFO_OK 0, LRequest CMD_HEALTH_OK 1, LFrame CMD_HEALTH_OK [1], LFrame CMD_INFO_OK [2]]"
  have "solicited CMD_INFO_OK ?es"
    unfolding solicited_def
  proof (intro allI impI)
    fix n assume "n \<le> length ?es"
    then have "n \<in> {0, 1, 2, 3, 4}" by auto
    then show "length (replies CMD_INFO_OK (take n ?es)) \<le> length (reqs CMD_INFO_OK (take n ?es))"
      by (auto simp: replies_def reqs_def CMD_HEALTH_OK_def CMD_INFO_OK_def)
  qed
  moreover have "list_all orderly ?es" by (simp add: orderly_def CMD_HEALTH_OK_def CMD_INFO_OK_def CMD_ERROR_def)
  ultimately show ?thesis
    using replies_matched_in_order [OF two_replies_trace, of CMD_INFO_OK]
    by (simp add: push_cmds_def replies_def reqs_def CMD_HEALTH_OK_def CMD_INFO_OK_def CMD_ERROR_def
        CMD_RECV_def CMD_ACCEPT_def CMD_RECV_FROM_def)
qed

text \<open>
  C4: no stream data is lost, duplicated or reordered. In every interleaving in which a
  connection id is registered once and neither the stream nor the connection is closed locally,
  what was read from its queue followed by what is still in the queue is exactly what the
  daemon sent for it, the end-of-stream mark included, whether it came before or after the
  registration.
\<close>

theorem stream_delivery_complete:
  assumes "client_trace es st" "registrations cid es = [q]" "LStreamClose cid \<notin> set es" "LEof \<notin> set es"
    "None \<notin> set (butlast (items cid es))"
  shows "reads q es @ recv_qs st ! q = items cid es"
  using trace_delivered [OF assms(1,3-5)] assms(2) by (simp add: delivered_def)

text \<open>Data that arrives before the dial has returned.\<close>

definition early_data :: client where
  "early_data = fst (dial_finish (on_recv client_init [0, 0, 0, 9, 7]) \<lparr>addr_network = 0, addr_node = 1\<rparr> 80 [0, 0, 0, 9])"

lemma early_data_trace: "client_trace [LFrame CMD_RECV [0, 0, 0, 9, 7], LRegister 9 0] early_data"
proof -
  have "client_step client_init (LFrame CMD_RECV [0, 0, 0, 9, 7]) (on_recv client_init [0, 0, 0, 9, 7])"
    by (rule client_step.frame) (simp_all add: client_init_def dispatch_def)
  from client_trace.step [OF client_trace.start this]
  have t: "client_trace [LFrame CMD_RECV [0, 0, 0, 9, 7]] (on_recv client_init [0, 0, 0, 9, 7])" by simp
  let ?s = "\<lparr>conn_id = 9, recv_q = 0, stream_peer = Some (\<lparr>addr_network = 0, addr_node = 1\<rparr>, 80), stream_closed = False\<rparr>"
  have "dial_finish (on_recv client_init [0, 0, 0, 9, 7]) \<lparr>addr_network = 0, addr_node = 1\<rparr> 80 [0, 0, 0, 9] =
      (early_data, Inr ?s)"
    by (simp add: early_data_def dial_finish_def parse_dial_ok_def be_nat_def register_recv_queue_def
        on_recv_def parse_recv_def pend_item_def client_init_def)
  from client_step.dial [OF this] client_trace.step [OF t] show ?thesis by fastforce
qed

theorem stream_delivery_complete_witness:
  "reads 0 [LFrame CMD_RECV [0, 0, 0, 9, 7], LRegister 9 0] @ recv_qs early_data ! 0 = [Some [7]]"
  using stream_delivery_complete [OF early_data_trace, of 9 0]
  by (simp add: registrations_def items_def item_def parse_recv_def be_nat_def)

text \<open>
  C22: the reader does not depend on how the socket delivers the bytes: feeding it any chunks one
  after the other has the effect of feeding it their concatenation at once, for every state,
  failures included.
\<close>

theorem read_loop_chunks:
  "foldl reader_feed s (c # cs) = reader_feed s (concat (c # cs))"
  by (rule rl.feed_chunks)

text \<open>
  C20: closing a connection leaves no request hanging: in every reachable state that is not yet
  closed, after \<^verbatim>\<open>close()\<close> every future that was pending has the \<^verbatim>\<open>connection closed\<close> exception,
  every other one is unchanged, no waiter is left, and every registered stream ends with the
  end-of-stream mark.
\<close>

theorem close_settles_everything:
  assumes "client_trace es st" "\<not> conn_closed st"
  shows "(\<forall>f < length (futs st). request_await (close st) f =
        (if futs st ! f = FPending then Some (Inl (PilotConnectionError (u ''connection closed'')))
         else request_await st f)) \<and>
    waiters_of (close st) c = [] \<and> \<not> is_alive (close st) \<and>
    (dict_get (stream_recv_queues st) cid = Some q \<longrightarrow>
       recv_qs (close st) ! q = recv_qs st ! q @ [None])"
proof -
  define st1 where "st1 = st\<lparr>conn_closed := True, transport_closing := True, reader_done := True\<rparr>"
  have cl: "close st = eof_all (fail_all st1)"
    using assms(2) by (simp add: close_def close_finish_def close_begin_def st1_def)
  have w: "waiter_inv st1"
    using waiter_inv_cong [of st1 st] client_trace_waiter_inv [OF assms(1)] by (simp add: st1_def)
  note si = client_trace_stream_inv [OF assms(1)]
  have f: "futs (close st) = futs (fail_all st1)" "waiters (close st) = waiters (fail_all st1)"
    by (simp_all add: cl eof_all_def)
  have "request_await (close st) f =
        (if futs st ! f = FPending then Some (Inl (PilotConnectionError (u ''connection closed'')))
         else request_await st f)" if "f < length (futs st)" for f
    using that fail_all_facts(3) [OF w, of f] by (simp add: request_await_def f st1_def)
  moreover have "waiters_of (close st) c = []"
    using fail_all_facts(1) [OF w, of c] f(2) by (simp add: waiters_of_def)
  moreover have "\<not> is_alive (close st)" by (simp add: is_alive_def cl eof_all_def fail_all_def st1_def)
  moreover have "recv_qs (close st) ! q = recv_qs st ! q @ [None]"
    if "dict_get (stream_recv_queues st) cid = Some q"
  proof -
    have "q \<in> set (map snd (stream_recv_queues st))" using dict_get_Some_in [OF that] by force
    then show ?thesis
      using put_all_nth [OF registered_queues [OF si]] by (simp add: cl eof_all_def fail_all_def st1_def)
  qed
  ultimately show ?thesis by blast
qed

theorem close_settles_everything_witness:
  "request_await (close two_requests) 0 = Some (Inl (PilotConnectionError (u ''connection closed''))) \<and>
   waiters_of (close two_requests) CMD_HEALTH_OK = []"
proof -
  note defs = two_requests_def health_begin_def info_begin_def request_begin_def send_raw_locked_def
    client_init_def encode_info_def encode_health_def
  have "\<not> conn_closed two_requests" "length (futs two_requests) = 2" "futs two_requests ! 0 = FPending"
    by (simp_all add: defs)
  then show ?thesis
    using close_settles_everything [OF two_requests_trace, of CMD_HEALTH_OK 0 0] by auto
qed

text \<open>
  C21: \<^verbatim>\<open>Stream.write\<close> cuts the data into frames that the daemon accepts: with no failure of the
  transport the bytes written are one length-prefixed send frame per chunk, no frame exceeds the
  message limit, no chunk is empty, and the chunks put together are the data.
\<close>

theorem stream_write_chunks:
  assumes "\<not> stream_closed s" "0 \<le> conn_id s" "conn_id s < 4294967296" "\<not> transport_closing st"
  shows "\<exists>cs. concat cs = d \<and> (\<forall>c \<in> set cs. c \<noteq> [] \<and> length (send_frame (conn_id s) c) \<le> 4 + MAX_MESSAGE_SIZE) \<and>
    stream_write st s d (\<lambda>_. None) =
      (st\<lparr>written := written st @ concat (map (send_frame (conn_id s)) cs)\<rparr>, Inr ())"
proof (intro exI conjI)
  show "concat (chunks d) = d" using chunks_facts by blast
  show "\<forall>c \<in> set (chunks d). c \<noteq> [] \<and> length (send_frame (conn_id s) c) \<le> 4 + MAX_MESSAGE_SIZE"
  proof
    fix c assume "c \<in> set (chunks d)"
    then have "c \<noteq> []" "length c \<le> MAX_SEND_CHUNK" using chunks_facts by blast+
    then show "c \<noteq> [] \<and> length (send_frame (conn_id s) c) \<le> 4 + MAX_MESSAGE_SIZE"
      using send_frame_fits [of c "conn_id s"] by simp
  qed
  show "stream_write st s d (\<lambda>_. None) =
      (st\<lparr>written := written st @ concat (map (send_frame (conn_id s)) (chunks d))\<rparr>, Inr ())"
    using write_loop_chunks [OF assms(2-4), of d 0] assms(1) by (simp add: stream_write_def)
qed

theorem stream_write_chunks_witness:
  "\<exists>cs. concat cs = [1, 2, 3] \<and> (\<forall>c \<in> set cs. c \<noteq> [] \<and> length (send_frame 7 c) \<le> 4 + MAX_MESSAGE_SIZE) \<and>
    stream_write client_init \<lparr>conn_id = 7, recv_q = 0, stream_peer = None, stream_closed = False\<rparr> [1, 2, 3] (\<lambda>_. None) =
      (client_init\<lparr>written := concat (map (send_frame 7) cs)\<rparr>, Inr ())"
  using stream_write_chunks [of "\<lparr>conn_id = 7, recv_q = 0, stream_peer = None, stream_closed = False\<rparr>" client_init "[1, 2, 3]"]
  by (simp add: client_init_def)

text \<open>
  A reply that comes after its request has timed out is given to the next request of the
  same kind. Two \<^verbatim>\<open>info()\<close> calls are outstanding, the first times out, and the daemon's answer to
  the first becomes the result of the second.
\<close>

theorem late_reply_misrouted:
  "let st1 = fst (info_begin client_init None);
       st2 = fst (info_begin st1 None);
       st3 = request_timeout st2 CMD_INFO_OK 0
   in waiters_of st2 CMD_INFO_OK = [0, 1] \<and>
      (\<exists>st4. dispatch st3 CMD_INFO_OK answer = Inr st4 \<and> request_await st4 1 = Some (Inr answer))"
  by (simp add: Let_def info_begin_def request_begin_def send_raw_locked_def client_init_def encode_info_def
      request_timeout_def waiters_of_def dict_get_def dict_set_def settle_def dispatch_def
      deliver_to_waiter_def request_await_def CMD_INFO_OK_def CMD_RECV_def CMD_ACCEPT_def CMD_CLOSE_OK_def
      CMD_RECV_FROM_def CMD_ERROR_def)

text \<open>
  The function \<^verbatim>\<open>_fail_oldest_waiter\<close> does not fail the oldest waiter. An \<^verbatim>\<open>info()\<close> has been answered, then a
  \<^verbatim>\<open>health()\<close> and after it another \<^verbatim>\<open>info()\<close> are sent; the daemon's error for the \<^verbatim>\<open>health()\<close> call
  fails the younger \<^verbatim>\<open>info()\<close> and leaves the \<^verbatim>\<open>health()\<close> call waiting.
\<close>

theorem error_fails_younger_request:
  "let st1 = deliver_to_waiter (fst (info_begin client_init None)) CMD_INFO_OK [];
       st2 = fst (health_begin st1 None);
       st3 = fst (info_begin st2 None)
   in \<exists>st4. dispatch st3 CMD_ERROR err = Inr st4 \<and> request_await st4 1 = None \<and>
      request_await st4 2 = Some (Inl (PilotConnectionError (u ''daemon: '' @ parse_error err)))"
  by (simp add: Let_def info_begin_def health_begin_def request_begin_def send_raw_locked_def client_init_def
      encode_info_def encode_health_def waiters_of_def dict_get_def dict_set_def settle_def
      dispatch_error fail_oldest_waiter_def deliver_to_waiter_def request_await_def CMD_INFO_OK_def CMD_HEALTH_OK_def)

text \<open>
  The acknowledgement of a local close ends the next stream with the same connection id.
  After \<^verbatim>\<open>Stream.close()\<close> the queue is gone, so the daemon's \<^verbatim>\<open>cmdCloseOK\<close> is kept as a pending end
  of stream; a later dial that is given the same id reads end of file first, before the data.
\<close>

theorem stale_close_ends_next_stream:
  "let (st1, r1) = dial_finish client_init a port [0, 0, 0, 9];
       s1 = \<lparr>conn_id = 9, recv_q = 0, stream_peer = Some (a, port), stream_closed = False\<rparr>;
       st2 = on_close_ok (fst (stream_close st1 s1 None)) [0, 0, 0, 9];
       (st3, r3) = dial_finish st2 a port [0, 0, 0, 9];
       s3 = \<lparr>conn_id = 9, recv_q = 1, stream_peer = Some (a, port), stream_closed = False\<rparr>;
       st4 = on_recv st3 [0, 0, 0, 9, 65]
   in r1 = Inr s1 \<and> r3 = Inr s3 \<and> map_option fst (stream_read st4 s3) = Some []"
  by (simp add: Let_def dial_finish_def parse_dial_ok_def parse_close_ok_def parse_recv_def be_nat_def
      register_recv_queue_def stream_close_def encode_close_def pack_I_def send_raw_def send_raw_locked_def
      on_close_ok_def on_recv_def pend_item_def client_init_def dict_get_def dict_set_def dict_del_def
      put_def stream_read_def)

end
