(* ===== verification/Checkpoint_Store.thy ===== *)
theory Checkpoint_Store
  imports Wire
begin

text \<open>
  \<^verbatim>\<open>checkpoint_worker.py\<close>: the checkpoint store behind the four handlers, in memory and in SQLite.
  The SQL statements are modelled on lists of rows: \<^verbatim>\<open>INSERT OR REPLACE\<close> deletes the row with the
  same unique key and inserts one with the next sequence number, \<^verbatim>\<open>INSERT OR IGNORE\<close> keeps the
  old row, \<^verbatim>\<open>ORDER BY seq\<close> sorts by the sequence number. Identifiers (thread, namespace,
  checkpoint, task) are strings; a payload with another type in their place is outside the model.
\<close>

section \<open>Payloads\<close>

type_synonym ckey = "pystr \<times> pystr"

record ckpt =
  parent :: json
  ck_blob :: json
  ck_meta :: json
  new_versions :: json

definition str_field :: "json \<Rightarrow> pystr \<Rightarrow> pystr result" where
  "str_field payload k = rbind (jindex payload k) (\<lambda>v. case v of JStr s \<Rightarrow> Inr s | _ \<Rightarrow> Inl UnmodelledType)"

text \<open>\<^verbatim>\<open>payload.get("checkpoint_ns") or ""\<close>.\<close>

definition ns_of :: "json \<Rightarrow> pystr result" where
  "ns_of payload =
     rbind (jget payload (u ''checkpoint_ns'')) (\<lambda>v.
       if \<not> truthy v then Inr [] else (case v of JStr s \<Rightarrow> Inr s | _ \<Rightarrow> Inl UnmodelledType))"

definition parse_put :: "json \<Rightarrow> (ckey \<times> pystr \<times> ckpt) result" where
  "parse_put payload =
     rbind (str_field payload (u ''thread'')) (\<lambda>thread.
     rbind (ns_of payload) (\<lambda>ns.
     rbind (str_field payload (u ''checkpoint_id'')) (\<lambda>cid.
     rbind (jget payload (u ''parent_checkpoint_id'')) (\<lambda>par.
     rbind (jindex payload (u ''checkpoint_b64'')) (\<lambda>blob.
     rbind (jindex payload (u ''metadata_b64'')) (\<lambda>meta.
     rmap (\<lambda>nv. ((thread, ns), cid,
         \<lparr>parent = par, ck_blob = blob, ck_meta = meta, new_versions = py_or nv (JObj [])\<rparr>))
       (jget payload (u ''new_versions''))))))))"

definition parse_get :: "json \<Rightarrow> (ckey \<times> pystr option) result" where
  "parse_get payload =
     rbind (str_field payload (u ''thread'')) (\<lambda>thread.
     rbind (ns_of payload) (\<lambda>ns.
     rbind (jget payload (u ''checkpoint_id'')) (\<lambda>c.
       case c of JNull \<Rightarrow> Inr ((thread, ns), None) | JStr s \<Rightarrow> Inr ((thread, ns), Some s) | _ \<Rightarrow> Inl UnmodelledType)))"

record query =
  q_thread :: "pystr option"
  q_ns :: pystr
  q_ns_given :: bool
  q_before :: "pystr option"
  q_limit :: "int option"

definition parse_list :: "json \<Rightarrow> query result" where
  "parse_list payload =
     rbind (jget payload (u ''thread'')) (\<lambda>t.
     rbind (case t of JNull \<Rightarrow> Inr None | JStr s \<Rightarrow> Inr (Some s) | _ \<Rightarrow> Inl UnmodelledType) (\<lambda>thread.
     rbind (ns_of payload) (\<lambda>ns.
     rbind (jget payload (u ''checkpoint_ns'')) (\<lambda>n.
     rbind (jget payload (u ''before_checkpoint_id'')) (\<lambda>b.
     rbind (if \<not> truthy b then Inr None
            else (case b of JStr s \<Rightarrow> Inr (Some s) | _ \<Rightarrow> Inl UnmodelledType)) (\<lambda>before.
     rbind (jget payload (u ''limit'')) (\<lambda>l.
       case l of
         JNull \<Rightarrow> Inr \<lparr>q_thread = thread, q_ns = ns, q_ns_given = (n \<noteq> JNull), q_before = before, q_limit = None\<rparr>
       | JInt i \<Rightarrow> Inr \<lparr>q_thread = thread, q_ns = ns, q_ns_given = (n \<noteq> JNull), q_before = before, q_limit = Some i\<rparr>
       | _ \<Rightarrow> Inl UnmodelledType)))))))"

text \<open>\<^verbatim>\<open>payload.get("task_path", "")\<close> has the default only for a missing key.\<close>

definition parse_writes :: "json \<Rightarrow> ((ckey \<times> pystr) \<times> (pystr \<times> pystr)) result" where
  "parse_writes payload =
     rbind (str_field payload (u ''thread'')) (\<lambda>thread.
     rbind (ns_of payload) (\<lambda>ns.
     rbind (str_field payload (u ''checkpoint_id'')) (\<lambda>cid.
     rbind (str_field payload (u ''task_id'')) (\<lambda>task.
     rmap (\<lambda>path. (((thread, ns), cid), (task, path)))
       (case jindex payload (u ''task_path'') of
          Inl _ \<Rightarrow> Inr [] | Inr (JStr s) \<Rightarrow> Inr s | Inr _ \<Rightarrow> Inl UnmodelledType)))))"

section \<open>Replies\<close>

definition ok_reply :: json where "ok_reply = JObj [(u ''ok'', JBool True)]"

definition not_found :: json where "not_found = JObj [(u ''found'', JBool False)]"

definition pending_item :: "pystr \<Rightarrow> json \<Rightarrow> json" where
  "pending_item task w = JObj [(u ''task_id'', JStr task), (u ''channel'', JStr []), (u ''value_b64'', w)]"

definition found_reply :: "pystr \<Rightarrow> json \<Rightarrow> json \<Rightarrow> json \<Rightarrow> json list \<Rightarrow> json" where
  "found_reply cid par blob meta pending =
     JObj [(u ''found'', JBool True), (u ''checkpoint_id'', JStr cid), (u ''parent_checkpoint_id'', par),
           (u ''checkpoint_b64'', blob), (u ''metadata_b64'', meta), (u ''pending_writes'', JArr pending)]"

definition list_item :: "ckey \<Rightarrow> pystr \<Rightarrow> json \<Rightarrow> json \<Rightarrow> json \<Rightarrow> json" where
  "list_item key cid par blob meta =
     JObj [(u ''thread'', JStr (fst key)), (u ''checkpoint_ns'', JStr (snd key)), (u ''checkpoint_id'', JStr cid),
           (u ''parent_checkpoint_id'', par), (u ''checkpoint_b64'', blob), (u ''metadata_b64'', meta)]"

definition items_reply :: "json list \<Rightarrow> json" where
  "items_reply items = JObj [(u ''items'', JArr items)]"

section \<open>In memory\<close>

text \<open>A missing key of a \<^verbatim>\<open>defaultdict\<close> reads as empty.\<close>

definition default_get :: "('k, 'v list) dict \<Rightarrow> 'k \<Rightarrow> 'v list" where
  "default_get d k = (case dict_get d k of None \<Rightarrow> [] | Some v \<Rightarrow> v)"

record mem_store =
  by_thread :: "(ckey, (pystr, ckpt) dict) dict"
  mem_writes :: "(ckey \<times> pystr, ((pystr \<times> pystr) \<times> json) list) dict"
  mem_order :: "(ckey, pystr list) dict"

definition mem_init :: mem_store where
  "mem_init = \<lparr>by_thread = [], mem_writes = [], mem_order = []\<rparr>"

definition mem_put :: "mem_store \<Rightarrow> json \<Rightarrow> mem_store \<times> json result" where
  "mem_put s payload =
     (case parse_put payload of
        Inl e \<Rightarrow> (s, Inl e)
      | Inr (key, cid, rec) \<Rightarrow>
          (let order = default_get (mem_order s) key;
               order' = (if cid \<in> set order then remove1 cid order else order) @ [cid]
           in (s\<lparr>by_thread := dict_set (by_thread s) key (dict_set (default_get (by_thread s) key) cid rec),
                 mem_order := dict_set (mem_order s) key order'\<rparr>, Inr ok_reply)))"

definition mem_get_tuple :: "mem_store \<Rightarrow> json \<Rightarrow> mem_store \<times> json result" where
  "mem_get_tuple s payload =
     (s, rmap (\<lambda>(key, c).
        let records = default_get (by_thread s) key;
            order = default_get (mem_order s) key
        in if records = [] then not_found
           else (case (case c of Some cid \<Rightarrow> Some cid | None \<Rightarrow> if order = [] then None else Some (last order)) of
                   None \<Rightarrow> not_found
                 | Some cid \<Rightarrow>
                     (case dict_get records cid of
                        None \<Rightarrow> not_found
                      | Some rec \<Rightarrow>
                          found_reply cid (parent rec) (ck_blob rec) (ck_meta rec)
                            (map (\<lambda>((task, path), w). pending_item task w) (default_get (mem_writes s) (key, cid))))))
        (parse_get payload))"

definition reached :: "int option \<Rightarrow> nat \<Rightarrow> bool" where
  "reached limit n = (case limit of None \<Rightarrow> False | Some l \<Rightarrow> l \<le> int n)"

text \<open>The two nested loops of \<^verbatim>\<open>list\<close>.\<close>

fun list_ids :: "ckey \<Rightarrow> (pystr, ckpt) dict \<Rightarrow> int option \<Rightarrow> pystr list \<Rightarrow> json list \<Rightarrow> json list" where
  "list_ids key records limit [] items = items"
| "list_ids key records limit (cid # ids) items =
     (case dict_get records cid of
        None \<Rightarrow> list_ids key records limit ids items
      | Some rec \<Rightarrow>
          (let items' = items @ [list_item key cid (parent rec) (ck_blob rec) (ck_meta rec)]
           in if reached limit (length items') then items' else list_ids key records limit ids items'))"

definition after_id :: "pystr option \<Rightarrow> pystr list \<Rightarrow> pystr list" where
  "after_id before ids =
     (case before of
        None \<Rightarrow> ids
      | Some b \<Rightarrow> if b \<in> set ids then tl (dropWhile (\<lambda>c. c \<noteq> b) ids) else ids)"

fun list_keys :: "mem_store \<Rightarrow> pystr option \<Rightarrow> int option \<Rightarrow> ckey list \<Rightarrow> json list \<Rightarrow> json list" where
  "list_keys s before limit [] items = items"
| "list_keys s before limit (key # keys) items =
     (case dict_get (mem_order s) key of
        None \<Rightarrow> list_keys s before limit keys items
      | Some order \<Rightarrow>
          (let items' = list_ids key (default_get (by_thread s) key) limit (after_id before (rev order)) items
           in if reached limit (length items') then items' else list_keys s before limit keys items'))"

definition mem_list :: "mem_store \<Rightarrow> json \<Rightarrow> mem_store \<times> json result" where
  "mem_list s payload =
     (s, rmap (\<lambda>q. items_reply (list_keys s (q_before q) (q_limit q)
            (case q_thread q of Some t \<Rightarrow> [(t, q_ns q)] | None \<Rightarrow> dict_keys (by_thread s)) []))
        (parse_list payload))"

text \<open>The writes are read only when they are new; the \<^verbatim>\<open>defaultdict\<close> entry is made in any case.\<close>

definition mem_put_writes :: "mem_store \<Rightarrow> json \<Rightarrow> mem_store \<times> json result" where
  "mem_put_writes s payload =
     (case parse_writes payload of
        Inl e \<Rightarrow> (s, Inl e)
      | Inr (key, ident) \<Rightarrow>
          (let existing = default_get (mem_writes s) key;
               set_writes = (\<lambda>ws. s\<lparr>mem_writes := dict_set (mem_writes s) key ws\<rparr>)
           in if ident \<in> fst ` set existing then (set_writes existing, Inr ok_reply)
              else (case jindex payload (u ''writes_b64'') of
                      Inl e \<Rightarrow> (set_writes existing, Inl e)
                    | Inr w \<Rightarrow> (set_writes (existing @ [(ident, w)]), Inr ok_reply))))"

section \<open>SQLite\<close>

record crow =
  c_seq :: nat
  c_key :: ckey
  c_cid :: pystr
  c_parent :: json
  c_blob :: pystr
  c_meta :: pystr
  c_versions :: pystr

record wrow =
  w_seq :: nat
  w_key :: "ckey \<times> pystr"
  w_ident :: "pystr \<times> pystr"
  w_value :: pystr

record sql_store =
  checkpoints :: "crow list"
  c_next :: nat
  writes :: "wrow list"
  w_next :: nat

definition sql_init :: sql_store where
  "sql_init = \<lparr>checkpoints = [], c_next = 1, writes = [], w_next = 1\<rparr>"

text \<open>Binding a string parameter: a lone surrogate cannot be encoded.\<close>

definition bind_text :: "pystr list \<Rightarrow> unit result" where
  "bind_text ss = (if list_all (list_all is_scalar) ss then Inr () else Inl UnicodeEncodeError)"

definition bind_null_text :: "json \<Rightarrow> unit result" where
  "bind_null_text v = (case v of JNull \<Rightarrow> Inr () | JStr s \<Rightarrow> bind_text [s] | _ \<Rightarrow> Inl UnmodelledType)"

definition sql_put :: "sql_store \<Rightarrow> json \<Rightarrow> sql_store \<times> json result" where
  "sql_put s payload =
     (case rbind (parse_put payload) (\<lambda>(key, cid, rec).
             rbind (bind_text [fst key, snd key, cid]) (\<lambda>_. rmap (\<lambda>_. (key, cid, rec)) (bind_null_text (parent rec)))) of
        Inl e \<Rightarrow> (s, Inl e)
      | Inr (key, cid, rec) \<Rightarrow>
          (s\<lparr>checkpoints := filter (\<lambda>r. \<not> (c_key r = key \<and> c_cid r = cid)) (checkpoints s) @
               [\<lparr>c_seq = c_next s, c_key = key, c_cid = cid, c_parent = parent rec,
                 c_blob = json_dumps_default (ck_blob rec), c_meta = json_dumps_default (ck_meta rec),
                 c_versions = json_dumps_default (new_versions rec)\<rparr>],
             c_next := c_next s + 1\<rparr>, Inr ok_reply))"

definition sql_get_tuple :: "sql_store \<Rightarrow> json \<Rightarrow> sql_store \<times> json result" where
  "sql_get_tuple s payload =
     (s, rbind (parse_get payload) (\<lambda>(key, c).
         rbind (bind_text ([fst key, snd key] @ (case c of None \<Rightarrow> [] | Some cid \<Rightarrow> [cid]))) (\<lambda>_.
         let rows = sort_key c_seq (filter (\<lambda>r. c_key r = key) (checkpoints s));
             row = (case c of
                      None \<Rightarrow> if rows = [] then None else Some (last rows)
                    | Some cid \<Rightarrow> find (\<lambda>r. c_cid r = cid) rows)
         in case row of
              None \<Rightarrow> Inr not_found
            | Some r \<Rightarrow>
                rbind (rmap_list (\<lambda>w. rmap (pending_item (fst (w_ident w))) (decode (w_value w)))
                  (sort_key w_seq (filter (\<lambda>w. w_key w = (key, c_cid r)) (writes s)))) (\<lambda>pending.
                rbind (decode (c_blob r)) (\<lambda>blob.
                rmap (\<lambda>meta. found_reply (c_cid r) (c_parent r) blob meta pending) (decode (c_meta r))))))
      )"

text \<open>\<^verbatim>\<open>LIMIT ?\<close>: a negative limit is no limit.\<close>

definition sql_limit :: "int option \<Rightarrow> 'a list \<Rightarrow> 'a list" where
  "sql_limit l rows = (case l of None \<Rightarrow> rows | Some n \<Rightarrow> if n < 0 then rows else take (nat n) rows)"

definition bind_limit :: "int option \<Rightarrow> unit result" where
  "bind_limit l =
     (case l of None \<Rightarrow> Inr () | Some n \<Rightarrow> if - (2 ^ 63) \<le> n \<and> n < 2 ^ 63 then Inr () else Inl OverflowError)"

definition sql_list :: "sql_store \<Rightarrow> json \<Rightarrow> sql_store \<times> json result" where
  "sql_list s payload =
     (s, rbind (parse_list payload) (\<lambda>q.
         let thread = (case q_thread q of None \<Rightarrow> [] | Some t \<Rightarrow> [t]);
             here = (\<lambda>r. case q_thread q of
                 None \<Rightarrow> True
               | Some t \<Rightarrow> fst (c_key r) = t \<and> (q_ns_given q \<longrightarrow> snd (c_key r) = q_ns q));
             bound = (case q_before q of
                 None \<Rightarrow> None
               | Some b \<Rightarrow> map_option c_seq
                   (find (\<lambda>r. Some (fst (c_key r)) = q_thread q \<and> snd (c_key r) = q_ns q \<and> c_cid r = b) (checkpoints s)));
             older = (\<lambda>r. case bound of None \<Rightarrow> True | Some n \<Rightarrow> c_seq r < n);
             rows = sql_limit (q_limit q) (rev (sort_key c_seq (filter (\<lambda>r. here r \<and> older r) (checkpoints s))))
         in rbind (case q_before q of None \<Rightarrow> Inr () | Some b \<Rightarrow> bind_text (thread @ [q_ns q, b])) (\<lambda>_.
            rbind (bind_text (thread @ (if q_thread q \<noteq> None \<and> q_ns_given q then [q_ns q] else []))) (\<lambda>_.
            rbind (bind_limit (q_limit q)) (\<lambda>_.
            rmap items_reply (rmap_list (\<lambda>r. rbind (decode (c_blob r)) (\<lambda>blob.
               rmap (list_item (c_key r) (c_cid r) (c_parent r) blob) (decode (c_meta r)))) rows))))))"

definition sql_put_writes :: "sql_store \<Rightarrow> json \<Rightarrow> sql_store \<times> json result" where
  "sql_put_writes s payload =
     (case rbind (parse_writes payload) (\<lambda>(key, ident).
             rbind (jindex payload (u ''writes_b64'')) (\<lambda>w.
             rmap (\<lambda>_. (key, ident, w)) (bind_text [fst (fst key), snd (fst key), snd key, fst ident, snd ident]))) of
        Inl e \<Rightarrow> (s, Inl e)
      | Inr (key, ident, w) \<Rightarrow>
          (if list_ex (\<lambda>r. w_key r = key \<and> w_ident r = ident) (writes s) then (s, Inr ok_reply)
           else (s\<lparr>writes := writes s @
                     [\<lparr>w_seq = w_next s, w_key = key, w_ident = ident, w_value = json_dumps_default w\<rparr>],
                   w_next := w_next s + 1\<rparr>, Inr ok_reply)))"

end
