(* ===== verification/Checkpoint_Props.thy ===== *)
theory Checkpoint_Props
  imports Checkpoint_Store
begin

text \<open>
  The contract of a checkpoint store as an abstract state and as the locale \<open>checkpoint_store\<close>;
  its interpretation by the in-memory and by the SQLite store; and what follows for both.
\<close>

section \<open>The contract of a checkpoint store\<close>

text \<open>
  What a store holds: for every thread and namespace its checkpoints, the newest last, and for
  every checkpoint its pending writes in the order they came.
\<close>

record spec_store =
  hist :: "ckey \<Rightarrow> (pystr \<times> ckpt) list"
  pend :: "ckey \<times> pystr \<Rightarrow> ((pystr \<times> pystr) \<times> json) list"

definition spec_init :: spec_store where
  "spec_init = \<lparr>hist = (\<lambda>_. []), pend = (\<lambda>_. [])\<rparr>"

definition spec_put :: "spec_store \<Rightarrow> ckey \<Rightarrow> pystr \<Rightarrow> ckpt \<Rightarrow> spec_store" where
  "spec_put v key cid rec =
     v\<lparr>hist := (hist v)(key := filter (\<lambda>(c, _). c \<noteq> cid) (hist v key) @ [(cid, rec)])\<rparr>"

definition spec_get :: "spec_store \<Rightarrow> ckey \<Rightarrow> pystr option \<Rightarrow> json" where
  "spec_get v key c =
     (case (case c of
              None \<Rightarrow> if hist v key = [] then None else Some (last (hist v key))
            | Some cid \<Rightarrow> map_option (Pair cid) (map_of (hist v key) cid)) of
        None \<Rightarrow> not_found
      | Some (cid, rec) \<Rightarrow>
          found_reply cid (parent rec) (ck_blob rec) (ck_meta rec)
            (map (\<lambda>((task, path), w). pending_item task w) (pend v (key, cid))))"

definition after_pair :: "pystr option \<Rightarrow> (pystr \<times> ckpt) list \<Rightarrow> (pystr \<times> ckpt) list" where
  "after_pair before h =
     (case before of
        None \<Rightarrow> h
      | Some b \<Rightarrow> if b \<in> fst ` set h then tl (dropWhile (\<lambda>(c, _). c \<noteq> b) h) else h)"

definition limited :: "int option \<Rightarrow> 'a list \<Rightarrow> 'a list" where
  "limited limit xs = (case limit of None \<Rightarrow> xs | Some n \<Rightarrow> take (nat n) xs)"

definition pair_item :: "ckey \<Rightarrow> pystr \<times> ckpt \<Rightarrow> json" where
  "pair_item key = (\<lambda>(cid, rec). list_item key cid (parent rec) (ck_blob rec) (ck_meta rec))"

definition spec_list :: "spec_store \<Rightarrow> ckey \<Rightarrow> pystr option \<Rightarrow> int option \<Rightarrow> json" where
  "spec_list v key before limit =
     items_reply (map (pair_item key) (limited limit (after_pair before (rev (hist v key)))))"

definition spec_writes :: "spec_store \<Rightarrow> ckey \<times> pystr \<Rightarrow> pystr \<times> pystr \<Rightarrow> json \<Rightarrow> spec_store" where
  "spec_writes v key ident w =
     (if ident \<in> fst ` set (pend v key) then v
      else v\<lparr>pend := (pend v)(key := pend v key @ [(ident, w)])\<rparr>)"

text \<open>The requests that the contract covers: what survives the wire, and listings of one namespace.\<close>

definition put_wf :: "ckey \<Rightarrow> pystr \<Rightarrow> ckpt \<Rightarrow> bool" where
  "put_wf key cid rec \<longleftrightarrow> list_all is_scalar (fst key) \<and> list_all is_scalar (snd key) \<and> list_all is_scalar cid \<and>
     wf_json (ck_blob rec) \<and> wf_json (ck_meta rec) \<and> wf_json (new_versions rec) \<and>
     (case parent rec of JNull \<Rightarrow> True | JStr s \<Rightarrow> list_all is_scalar s | _ \<Rightarrow> False)"

definition get_wf :: "ckey \<Rightarrow> pystr option \<Rightarrow> bool" where
  "get_wf key c \<longleftrightarrow> list_all is_scalar (fst key) \<and> list_all is_scalar (snd key) \<and>
     (case c of None \<Rightarrow> True | Some cid \<Rightarrow> list_all is_scalar cid)"

definition limit_ok :: "int option \<Rightarrow> bool" where
  "limit_ok l = (case l of None \<Rightarrow> True | Some n \<Rightarrow> 1 \<le> n \<and> n < 2 ^ 63)"

definition list_wf :: "query \<Rightarrow> bool" where
  "list_wf q \<longleftrightarrow> (case q_thread q of None \<Rightarrow> False | Some t \<Rightarrow> list_all is_scalar t) \<and> q_ns_given q \<and>
     list_all is_scalar (q_ns q) \<and> limit_ok (q_limit q) \<and>
     (case q_before q of None \<Rightarrow> True | Some b \<Rightarrow> list_all is_scalar b)"

definition writes_wf :: "ckey \<times> pystr \<Rightarrow> pystr \<times> pystr \<Rightarrow> json \<Rightarrow> bool" where
  "writes_wf key ident w \<longleftrightarrow> list_all is_scalar (fst (fst key)) \<and> list_all is_scalar (snd (fst key)) \<and>
     list_all is_scalar (snd key) \<and> list_all is_scalar (fst ident) \<and> list_all is_scalar (snd ident) \<and> wf_json w"

section \<open>Sequences of requests\<close>

datatype store_op = Put json | Get json | List json | PutWrites json

definition store_step ::
    "('s \<Rightarrow> json \<Rightarrow> 's \<times> json result) \<Rightarrow> ('s \<Rightarrow> json \<Rightarrow> 's \<times> json result) \<Rightarrow> ('s \<Rightarrow> json \<Rightarrow> 's \<times> json result) \<Rightarrow>
     ('s \<Rightarrow> json \<Rightarrow> 's \<times> json result) \<Rightarrow> 's \<Rightarrow> store_op \<Rightarrow> 's \<times> json result" where
  "store_step put get lst put_writes s op =
     (case op of Put p \<Rightarrow> put s p | Get p \<Rightarrow> get s p | List p \<Rightarrow> lst s p | PutWrites p \<Rightarrow> put_writes s p)"

fun run_ops :: "('s \<Rightarrow> 'o \<Rightarrow> 's \<times> 'r) \<Rightarrow> 's \<Rightarrow> 'o list \<Rightarrow> 's \<times> 'r list" where
  "run_ops step s [] = (s, [])"
| "run_ops step s (op # ops) = (let (s1, r) = step s op; (s2, rs) = run_ops step s1 ops in (s2, r # rs))"

definition mem_step :: "mem_store \<Rightarrow> store_op \<Rightarrow> mem_store \<times> json result" where
  "mem_step = store_step mem_put mem_get_tuple mem_list mem_put_writes"

definition sql_step :: "sql_store \<Rightarrow> store_op \<Rightarrow> sql_store \<times> json result" where
  "sql_step = store_step sql_put sql_get_tuple sql_list sql_put_writes"

definition spec_step :: "spec_store \<Rightarrow> store_op \<Rightarrow> spec_store \<times> json result" where
  "spec_step v op =
     (case op of
        Put p \<Rightarrow> (case parse_put p of Inl e \<Rightarrow> (v, Inl e) | Inr (key, cid, rec) \<Rightarrow> (spec_put v key cid rec, Inr ok_reply))
      | Get p \<Rightarrow> (v, rmap (\<lambda>(key, c). spec_get v key c) (parse_get p))
      | List p \<Rightarrow> (v, rmap (\<lambda>q. spec_list v (case q_thread q of None \<Rightarrow> [] | Some t \<Rightarrow> t, q_ns q) (q_before q) (q_limit q)) (parse_list p))
      | PutWrites p \<Rightarrow>
          (case parse_writes p of Inl e \<Rightarrow> (v, Inl e)
           | Inr (key, ident) \<Rightarrow>
               (case jindex p (u ''writes_b64'') of Inl e \<Rightarrow> (v, Inl e)
                | Inr w \<Rightarrow> (spec_writes v key ident w, Inr ok_reply))))"

text \<open>A request with malformed fields is covered too: both stores raise the same exception.\<close>

definition op_ok :: "store_op \<Rightarrow> bool" where
  "op_ok op =
     (case op of
        Put p \<Rightarrow> (case parse_put p of Inl _ \<Rightarrow> True | Inr (key, cid, rec) \<Rightarrow> put_wf key cid rec)
      | Get p \<Rightarrow> (case parse_get p of Inl _ \<Rightarrow> True | Inr (key, c) \<Rightarrow> get_wf key c)
      | List p \<Rightarrow> (case parse_list p of Inl _ \<Rightarrow> True | Inr q \<Rightarrow> list_wf q)
      | PutWrites p \<Rightarrow>
          (case parse_writes p of Inl _ \<Rightarrow> True
           | Inr (key, ident) \<Rightarrow> (case jindex p (u ''writes_b64'') of Inl _ \<Rightarrow> False | Inr w \<Rightarrow> writes_wf key ident w)))"

section \<open>The interface\<close>

locale checkpoint_store =
  fixes init :: 's
    and put get_tuple lst put_writes :: "'s \<Rightarrow> json \<Rightarrow> 's \<times> json result"
    and view :: "'s \<Rightarrow> spec_store" and invar :: "'s \<Rightarrow> bool"
  assumes init_ok: "invar init" "view init = spec_init"
    and put_error: "parse_put p = Inl e \<Longrightarrow> put s p = (s, Inl e)"
    and put_ok: "invar s \<Longrightarrow> parse_put p = Inr (key, cid, rec) \<Longrightarrow> put_wf key cid rec \<Longrightarrow>
      \<exists>s'. put s p = (s', Inr ok_reply) \<and> invar s' \<and> view s' = spec_put (view s) key cid rec"
    and get_error: "parse_get p = Inl e \<Longrightarrow> get_tuple s p = (s, Inl e)"
    and get_ok: "invar s \<Longrightarrow> parse_get p = Inr (key, c) \<Longrightarrow> get_wf key c \<Longrightarrow>
      get_tuple s p = (s, Inr (spec_get (view s) key c))"
    and list_error: "parse_list p = Inl e \<Longrightarrow> lst s p = (s, Inl e)"
    and list_ok: "invar s \<Longrightarrow> parse_list p = Inr q \<Longrightarrow> list_wf q \<Longrightarrow> q_thread q = Some t \<Longrightarrow>
      lst s p = (s, Inr (spec_list (view s) (t, q_ns q) (q_before q) (q_limit q)))"
    and writes_error: "parse_writes p = Inl e \<Longrightarrow> put_writes s p = (s, Inl e)"
    and writes_ok: "invar s \<Longrightarrow> parse_writes p = Inr (at_ckpt, ident) \<Longrightarrow> jindex p (u ''writes_b64'') = Inr w \<Longrightarrow>
      writes_wf at_ckpt ident w \<Longrightarrow>
      \<exists>s'. put_writes s p = (s', Inr ok_reply) \<and> invar s' \<and> view s' = spec_writes (view s) at_ckpt ident w"
begin

lemma step_spec:
  assumes "invar s" "op_ok op" "store_step put get_tuple lst put_writes s op = (s', r)"
  shows "invar s' \<and> spec_step (view s) op = (view s', r)"
proof (cases op)
  case (Put p)
  then show ?thesis
    using assms put_error [of p _ s] put_ok [OF assms(1), of p]
    by (fastforce simp: op_ok_def store_step_def spec_step_def split: sum.splits)
next
  case (Get p)
  then show ?thesis
    using assms get_error [of p _ s] get_ok [OF assms(1), of p]
    by (fastforce simp: op_ok_def store_step_def spec_step_def split: sum.splits)
next
  case (List p)
  show ?thesis
  proof (cases "parse_list p")
    case (Inl e)
    then show ?thesis using List assms list_error [of p e s] by (simp add: store_step_def spec_step_def)
  next
    case (Inr q)
    then have wf: "list_wf q" using List assms(2) by (simp add: op_ok_def)
    then obtain t where "q_thread q = Some t" by (auto simp: list_wf_def split: option.splits)
    then show ?thesis using List Inr assms list_ok [OF assms(1) Inr wf] by (auto simp: store_step_def spec_step_def)
  qed
next
  case (PutWrites p)
  show ?thesis
  proof (cases "parse_writes p")
    case (Inl e)
    then show ?thesis using PutWrites assms writes_error [of p e s] by (simp add: store_step_def spec_step_def)
  next
    case (Inr x)
    then obtain key ident w where x: "parse_writes p = Inr (key, ident)" "jindex p (u ''writes_b64'') = Inr w" "writes_wf key ident w"
      using PutWrites assms(2) by (cases "jindex p (u ''writes_b64'')") (auto simp: op_ok_def split: prod.splits)
    from writes_ok [OF assms(1) x] obtain s1
      where "put_writes s p = (s1, Inr ok_reply)" "invar s1" "view s1 = spec_writes (view s) key ident w" by blast
    then show ?thesis using PutWrites x assms(3) by (simp add: store_step_def spec_step_def)
  qed
qed

lemma run_spec:
  "invar s \<Longrightarrow> list_all op_ok ops \<Longrightarrow> run_ops (store_step put get_tuple lst put_writes) s ops = (s', rs) \<Longrightarrow>
   invar s' \<and> run_ops spec_step (view s) ops = (view s', rs)"
proof (induction ops arbitrary: s rs)
  case (Cons op ops)
  obtain s1 r where r: "store_step put get_tuple lst put_writes s op = (s1, r)" by fastforce
  obtain rs' where rs: "run_ops (store_step put get_tuple lst put_writes) s1 ops = (s', rs')" "rs = r # rs'"
    using Cons.prems(3) r by (auto split: prod.splits)
  have "invar s1 \<and> spec_step (view s) op = (view s1, r)" using step_spec [OF Cons.prems(1) _ r] Cons.prems(2) by simp
  with Cons.IH [of s1 rs'] Cons.prems(2) rs show ?case by simp
qed simp

lemma replies_spec:
  assumes "list_all op_ok ops"
  shows "snd (run_ops (store_step put get_tuple lst put_writes) init ops) = snd (run_ops spec_step spec_init ops)"
proof -
  obtain s' rs where r: "run_ops (store_step put get_tuple lst put_writes) init ops = (s', rs)" by fastforce
  from run_spec [OF init_ok(1) assms r] r init_ok(2) show ?thesis by simp
qed

lemma put_get:
  assumes "invar s" "parse_put p = Inr (key, cid, rec)" "put_wf key cid rec"
    "parse_get q = Inr (key, c)" "c = None \<or> c = Some cid"
  shows "\<exists>pending. snd (get_tuple (fst (put s p)) q) = Inr (found_reply cid (parent rec) (ck_blob rec) (ck_meta rec) pending)"
proof -
  obtain s' where s': "put s p = (s', Inr ok_reply)" "invar s'" "view s' = spec_put (view s) key cid rec"
    using put_ok [OF assms(1-3)] by blast
  have g: "get_wf key c" using assms(3,5) by (auto simp: put_wf_def get_wf_def)
  have "map_of (filter (\<lambda>(x, _). x \<noteq> cid) h @ [(cid, rec)]) cid = Some rec" for h :: "(pystr \<times> ckpt) list"
    by (induction h) auto
  with assms(5) show ?thesis
    using s' get_ok [OF s'(2) assms(4) g] by (auto simp: spec_get_def spec_put_def)
qed

lemma put_writes_twice:
  assumes "invar s" "parse_writes p = Inr (key, ident)" "jindex p (u ''writes_b64'') = Inr w" "writes_wf key ident w"
    "parse_writes p' = Inr (key, ident)" "jindex p' (u ''writes_b64'') = Inr w'" "writes_wf key ident w'"
  shows "view (fst (put_writes (fst (put_writes s p)) p')) = view (fst (put_writes s p))"
proof -
  obtain s1 where s1: "put_writes s p = (s1, Inr ok_reply)" "invar s1" "view s1 = spec_writes (view s) key ident w"
    using writes_ok [OF assms(1-4)] by blast
  obtain s2 where s2: "put_writes s1 p' = (s2, Inr ok_reply)" "view s2 = spec_writes (view s1) key ident w'"
    using writes_ok [OF s1(2) assms(5-7)] by blast
  show ?thesis using s1 s2 by (auto simp: spec_writes_def)
qed

end

section \<open>The in-memory store meets the contract\<close>

lemma default_get_simps [simp]:
  "default_get [] k = []"
  "default_get (dict_set d k v) k' = (if k' = k then v else default_get d k')"
  by (simp_all add: default_get_def)

definition mem_view :: "mem_store \<Rightarrow> spec_store" where
  "mem_view s =
     \<lparr>hist = (\<lambda>key. map (\<lambda>c. (c, the (dict_get (default_get (by_thread s) key) c))) (default_get (mem_order s) key)),
      pend = default_get (mem_writes s)\<rparr>"

definition mem_inv :: "mem_store \<Rightarrow> bool" where
  "mem_inv s \<longleftrightarrow> (\<forall>key. distinct (default_get (mem_order s) key) \<and>
     (\<forall>c. c \<in> set (default_get (mem_order s) key) \<longleftrightarrow> dict_get (default_get (by_thread s) key) c \<noteq> None))"

lemma mem_invD:
  "mem_inv s \<Longrightarrow> distinct (default_get (mem_order s) key)"
  "mem_inv s \<Longrightarrow> x \<in> set (default_get (mem_order s) key) \<longleftrightarrow> dict_get (default_get (by_thread s) key) x \<noteq> None"
  unfolding mem_inv_def by blast+

lemma mem_put_ok:
  assumes "mem_inv s" "parse_put p = Inr (key, cid, rec)"
  shows "\<exists>s'. mem_put s p = (s', Inr ok_reply) \<and> mem_inv s' \<and> mem_view s' = spec_put (mem_view s) key cid rec"
proof -
  let ?o = "default_get (mem_order s) key" and ?r = "default_get (by_thread s) key"
  have o: "(if cid \<in> set ?o then remove1 cid ?o else ?o) = filter (\<lambda>c. c \<noteq> cid) ?o" (is "?o1 = _")
  proof -
    have "distinct ?o" by (rule mem_invD [OF assms(1)])
    then have "remove1 cid ?o = removeAll cid ?o" by (rule distinct_remove1_removeAll)
    moreover have "removeAll cid ?o = filter (\<lambda>c. c \<noteq> cid) ?o" by (simp add: removeAll_filter_not_eq eq_commute)
    moreover have "cid \<notin> set ?o \<Longrightarrow> filter (\<lambda>c. c \<noteq> cid) ?o = ?o" by (rule filter_True) auto
    ultimately show ?thesis by simp
  qed
  define s' where "s' = s\<lparr>by_thread := dict_set (by_thread s) key (dict_set ?r cid rec),
      mem_order := dict_set (mem_order s) key (filter (\<lambda>c. c \<noteq> cid) ?o @ [cid])\<rparr>"
  have "mem_put s p = (s', Inr ok_reply)" using assms(2) o by (simp add: mem_put_def Let_def s'_def)
  moreover have "mem_inv s'" using assms(1) by (auto simp: mem_inv_def s'_def)
  moreover have "mem_view s' = spec_put (mem_view s) key cid rec"
    by (auto simp: mem_view_def spec_put_def s'_def fun_eq_iff filter_map o_def)
  ultimately show ?thesis by blast
qed

lemma mem_get_ok:
  assumes "mem_inv s" "parse_get p = Inr (key, c)"
  shows "mem_get_tuple s p = (s, Inr (spec_get (mem_view s) key c))"
proof -
  let ?o = "default_get (mem_order s) key" and ?r = "default_get (by_thread s) key"
  have i: "x \<in> set ?o \<longleftrightarrow> dict_get ?r x \<noteq> None" for x by (rule mem_invD [OF assms(1)])
  have e: "?r = [] \<Longrightarrow> ?o = []" using i by (metis dict_get_Nil list.set_intros(1) neq_Nil_conv)
  have m: "map_of (map (\<lambda>c. (c, the (dict_get ?r c))) ?o) x = (if x \<in> set ?o then Some (the (dict_get ?r x)) else None)" for x
    by (simp add: map_of_map_restrict)
  show ?thesis
  proof (cases c)
    case None
    then show ?thesis
      using assms(2) e i [of "last ?o"]
      by (auto simp: mem_get_tuple_def spec_get_def mem_view_def Let_def last_map)
  next
    case (Some cid)
    then show ?thesis
      using assms(2) i [of cid] m [of cid] e
      by (auto simp: mem_get_tuple_def spec_get_def mem_view_def Let_def)
  qed
qed

lemma list_ids_limited:
  assumes "\<forall>c \<in> set ids. dict_get recs c \<noteq> None" "\<not> reached limit (length items)"
  shows "list_ids key recs limit ids items =
    items @ map (pair_item key) (limited (map_option (\<lambda>n. n - int (length items)) limit) (map (\<lambda>c. (c, the (dict_get recs c))) ids))"
  using assms
proof (induction ids arbitrary: items)
  case Nil
  then show ?case by (simp add: limited_def split: option.splits)
next
  case (Cons c ids)
  then obtain rec where r: "dict_get recs c = Some rec" by auto
  let ?items = "items @ [list_item key c (parent rec) (ck_blob rec) (ck_meta rec)]"
  show ?case
  proof (cases "reached limit (length ?items)")
    case True
    with Cons.prems(2) obtain n where "limit = Some n" "n = int (length items) + 1"
      by (auto simp: reached_def split: option.splits)
    then show ?thesis using r True by (simp add: limited_def pair_item_def)
  next
    case False
    have "limited (map_option (\<lambda>n. n - int (length items)) limit) (x # xs) =
        x # limited (map_option (\<lambda>n. n - int (length ?items)) limit) xs" for x :: "pystr \<times> ckpt" and xs
      using False Cons.prems(2)
      by (cases limit) (auto simp: limited_def reached_def take_Cons' algebra_simps nat_diff_distrib' nat_add_distrib)
    then show ?thesis using r False Cons.IH [of ?items] Cons.prems by (simp add: pair_item_def)
  qed
qed

lemma after_id_pairs:
  "map (\<lambda>c. (c, f c)) (after_id before ids) = after_pair before (map (\<lambda>c. (c, f c)) ids)"
proof -
  have "tl (dropWhile (\<lambda>(c, _). c \<noteq> b) (map (\<lambda>c. (c, f c)) ids)) = map (\<lambda>c. (c, f c)) (tl (dropWhile (\<lambda>c. c \<noteq> b) ids))" for b
    by (induction ids) auto
  then show ?thesis by (auto simp: after_id_def after_pair_def image_image split: option.splits)
qed

lemma set_after_id: "set (after_id before ids) \<subseteq> set ids"
proof -
  have "set (tl (dropWhile P ids)) \<subseteq> set ids" for P :: "pystr \<Rightarrow> bool"
    by (metis list.sel(2) list.set_sel(2) set_dropWhileD subsetI)
  then show ?thesis by (auto simp: after_id_def split: option.splits)
qed

lemma mem_list_ok:
  assumes "mem_inv s" "parse_list p = Inr q" "list_wf q" "q_thread q = Some t"
  shows "mem_list s p = (s, Inr (spec_list (mem_view s) (t, q_ns q) (q_before q) (q_limit q)))"
proof -
  let ?key = "(t, q_ns q)"
  let ?o = "default_get (mem_order s) ?key" and ?r = "default_get (by_thread s) ?key"
  let ?ids = "after_id (q_before q) (rev ?o)"
  have nr: "\<not> reached (q_limit q) 0" using assms(3) by (auto simp: list_wf_def limit_ok_def reached_def split: option.splits)
  have "\<forall>c \<in> set ?ids. dict_get ?r c \<noteq> None"
    using set_after_id [of "q_before q" "rev ?o"] assms(1) by (auto simp: mem_inv_def)
  from list_ids_limited [OF this, of "q_limit q" "[]" ?key] nr
  have "list_ids ?key ?r (q_limit q) ?ids [] = map (pair_item ?key) (limited (q_limit q) (map (\<lambda>c. (c, the (dict_get ?r c))) ?ids))"
    by (simp add: option.map_ident)
  moreover have "list_keys s (q_before q) (q_limit q) [?key] [] = list_ids ?key ?r (q_limit q) ?ids []"
  proof (cases "dict_get (mem_order s) ?key")
    case None
    then have "?ids = []" by (simp add: default_get_def after_id_def split: option.splits)
    with None show ?thesis by simp
  qed (simp add: Let_def default_get_def)
  ultimately show ?thesis
    using assms(2,4) by (simp add: mem_list_def spec_list_def mem_view_def rev_map after_id_pairs)
qed

lemma mem_writes_ok:
  assumes "mem_inv s" "parse_writes p = Inr (key, ident)" "jindex p (u ''writes_b64'') = Inr w"
  shows "\<exists>s'. mem_put_writes s p = (s', Inr ok_reply) \<and> mem_inv s' \<and> mem_view s' = spec_writes (mem_view s) key ident w"
  using assms
  by (auto simp: mem_put_writes_def spec_writes_def mem_view_def mem_inv_def Let_def fun_eq_iff)

interpretation mem: checkpoint_store mem_init mem_put mem_get_tuple mem_list mem_put_writes mem_view mem_inv
proof unfold_locales
  show "mem_inv mem_init" by (simp add: mem_inv_def mem_init_def)
  show "mem_view mem_init = spec_init" by (simp add: mem_view_def mem_init_def spec_init_def fun_eq_iff)
qed (erule mem_put_ok mem_get_ok mem_list_ok mem_writes_ok, assumption+ |
     simp add: mem_put_def mem_get_tuple_def mem_list_def mem_put_writes_def)+

section \<open>The SQLite store meets the contract\<close>

definition undump :: "pystr \<Rightarrow> json" where
  "undump t = (case loads_str t of None \<Rightarrow> JNull | Some v \<Rightarrow> v)"

lemma undump_dumps [simp]: "wf_json v \<Longrightarrow> undump (json_dumps_default v) = v"
  by (simp add: undump_def json_simps)

definition row_ckpt :: "crow \<Rightarrow> ckpt" where
  "row_ckpt r = \<lparr>parent = c_parent r, ck_blob = undump (c_blob r), ck_meta = undump (c_meta r),
     new_versions = undump (c_versions r)\<rparr>"

definition key_rows :: "sql_store \<Rightarrow> ckey \<Rightarrow> crow list" where
  "key_rows s key = filter (\<lambda>r. c_key r = key) (checkpoints s)"

definition at_rows :: "sql_store \<Rightarrow> ckey \<times> pystr \<Rightarrow> wrow list" where
  "at_rows s key = filter (\<lambda>r. w_key r = key) (writes s)"

definition sql_view :: "sql_store \<Rightarrow> spec_store" where
  "sql_view s =
     \<lparr>hist = (\<lambda>key. map (\<lambda>r. (c_cid r, row_ckpt r)) (key_rows s key)),
      pend = (\<lambda>key. map (\<lambda>r. (w_ident r, undump (w_value r))) (at_rows s key))\<rparr>"

definition dumped :: "pystr \<Rightarrow> bool" where
  "dumped t \<longleftrightarrow> decode t = Inr (undump t)"

lemma dumped_dumps: "wf_json v \<Longrightarrow> dumped (json_dumps_default v)"
  by (simp add: dumped_def decode_def undump_def json_simps)

definition sql_inv :: "sql_store \<Rightarrow> bool" where
  "sql_inv s \<longleftrightarrow>
     sorted_wrt (<) (map c_seq (checkpoints s)) \<and> (\<forall>r \<in> set (checkpoints s). c_seq r < c_next s) \<and>
     distinct (map (\<lambda>r. (c_key r, c_cid r)) (checkpoints s)) \<and>
     (\<forall>r \<in> set (checkpoints s). dumped (c_blob r) \<and> dumped (c_meta r)) \<and>
     sorted_wrt (<) (map w_seq (writes s)) \<and> (\<forall>r \<in> set (writes s). w_seq r < w_next s) \<and>
     (\<forall>r \<in> set (writes s). dumped (w_value r))"

lemma sorted_filter_map: "sorted_wrt (<) (map f xs) \<Longrightarrow> sorted_wrt (<) (map f (filter P xs))" for f :: "'a \<Rightarrow> nat"
  by (induction xs) auto

lemma sort_key_rows: "sorted_wrt (<) (map f xs) \<Longrightarrow> sort_key f (filter P xs) = filter P xs" for f :: "'a \<Rightarrow> nat"
  using sorted_filter_map [of f xs P] by (intro sort_key_id_if_sorted) (auto intro: strict_sorted_imp_sorted)

lemma distinct_cids:
  "distinct (map (\<lambda>r. (c_key r, c_cid r)) rows) \<Longrightarrow> distinct (map c_cid (filter (\<lambda>r. c_key r = key) rows))"
  by (induction rows) (auto simp: image_iff)

lemma sql_put_ok:
  assumes "sql_inv s" "parse_put p = Inr (key, cid, rec)" "put_wf key cid rec"
  shows "\<exists>s'. sql_put s p = (s', Inr ok_reply) \<and> sql_inv s' \<and> sql_view s' = spec_put (sql_view s) key cid rec"
proof -
  let ?old = "filter (\<lambda>r. \<not> (c_key r = key \<and> c_cid r = cid)) (checkpoints s)"
  let ?row = "\<lparr>c_seq = c_next s, c_key = key, c_cid = cid, c_parent = parent rec,
                 c_blob = json_dumps_default (ck_blob rec), c_meta = json_dumps_default (ck_meta rec),
                 c_versions = json_dumps_default (new_versions rec)\<rparr>"
  define s' where "s' = s\<lparr>checkpoints := ?old @ [?row], c_next := c_next s + 1\<rparr>"
  have b: "bind_text [fst key, snd key, cid] = Inr ()" "bind_null_text (parent rec) = Inr ()"
    using assms(3) by (auto simp: put_wf_def bind_text_def bind_null_text_def split: json.splits)
  have "sql_put s p = (s', Inr ok_reply)" using assms(2) b by (simp add: sql_put_def s'_def)
  moreover have "sql_inv s'"
    using assms(1,3) unfolding sql_inv_def s'_def
    by (auto simp: sorted_wrt_append sorted_filter_map put_wf_def dumped_dumps less_SucI distinct_map_filter)
  moreover have "sql_view s' = spec_put (sql_view s) key cid rec"
  proof -
    have "row_ckpt ?row = rec" using assms(3) by (simp add: row_ckpt_def put_wf_def)
    moreover have "filter (\<lambda>r. c_key r = k) ?old = (if k = key then filter (\<lambda>r. c_cid r \<noteq> cid) (key_rows s key) else key_rows s k)" for k
      by (auto simp: key_rows_def intro!: filter_cong)
    ultimately show ?thesis
      by (auto simp: sql_view_def spec_put_def s'_def fun_eq_iff key_rows_def at_rows_def filter_map o_def)
  qed
  ultimately show ?thesis by blast
qed

lemma sql_pending:
  assumes "sql_inv s"
  shows "rmap_list (\<lambda>w. rmap (pending_item (fst (w_ident w))) (decode (w_value w))) (sort_key w_seq (at_rows s key)) =
    Inr (map (\<lambda>((task, path), w). pending_item task w) (pend (sql_view s) key))"
proof -
  have "sort_key w_seq (at_rows s key) = at_rows s key"
    unfolding at_rows_def by (rule sort_key_rows) (use assms in \<open>simp add: sql_inv_def\<close>)
  moreover have "rmap_list (\<lambda>w. rmap (pending_item (fst (w_ident w))) (decode (w_value w))) (at_rows s key) =
      Inr (map (\<lambda>w. pending_item (fst (w_ident w)) (undump (w_value w))) (at_rows s key))"
    by (rule rmap_list_ok) (use assms in \<open>auto simp: sql_inv_def at_rows_def dumped_def\<close>)
  ultimately show ?thesis by (simp add: sql_view_def case_prod_beta o_def)
qed

lemma find_map_of:
  "map_of (map (\<lambda>r. (c_cid r, row_ckpt r)) rows) cid = map_option row_ckpt (find (\<lambda>r. c_cid r = cid) rows)"
  by (induction rows) auto

lemma find_Some_in: "find P xs = Some x \<Longrightarrow> x \<in> set xs \<and> P x"
  by (auto simp: find_Some_iff)

lemma sql_get_ok:
  assumes "sql_inv s" "parse_get p = Inr (key, c)" "get_wf key c"
  shows "sql_get_tuple s p = (s, Inr (spec_get (sql_view s) key c))"
proof -
  let ?rows = "key_rows s key"
  have b: "bind_text ([fst key, snd key] @ (case c of None \<Rightarrow> [] | Some cid \<Rightarrow> [cid])) = Inr ()"
    using assms(3) by (auto simp: get_wf_def bind_text_def split: option.splits)
  have s: "sort_key c_seq (filter (\<lambda>r. c_key r = key) (checkpoints s)) = ?rows"
    unfolding key_rows_def by (rule sort_key_rows) (use assms in \<open>simp add: sql_inv_def\<close>)
  let ?row = "case c of None \<Rightarrow> if ?rows = [] then None else Some (last ?rows) | Some cid \<Rightarrow> find (\<lambda>r. c_cid r = cid) ?rows"
  let ?reply = "\<lambda>r. found_reply (c_cid r) (c_parent r) (undump (c_blob r)) (undump (c_meta r))
      (map (\<lambda>((task, path), w). pending_item task w) (pend (sql_view s) (key, c_cid r)))"
  have d: "dumped (c_blob r) \<and> dumped (c_meta r)" if "?row = Some r" for r
  proof -
    from that have "r \<in> set ?rows" by (auto split: option.splits if_splits dest: find_Some_in)
    with assms(1) show ?thesis by (simp add: sql_inv_def key_rows_def)
  qed
  have "snd (sql_get_tuple s p) = Inr (case ?row of None \<Rightarrow> not_found | Some r \<Rightarrow> ?reply r)"
    using assms(2) b d sql_pending [OF assms(1), unfolded at_rows_def]
    by (auto simp: sql_get_tuple_def s Let_def dumped_def split: option.splits)
  moreover have "spec_get (sql_view s) key c = (case ?row of None \<Rightarrow> not_found | Some r \<Rightarrow> ?reply r)"
  proof (cases c)
    case None
    then show ?thesis by (simp add: spec_get_def sql_view_def last_map row_ckpt_def)
  next
    case (Some cid)
    then show ?thesis
      using find_Some_in [of "\<lambda>r. c_cid r = cid" ?rows]
      by (cases "find (\<lambda>r. c_cid r = cid) ?rows")
        (simp_all add: spec_get_def sql_view_def find_map_of, simp add: row_ckpt_def)
  qed
  ultimately show ?thesis by (simp add: sql_get_tuple_def)
qed

lemma after_pair_rows:
  assumes "sorted_wrt (<) (map c_seq rows)" "distinct (map c_cid rows)"
  shows "after_pair (Some b) (rev (map (\<lambda>r. (c_cid r, row_ckpt r)) rows)) =
    (case find (\<lambda>r. c_cid r = b) rows of
       None \<Rightarrow> rev (map (\<lambda>r. (c_cid r, row_ckpt r)) rows)
     | Some x \<Rightarrow> rev (map (\<lambda>r. (c_cid r, row_ckpt r)) (filter (\<lambda>r. c_seq r < c_seq x) rows)))"
proof (cases "b \<in> set (map c_cid rows)")
  case False
  then have "find (\<lambda>r. c_cid r = b) rows = None" by (auto simp: find_None_iff)
  with False show ?thesis by (auto simp: after_pair_def image_image)
next
  case True
  then obtain xs x ys where x: "rows = xs @ x # ys" "c_cid x = b" "\<forall>r \<in> set xs. c_cid r \<noteq> b" 
    using split_list_first_prop [of rows "\<lambda>r. c_cid r = b"] by auto
  have f: "find (\<lambda>r. c_cid r = b) rows = Some x" using x by (induction xs arbitrary: rows) auto
  have "\<forall>r \<in> set ys. c_cid r \<noteq> b" using assms(2) x by (auto simp: image_iff)
  then have "dropWhile (\<lambda>(c, _). c \<noteq> b) (rev (map (\<lambda>r. (c_cid r, row_ckpt r)) rows)) =
      rev (map (\<lambda>r. (c_cid r, row_ckpt r)) (xs @ [x]))"
    using x by (simp, subst dropWhile_append2) auto
  moreover have "filter (\<lambda>r. c_seq r < c_seq x) rows = xs"
  proof -
    have "filter (\<lambda>r. c_seq r < c_seq x) xs = xs" "filter (\<lambda>r. c_seq r < c_seq x) ys = []"
      using assms(1) x(1) by (auto simp: sorted_wrt_append filter_id_conv filter_empty_conv)
    then show ?thesis using x(1) by simp
  qed
  ultimately show ?thesis using True f by (auto simp: after_pair_def image_image)
qed

lemma limited_map: "limited l (map f xs) = map f (limited l xs)"
  by (simp add: limited_def take_map split: option.splits)

lemma find_filter_key:
  "find (\<lambda>r. fst (c_key r) = t \<and> snd (c_key r) = n \<and> P r) rows = find P (filter (\<lambda>r. c_key r = (t, n)) rows)"
  by (induction rows) (auto simp: prod_eq_iff)

lemma sql_list_ok:
  assumes "sql_inv s" "parse_list p = Inr q" "list_wf q" "q_thread q = Some t"
  shows "sql_list s p = (s, Inr (spec_list (sql_view s) (t, q_ns q) (q_before q) (q_limit q)))"
proof -
  let ?key = "(t, q_ns q)"
  let ?rows = "key_rows s ?key"
  let ?bound = "case q_before q of None \<Rightarrow> None
      | Some b \<Rightarrow> map_option c_seq (find (\<lambda>r. fst (c_key r) = t \<and> snd (c_key r) = q_ns q \<and> c_cid r = b) (checkpoints s))"
  let ?older = "\<lambda>r. case ?bound of None \<Rightarrow> True | Some n \<Rightarrow> c_seq r < n"
  have so: "sorted_wrt (<) (map c_seq (checkpoints s))" using assms(1) by (simp add: sql_inv_def)
  have g: "q_ns_given q" using assms(3) by (simp add: list_wf_def)
  have binds: "(case q_before q of None \<Rightarrow> Inr () | Some b \<Rightarrow> bind_text ([t] @ [q_ns q, b])) = Inr ()"
      "bind_text ([t] @ [q_ns q]) = Inr ()" "bind_limit (q_limit q) = Inr ()"
    using assms(3,4) by (auto simp: list_wf_def bind_text_def bind_limit_def limit_ok_def split: option.splits)
  have fnd: "find (\<lambda>r. fst (c_key r) = t \<and> snd (c_key r) = q_ns q \<and> c_cid r = b) (checkpoints s) = find (\<lambda>r. c_cid r = b) ?rows" for b
    unfolding key_rows_def by (rule find_filter_key)
  have rows: "filter (\<lambda>r. fst (c_key r) = t \<and> snd (c_key r) = q_ns q \<and> ?older r) (checkpoints s) = filter ?older ?rows"
    by (auto simp: key_rows_def prod_eq_iff intro!: filter_cong)
  have srt: "sort_key c_seq (filter ?older ?rows) = filter ?older ?rows"
    unfolding key_rows_def by (rule sort_key_rows, rule sorted_filter_map, rule so)
  have lim: "sql_limit (q_limit q) xs = limited (q_limit q) xs" for xs :: "crow list"
    using assms(3) by (auto simp: sql_limit_def limited_def list_wf_def limit_ok_def split: option.splits)
  have dec: "rmap_list (\<lambda>r. rbind (decode (c_blob r)) (\<lambda>blob.
               rmap (list_item (c_key r) (c_cid r) (c_parent r) blob) (decode (c_meta r)))) (limited l (rev (filter ?older ?rows))) =
      Inr (map (\<lambda>r. pair_item ?key (c_cid r, row_ckpt r)) (limited l (rev (filter ?older ?rows))))" for l
    by (rule rmap_list_ok)
      (use assms(1) in \<open>auto simp: sql_inv_def key_rows_def dumped_def pair_item_def row_ckpt_def limited_def
         split: option.splits dest!: in_set_takeD\<close>)
  have h: "rev (map (\<lambda>r. (c_cid r, row_ckpt r)) (filter ?older ?rows)) = after_pair (q_before q) (rev (hist (sql_view s) ?key))"
  proof (cases "q_before q")
    case None
    then show ?thesis by (simp add: after_pair_def sql_view_def)
  next
    case (Some b)
    have "sorted_wrt (<) (map c_seq ?rows)" "distinct (map c_cid ?rows)"
      using assms(1) unfolding key_rows_def sql_inv_def by (auto intro: sorted_filter_map distinct_cids)
    from after_pair_rows [OF this, of b] Some show ?thesis
      by (auto simp: sql_view_def fnd split: option.splits)
  qed
  have "map (\<lambda>r. pair_item ?key (c_cid r, row_ckpt r)) (limited l (rev (filter ?older ?rows))) =
      map (pair_item ?key) (limited l (after_pair (q_before q) (rev (hist (sql_view s) ?key))))" for l
    unfolding h [symmetric] rev_map limited_map by (simp add: o_def)
  then show ?thesis
    unfolding sql_list_def assms(2) rbind_simps Let_def assms(4) option.case option.inject
    using binds g by (simp add: rows srt lim dec spec_list_def)
qed

lemma sql_writes_ok:
  assumes "sql_inv s" "parse_writes p = Inr (key, ident)" "jindex p (u ''writes_b64'') = Inr w" "writes_wf key ident w"
  shows "\<exists>s'. sql_put_writes s p = (s', Inr ok_reply) \<and> sql_inv s' \<and> sql_view s' = spec_writes (sql_view s) key ident w"
proof -
  have b: "bind_text [fst (fst key), snd (fst key), snd key, fst ident, snd ident] = Inr ()"
    using assms(4) by (simp add: writes_wf_def bind_text_def)
  have e: "list_ex (\<lambda>r. w_key r = key \<and> w_ident r = ident) (writes s) \<longleftrightarrow> ident \<in> fst ` set (pend (sql_view s) key)"
    by (auto simp: list_ex_iff sql_view_def at_rows_def image_iff)
  show ?thesis
  proof (cases "list_ex (\<lambda>r. w_key r = key \<and> w_ident r = ident) (writes s)")
    case True
    with e assms b show ?thesis by (simp add: sql_put_writes_def spec_writes_def)
  next
    case False
    have "wf_json w" using assms(4) by (simp add: writes_wf_def)
    with False e assms b show ?thesis
      by (auto simp: sql_put_writes_def spec_writes_def sql_inv_def sorted_wrt_append dumped_dumps less_SucI
          sql_view_def at_rows_def key_rows_def fun_eq_iff)
  qed
qed

interpretation sql: checkpoint_store sql_init sql_put sql_get_tuple sql_list sql_put_writes sql_view sql_inv
proof unfold_locales
  show "sql_inv sql_init" by (simp add: sql_inv_def sql_init_def)
  show "sql_view sql_init = spec_init" by (simp add: sql_view_def sql_init_def spec_init_def fun_eq_iff key_rows_def at_rows_def)
qed (erule sql_put_ok sql_get_ok sql_list_ok sql_writes_ok, assumption+ |
     simp add: sql_put_def sql_get_tuple_def sql_list_def sql_put_writes_def)+

lemma spec_step_idem: "spec_step (fst (spec_step v op)) op = spec_step v op"
proof (cases op)
  case (Put p)
  have "filter (\<lambda>(c, _). c \<noteq> cid) (filter (\<lambda>(c, _). c \<noteq> cid) h @ [(cid, rec)]) = filter (\<lambda>(c, _). c \<noteq> cid) h"
    for cid and rec :: ckpt and h by (induction h) auto
  then show ?thesis using Put by (simp add: spec_step_def spec_put_def split: sum.splits prod.splits)
next
  case (PutWrites p)
  then show ?thesis by (auto simp: spec_step_def spec_writes_def split: sum.splits)
qed (simp_all add: spec_step_def)

lemma run_ops_append:
  "run_ops step s (xs @ ys) =
    (fst (run_ops step (fst (run_ops step s xs)) ys), snd (run_ops step s xs) @ snd (run_ops step (fst (run_ops step s xs)) ys))"
  by (induction xs arbitrary: s) (simp_all add: case_prod_beta Let_def)

lemma length_run_ops [simp]: "length (snd (run_ops step s xs)) = length xs"
  by (induction xs arbitrary: s) (simp_all add: case_prod_beta Let_def)

lemma spec_retry:
  "snd (run_ops spec_step v (ops @ op # op # later)) =
    take (Suc (length ops)) (snd (run_ops spec_step v (ops @ op # later))) @
    drop (length ops) (snd (run_ops spec_step v (ops @ op # later)))"
  using spec_step_idem by (simp add: run_ops_append case_prod_beta Let_def)

section \<open>Properties\<close>


text \<open>
  What is put is what is read. After any requests, a checkpoint that is put is returned, with
  its parent, blob and metadata, both by its id and as the latest one of its thread and
  namespace, by either store.
\<close>

theorem put_then_get:
  assumes "list_all op_ok ops" "parse_put p = Inr (key, cid, rec)" "put_wf key cid rec"
    "parse_get q = Inr (key, c)" "c = None \<or> c = Some cid"
  shows "(\<exists>pending. snd (mem_get_tuple (fst (mem_put (fst (run_ops mem_step mem_init ops)) p)) q) =
      Inr (found_reply cid (parent rec) (ck_blob rec) (ck_meta rec) pending)) \<and>
    (\<exists>pending. snd (sql_get_tuple (fst (sql_put (fst (run_ops sql_step sql_init ops)) p)) q) =
      Inr (found_reply cid (parent rec) (ck_blob rec) (ck_meta rec) pending))"
proof -
  have "mem_inv (fst (run_ops mem_step mem_init ops))" "sql_inv (fst (run_ops sql_step sql_init ops))"
    unfolding mem_step_def sql_step_def
    using mem.run_spec [OF mem.init_ok(1) assms(1)] sql.run_spec [OF sql.init_ok(1) assms(1)] by (metis prod.collapse)+
  then show ?thesis using mem.put_get [OF _ assms(2-5)] sql.put_get [OF _ assms(2-5)] by blast
qed

text \<open>
  C31: a retried request is invisible. Sending a request twice, as the saver does when the reply of
  the first was lost, gives the same reply again and changes no later reply: no duplicate
  checkpoint, no duplicate pending write, no change of order, in either store.
\<close>

theorem retry_is_invisible:
  assumes "list_all op_ok (ops @ op # later)"
  shows "snd (run_ops mem_step mem_init (ops @ op # op # later)) =
      take (Suc (length ops)) (snd (run_ops mem_step mem_init (ops @ op # later))) @
      drop (length ops) (snd (run_ops mem_step mem_init (ops @ op # later))) \<and>
    snd (run_ops sql_step sql_init (ops @ op # op # later)) =
      take (Suc (length ops)) (snd (run_ops sql_step sql_init (ops @ op # later))) @
      drop (length ops) (snd (run_ops sql_step sql_init (ops @ op # later)))"
proof -
  have twice: "list_all op_ok (ops @ op # op # later)" using assms by simp
  show ?thesis
    unfolding mem_step_def sql_step_def
    unfolding mem.replies_spec [OF twice] mem.replies_spec [OF assms] sql.replies_spec [OF twice] sql.replies_spec [OF assms]
    using spec_retry by blast
qed

definition sample_put :: "string \<Rightarrow> string \<Rightarrow> json" where
  "sample_put ns cid =
     JObj [(u ''thread'', JStr (u ''t'')), (u ''checkpoint_ns'', JStr (u ns)), (u ''checkpoint_id'', JStr (u cid)),
           (u ''parent_checkpoint_id'', JNull), (u ''checkpoint_b64'', JInt 1), (u ''metadata_b64'', JInt 2)]"

definition sample_get :: json where
  "sample_get = JObj [(u ''thread'', JStr (u ''t'')), (u ''checkpoint_ns'', JStr [])]"

definition sample_list :: "json \<Rightarrow> json \<Rightarrow> json" where
  "sample_list ns limit = JObj [(u ''thread'', JStr (u ''t'')), (u ''checkpoint_ns'', ns), (u ''limit'', limit)]"

lemma sample_parse:
  "parse_put (sample_put ns cid) = Inr ((u ''t'', u ns), u cid,
     \<lparr>parent = JNull, ck_blob = JInt 1, ck_meta = JInt 2, new_versions = JObj []\<rparr>)"
  "parse_get sample_get = Inr ((u ''t'', []), None)"
  "parse_list (sample_list (JStr (u ns)) JNull) = Inr \<lparr>q_thread = Some (u ''t''), q_ns = u ns, q_ns_given = True, q_before = None, q_limit = None\<rparr>"
  "parse_list (sample_list (JStr (u ns)) (JInt n)) = Inr \<lparr>q_thread = Some (u ''t''), q_ns = u ns, q_ns_given = True, q_before = None, q_limit = Some n\<rparr>"
  by (simp_all add: parse_put_def sample_put_def str_field_def jindex_def jget_def ns_of_def dict_get_def py_or_def
      parse_get_def sample_get_def parse_list_def sample_list_def)

lemma sample_parse_any: "parse_list (sample_list JNull JNull) =
    Inr \<lparr>q_thread = Some (u ''t''), q_ns = [], q_ns_given = False, q_before = None, q_limit = None\<rparr>"
  by (simp add: jget_def ns_of_def dict_get_def parse_list_def sample_list_def)

lemma decode_json_default: "wf_json v \<Longrightarrow> decode (json_dumps_default v) = Inr v"
  by (simp add: decode_def json_simps)

lemma sample_op_ok: "op_ok (Put (sample_put ns cid))" "op_ok (Get sample_get)" "op_ok (List (sample_list (JStr (u ns)) JNull))"
  by (simp_all add: op_ok_def sample_parse put_wf_def get_wf_def list_wf_def limit_ok_def scalar_u)


theorem put_then_get_witness:
  "\<exists>pending. snd (sql_get_tuple (fst (sql_put (fst (run_ops sql_step sql_init [Put (sample_put [] ''b'')])) (sample_put [] ''a''))) sample_get) =
      Inr (found_reply (u ''a'') JNull (JInt 1) (JInt 2) pending)"
  using put_then_get [of "[Put (sample_put [] ''b'')]", OF _ sample_parse(1) _ sample_parse(2) [folded u_Nil], of "''a''"]
  by (simp add: sample_op_ok put_wf_def scalar_u)

theorem retry_is_invisible_witness:
  "snd (run_ops sql_step sql_init ([Put (sample_put [] ''a'')] @ Put (sample_put [] ''b'') # Put (sample_put [] ''b'') # [Get sample_get])) =
   take (Suc (length [Put (sample_put [] ''a'')]))
     (snd (run_ops sql_step sql_init ([Put (sample_put [] ''a'')] @ Put (sample_put [] ''b'') # [Get sample_get]))) @
   drop (length [Put (sample_put [] ''a'')])
     (snd (run_ops sql_step sql_init ([Put (sample_put [] ''a'')] @ Put (sample_put [] ''b'') # [Get sample_get])))"
proof -
  have "list_all op_ok ([Put (sample_put [] ''a'')] @ Put (sample_put [] ''b'') # [Get sample_get])"
    by (simp add: sample_op_ok)
  from conjunct2 [OF retry_is_invisible [OF this]] show ?thesis .
qed

text \<open>
  Outside that contract the two backends differ. With the limit 0 the in-memory store returns
  one checkpoint and SQLite none; without a namespace the in-memory store lists the default
  namespace only and SQLite all of them.
\<close>

theorem backends_differ:
  "snd (mem_list (fst (mem_put mem_init (sample_put [] ''a''))) (sample_list (JStr []) (JInt 0))) =
     Inr (items_reply [list_item (u ''t'', []) (u ''a'') JNull (JInt 1) (JInt 2)]) \<and>
   snd (sql_list (fst (sql_put sql_init (sample_put [] ''a''))) (sample_list (JStr []) (JInt 0))) = Inr (items_reply []) \<and>
   snd (mem_list (fst (mem_put mem_init (sample_put ''n'' ''a''))) (sample_list JNull JNull)) = Inr (items_reply []) \<and>
   snd (sql_list (fst (sql_put sql_init (sample_put ''n'' ''a''))) (sample_list JNull JNull)) =
     Inr (items_reply [list_item (u ''t'', u ''n'') (u ''a'') JNull (JInt 1) (JInt 2)])"
  by (simp_all add: mem_list_def mem_put_def sql_list_def sql_put_def sample_parse_any sample_parse sample_parse(1,4) [of "[]", unfolded u_Nil]
      mem_init_def sql_init_def Let_def after_id_def reached_def bind_text_def bind_null_text_def bind_limit_def
      sql_limit_def scalar_u decode_json_default dict_get_def default_get_def dict_set_def) (simp add: u_def)

end
