(* ===== verification/Checkpoint_Backend.thy ===== *)
theory Checkpoint_Backend
  imports Checkpoint_Props
begin

text \<open>
  The choice of the checkpoint backend in \<^verbatim>\<open>checkpoint_worker.py\<close>: \<^verbatim>\<open>make_store\<close> reads
  \<^verbatim>\<open>PILOT_CHECKPOINT_DB\<close>, \<^verbatim>\<open>register\<close> puts the operations of the chosen store into the worker. The
  contract \<open>checkpoint_store\<close> holds for the chosen store because it holds for both.
\<close>

section \<open>The chosen store\<close>

datatype backend = InMemory mem_store | Sqlite sql_store

text \<open>The environment variable, if set, and what the database file holds (an empty schema if it is new).\<close>

definition make_store :: "pystr option \<Rightarrow> sql_store \<Rightarrow> backend" where
  "make_store var db =
     (let db_path = strip (case var of None \<Rightarrow> [] | Some s \<Rightarrow> s)
      in if db_path \<noteq> [] then Sqlite db else InMemory mem_init)"

text \<open>The module variable \<^verbatim>\<open>_STORE\<close>: made once per process.\<close>

definition the_store :: "backend option \<Rightarrow> pystr option \<Rightarrow> sql_store \<Rightarrow> backend" where
  "the_store cached var db = (case cached of None \<Rightarrow> make_store var db | Some b \<Rightarrow> b)"

definition on_backend ::
    "(mem_store \<Rightarrow> json \<Rightarrow> mem_store \<times> json result) \<Rightarrow> (sql_store \<Rightarrow> json \<Rightarrow> sql_store \<times> json result) \<Rightarrow>
     backend \<Rightarrow> json \<Rightarrow> backend \<times> json result" where
  "on_backend m s b p = (case b of InMemory x \<Rightarrow> apfst InMemory (m x p) | Sqlite x \<Rightarrow> apfst Sqlite (s x p))"

definition backend_put where "backend_put = on_backend mem_put sql_put"
definition backend_get_tuple where "backend_get_tuple = on_backend mem_get_tuple sql_get_tuple"
definition backend_list where "backend_list = on_backend mem_list sql_list"
definition backend_put_writes where "backend_put_writes = on_backend mem_put_writes sql_put_writes"

lemmas backend_ops = backend_put_def backend_get_tuple_def backend_list_def backend_put_writes_def

definition checkpoint_handlers :: "(pystr, backend \<Rightarrow> json \<Rightarrow> backend \<times> json result) dict" where
  "checkpoint_handlers =
     [(u ''checkpoint_put'', backend_put), (u ''checkpoint_get_tuple'', backend_get_tuple),
      (u ''checkpoint_list'', backend_list), (u ''checkpoint_put_writes'', backend_put_writes)]"

section \<open>The contract\<close>

definition backend_view :: "backend \<Rightarrow> spec_store" where
  "backend_view b = (case b of InMemory x \<Rightarrow> mem_view x | Sqlite x \<Rightarrow> sql_view x)"

definition backend_inv :: "backend \<Rightarrow> bool" where
  "backend_inv b = (case b of InMemory x \<Rightarrow> mem_inv x | Sqlite x \<Rightarrow> sql_inv x)"

lemmas backend_simps = on_backend_def backend_view_def backend_inv_def

interpretation chosen: checkpoint_store "make_store var sql_init" backend_put backend_get_tuple backend_list backend_put_writes
  backend_view backend_inv for var
proof unfold_locales
  show "backend_inv (make_store var sql_init)" "backend_view (make_store var sql_init) = spec_init"
    using mem.init_ok sql.init_ok by (simp_all add: make_store_def backend_simps Let_def)
  show "backend_put s p = (s, Inl e)" if "parse_put p = Inl e" for p e s
    using that mem.put_error sql.put_error by (cases s) (simp_all add: backend_ops backend_simps)
  show "\<exists>s'. backend_put s p = (s', Inr ok_reply) \<and> backend_inv s' \<and> backend_view s' = spec_put (backend_view s) key cid rec"
    if "backend_inv s" "parse_put p = Inr (key, cid, rec)" "put_wf key cid rec" for s p key cid rec
    using that mem.put_ok [of _ p key cid rec] sql.put_ok [of _ p key cid rec] by (cases s) (fastforce simp: backend_ops backend_simps)+
  show "backend_get_tuple s p = (s, Inl e)" if "parse_get p = Inl e" for p e s
    using that mem.get_error sql.get_error by (cases s) (simp_all add: backend_ops backend_simps)
  show "backend_get_tuple s p = (s, Inr (spec_get (backend_view s) key c))"
    if "backend_inv s" "parse_get p = Inr (key, c)" "get_wf key c" for s p key c
    using that mem.get_ok [of _ p key c] sql.get_ok [of _ p key c] by (cases s) (simp_all add: backend_ops backend_simps)
  show "backend_list s p = (s, Inl e)" if "parse_list p = Inl e" for p e s
    using that mem.list_error sql.list_error by (cases s) (simp_all add: backend_ops backend_simps)
  show "backend_list s p = (s, Inr (spec_list (backend_view s) (t, q_ns q) (q_before q) (q_limit q)))"
    if "backend_inv s" "parse_list p = Inr q" "list_wf q" "q_thread q = Some t" for s p q t
    using that mem.list_ok [of _ p q t] sql.list_ok [of _ p q t] by (cases s) (simp_all add: backend_ops backend_simps)
  show "backend_put_writes s p = (s, Inl e)" if "parse_writes p = Inl e" for p e s
    using that mem.writes_error sql.writes_error by (cases s) (simp_all add: backend_ops backend_simps)
  show "\<exists>s'. backend_put_writes s p = (s', Inr ok_reply) \<and> backend_inv s' \<and>
      backend_view s' = spec_writes (backend_view s) at_ckpt ident w"
    if "backend_inv s" "parse_writes p = Inr (at_ckpt, ident)" "jindex p (u ''writes_b64'') = Inr w" "writes_wf at_ckpt ident w"
    for s p at_ckpt ident w
    using that mem.writes_ok [of _ p at_ckpt ident w] sql.writes_ok [of _ p at_ckpt ident w]
    by (cases s) (fastforce simp: backend_ops backend_simps)+
qed

definition backend_step where
  "backend_step = store_step backend_put backend_get_tuple backend_list backend_put_writes"

section \<open>Properties\<close>

text \<open>A restart of the process: the module is loaded again on the database file as it is.\<close>

definition restart :: "pystr option \<Rightarrow> backend \<Rightarrow> backend" where
  "restart var b = the_store None var (case b of Sqlite db \<Rightarrow> db | InMemory _ \<Rightarrow> sql_init)"

lemma sqlite_stays: "\<exists>db'. fst (run_ops backend_step (Sqlite db) ops) = Sqlite db'"
proof (induction ops arbitrary: db)
  case (Cons op ops)
  have "\<exists>db1. fst (backend_step (Sqlite db) op) = Sqlite db1"
    by (cases op) (auto simp: backend_step_def store_step_def backend_ops on_backend_def apfst_def map_prod_def split: prod.splits)
  then obtain db1 r where s: "backend_step (Sqlite db) op = (Sqlite db1, r)" by (metis prod.collapse)
  with Cons [of db1] show ?case by (simp add: Let_def split_def)
qed simp



end
