(* ===== verification/Runnables.thy ===== *)
theory Runnables
  imports Client Complex_Main
begin

text \<open>
  \<^verbatim>\<open>runnables.py\<close>: the caller's side. The connection registry keeps one daemon connection per event
  loop; a remote call opens a stream, writes the request and reads newline-delimited frames until
  a frame with \<^verbatim>\<open>done\<close>; around it lie the retries, the validation models, the callbacks, and the
  fan-out, discovery and echo runnables.

  An asynchronous generator is the list of what it yields and how it ends. What the daemon, the
  network and the clock contribute to one attempt is the record \<open>attempt\<close>; the texts that the
  interpreter makes of floats and exceptions are the record \<open>texts\<close>.
\<close>

section \<open>The connection registry\<close>

text \<open>
  A connection is an index into the heap of connections, because calls in flight keep the object
  after the registry has dropped it. An event loop is its \<^verbatim>\<open>id()\<close>.
\<close>

record registry =
  by_loop :: "(int, nat) dict"
  conns :: "client list"
  sync_loop_id :: "int option"

definition registry_init :: registry where
  "registry_init = \<lparr>by_loop = [], conns = [], sync_loop_id = None\<rparr>"

definition at_conn :: "(client \<Rightarrow> client) \<Rightarrow> nat \<Rightarrow> registry \<Rightarrow> registry" where
  "at_conn f c r = r\<lparr>conns := (conns r)[c := f (conns r ! c)]\<rparr>"

text \<open>\<^verbatim>\<open>get\<close> under the lock of its loop; \<open>fresh\<close> is what \<^verbatim>\<open>PilotConnection.connect\<close> gives.\<close>

definition registry_get :: "registry \<Rightarrow> int \<Rightarrow> client result \<Rightarrow> registry \<times> nat result" where
  "registry_get r lid fresh =
     (let connect = (\<lambda>r. case fresh of
            Inl e \<Rightarrow> (r, Inl e)
          | Inr c \<Rightarrow> (r\<lparr>by_loop := dict_set (by_loop r) lid (length (conns r)), conns := conns r @ [c]\<rparr>,
                      Inr (length (conns r))))
      in case dict_get (by_loop r) lid of
           None \<Rightarrow> connect r
         | Some c \<Rightarrow> if is_alive (conns r ! c) then (r, Inr c) else connect (at_conn close c r))"

definition drop_current :: "registry \<Rightarrow> int \<Rightarrow> registry" where
  "drop_current r lid =
     (case dict_get (by_loop r) lid of
        None \<Rightarrow> r
      | Some c \<Rightarrow>
          if is_alive (conns r ! c) then r
          else at_conn close c (r\<lparr>by_loop := dict_del (by_loop r) lid\<rparr>))"

text \<open>\<open>current\<close> is the running loop, if there is one.\<close>

definition aclose_all :: "registry \<Rightarrow> int option \<Rightarrow> registry" where
  "aclose_all r current =
     foldl (\<lambda>s (lid, c). at_conn (if current = Some lid then close else force_close_sync) c s)
       (r\<lparr>by_loop := []\<rparr>) (by_loop r)"

text \<open>\<open>fresh\<close> is the id of a new event loop.\<close>

definition sync_loop :: "registry \<Rightarrow> int \<Rightarrow> registry \<times> int" where
  "sync_loop r fresh =
     (case sync_loop_id r of Some l \<Rightarrow> (r, l) | None \<Rightarrow> (r\<lparr>sync_loop_id := Some fresh\<rparr>, fresh))"

definition aclose_sync :: "registry \<Rightarrow> int \<Rightarrow> registry" where
  "aclose_sync r fresh =
     (let (r1, l) = sync_loop r fresh in (aclose_all r1 (Some l))\<lparr>sync_loop_id := None\<rparr>)"

section \<open>Runnables\<close>

type_synonym vmodel = "json \<Rightarrow> json result"

record remote_runnable =
  rr_node :: pystr
  rr_peer :: "addr + pystr"
  rr_port :: int
  rr_timeout_secs :: rat
  rr_input_model :: "vmodel option"
  rr_output_model :: "vmodel option"
  rr_max_retries :: int
  rr_retry_backoff_secs :: rat

text \<open>\<^verbatim>\<open>Addr.parse(peer) if isinstance(peer, str) and ":" in peer else peer\<close>.\<close>

definition parse_peer :: "addr + pystr \<Rightarrow> (addr + pystr) result" where
  "parse_peer p =
     (case p of Inl a \<Rightarrow> Inr (Inl a)
      | Inr s \<Rightarrow> if 58 \<in> set s then rmap Inl (addr_parse s) else Inr (Inr s))"

definition RUNNABLE_PORT :: int where "RUNNABLE_PORT = 5000"

definition remote_runnable_new ::
    "pystr \<Rightarrow> addr + pystr \<Rightarrow> int \<Rightarrow> rat \<Rightarrow> vmodel option \<Rightarrow> vmodel option \<Rightarrow> int \<Rightarrow> rat \<Rightarrow> remote_runnable result" where
  "remote_runnable_new node peer port timeout im om retries backoff =
     rmap (\<lambda>p. \<lparr>rr_node = node, rr_peer = p, rr_port = port, rr_timeout_secs = timeout,
                rr_input_model = im, rr_output_model = om, rr_max_retries = retries,
                rr_retry_backoff_secs = backoff\<rparr>) (parse_peer peer)"

record texts =
  t_repr :: "rat \<Rightarrow> pystr"
  t_exn :: "exn \<Rightarrow> pystr"

section \<open>One attempt\<close>

text \<open>
  One attempt: what getting the connection, resolving the host name, dialling and writing the
  request raise (or the daemon's answer), the loop time when reading starts, and for every turn
  of the read loop its time and what \<^verbatim>\<open>stream.read\<close> gives, \<^verbatim>\<open>b""\<close> being the end of the stream.
\<close>

record attempt =
  a_connect :: "exn option"
  a_resolve :: "json result"
  a_traceparent :: "(pystr, json) dict"
  a_dial :: "exn option"
  a_write :: "exn option"
  a_time :: rat
  a_reads :: "(rat \<times> bytes result) list"

datatype gen_end = Returned | Raised exn | Suspended

definition resolve_peer :: "addr + pystr \<Rightarrow> json result \<Rightarrow> addr result" where
  "resolve_peer peer reply =
     (case peer of
        Inl a \<Rightarrow> Inr a
      | Inr _ \<Rightarrow>
          rbind reply (\<lambda>info. rbind (jindex info (u ''address'')) (\<lambda>v.
            case v of JStr s \<Rightarrow> addr_parse s
            | _ \<Rightarrow> Inl (TypeError (u ''expected string or bytes-like object''))))
     )"

text \<open>\<^verbatim>\<open>frame["_peer"] = str(peer_addr)\<close>.\<close>

definition set_item :: "json \<Rightarrow> pystr \<Rightarrow> json \<Rightarrow> json result" where
  "set_item v k x =
     (case v of
        JObj ms \<Rightarrow> Inr (JObj (dict_set ms k x))
      | JArr _ \<Rightarrow> Inl (TypeError (u ''list indices must be integers or slices, not str''))
      | JStr _ \<Rightarrow> Inl (TypeError (quoted ''str'' @ u '' object does not support item assignment''))
      | JInt _ \<Rightarrow> Inl (TypeError (quoted ''int'' @ u '' object does not support item assignment''))
      | JBool _ \<Rightarrow> Inl (TypeError (quoted ''bool'' @ u '' object does not support item assignment''))
      | JFloat _ \<Rightarrow> Inl (TypeError (quoted ''float'' @ u '' object does not support item assignment''))
      | JNull \<Rightarrow> Inl (TypeError (quoted ''NoneType'' @ u '' object does not support item assignment'')))"

definition has_key :: "json \<Rightarrow> pystr \<Rightarrow> bool" where
  "has_key v k = (case v of JObj ms \<Rightarrow> dict_get ms k \<noteq> None | _ \<Rightarrow> False)"

definition field :: "json \<Rightarrow> pystr \<Rightarrow> json" where
  "field v k = (case jget v k of Inl _ \<Rightarrow> JNull | Inr x \<Rightarrow> x)"

text \<open>
  The inner loop over the complete lines of the buffer. A line that is not JSON is skipped (the
  second \<^verbatim>\<open>json.loads\<close> of the source parses the same line again). It ends with the bytes that are
  left, or with the generator's own end. The flag says whether a frame was seen.
\<close>

function lines :: "pystr \<Rightarrow> bytes \<Rightarrow> bool \<Rightarrow> json list \<times> (bytes \<times> bool + gen_end)" where
  "lines peer buf saw =
     (case cut_line buf of
        None \<Rightarrow> ([], Inl (buf, saw))
      | Some (line, rest) \<Rightarrow>
          if line = [] then lines peer rest saw
          else (case json_loads line of
                  Inl e \<Rightarrow> if e = JSONDecodeError then lines peer rest saw else ([], Inr (Raised e))
                | Inr v \<Rightarrow>
                    (case set_item v (u ''_peer'') (JStr peer) of
                       Inl e \<Rightarrow> ([], Inr (Raised e))
                     | Inr frame \<Rightarrow>
                         if truthy (field frame (u ''done'')) then ([frame], Inr Returned)
                         else (let (fs, r) = lines peer rest True in (frame # fs, r)))))"
  by pat_completeness auto
termination
  by (relation "measure (\<lambda>(peer, buf, saw). length buf)") (auto intro: cut_line_length)

declare lines.simps [simp del]

text \<open>The fallback for a handler that writes one object without a newline.\<close>

definition legacy :: "pystr \<Rightarrow> bytes \<Rightarrow> (json list \<times> gen_end) option" where
  "legacy peer buf =
     (if buf = [] then None
      else (case json_loads buf of
              Inl e \<Rightarrow> if e = JSONDecodeError then None else Some ([], Raised e)
            | Inr v \<Rightarrow>
                (case set_item v (u ''_peer'') (JStr peer) of
                   Inl e \<Rightarrow> Some ([], Raised e)
                 | Inr frame \<Rightarrow>
                     Some ([if has_key frame (u ''done'') then frame
                            else (case set_item frame (u ''done'') (JBool True) of Inl _ \<Rightarrow> frame | Inr g \<Rightarrow> g)],
                           Returned))))"

text \<open>The read loop; it is suspended when the list of its turns runs out.\<close>

fun read_frames :: "texts \<Rightarrow> pystr \<Rightarrow> rat \<Rightarrow> rat \<Rightarrow> (rat \<times> bytes result) list \<Rightarrow> bytes \<Rightarrow> bool \<Rightarrow> json list \<times> gen_end" where
  "read_frames tx peer secs deadline [] buf saw = ([], Suspended)"
| "read_frames tx peer secs deadline ((now, r) # rs) buf saw =
     (if deadline - now \<le> 0
      then ([], Raised (TimeoutError (u ''no reply from `'' @ peer @ u ''` within '' @ t_repr tx secs @ u ''s'')))
      else (case r of
              Inl e \<Rightarrow> ([], Raised e)
            | Inr chunk \<Rightarrow>
                if chunk = [] then
                  (if saw then ([], Returned)
                   else ([], Raised (PilotConnectionErrorWrapper
                               (u ''stream from `'' @ peer @ u ''` closed before any reply''))))
                else (case lines peer (buf @ chunk) saw of
                        (fs, Inr fin) \<Rightarrow> (fs, fin)
                      | (fs, Inl (rest, saw')) \<Rightarrow>
                          (case legacy peer rest of
                             Some (gs, fin) \<Rightarrow> (fs @ gs, fin)
                           | None \<Rightarrow>
                               (let (gs, fin) = read_frames tx peer secs deadline rs rest saw'
                                in (fs @ gs, fin))))))"

text \<open>The request text; \<^verbatim>\<open>_otel.inject_traceparent\<close> fills the trace dictionary.\<close>

definition call_text :: "pystr \<Rightarrow> json \<Rightarrow> (pystr, json) dict \<Rightarrow> pystr" where
  "call_text node input trace =
     json_dumps (JObj ([(u ''node'', JStr node), (u ''payload'', input)] @
       (if trace = [] then [] else [(u ''traceparent'', JObj trace)])))"

text \<open>\<^verbatim>\<open>_aframes\<close>: what was written on the stream, what is yielded, and how it ends.\<close>

definition aframes ::
    "texts \<Rightarrow> remote_runnable \<Rightarrow> attempt \<Rightarrow> json \<Rightarrow> bytes option \<times> json list \<times> gen_end" where
  "aframes tx rr att input =
     (case a_connect att of
        Some e \<Rightarrow> (None, [], Raised e)
      | None \<Rightarrow>
          (case resolve_peer (rr_peer rr) (a_resolve att) of
             Inl e \<Rightarrow> (None, [], Raised e)
           | Inr a \<Rightarrow>
               (case a_dial att of
                  Some e \<Rightarrow> (None, [], Raised e)
                | None \<Rightarrow>
                    (case utf8_encode (call_text (rr_node rr) input (a_traceparent att)) of
                       Inl e \<Rightarrow> (None, [], Raised e)
                     | Inr req \<Rightarrow>
                         (case a_write att of
                            Some e \<Rightarrow> (Some req, [], Raised e)
                          | None \<Rightarrow>
                              (Some req,
                               read_frames tx (addr_str a) (rr_timeout_secs rr)
                                 (a_time att + rr_timeout_secs rr) (a_reads att) [] False))))))"

section \<open>Results\<close>

definition frame_peer :: "json \<Rightarrow> pystr option" where
  "frame_peer frame = (case field frame (u ''_peer'') of JStr s \<Rightarrow> Some s | _ \<Rightarrow> None)"

text \<open>The exception raised for an error frame.\<close>

definition frame_error :: "pystr \<Rightarrow> json \<Rightarrow> exn" where
  "frame_error node frame =
     (case from_reply frame (frame_peer frame) (Some node) of Inl e \<Rightarrow> e | Inr e \<Rightarrow> e)"

text \<open>The loop of \<^verbatim>\<open>_ainvoke_once\<close>; \<open>None\<close> while it waits.\<close>

fun last_result :: "pystr \<Rightarrow> json list \<Rightarrow> gen_end \<Rightarrow> json \<Rightarrow> json result option" where
  "last_result node [] fin acc =
     (case fin of Returned \<Rightarrow> Some (Inr acc) | Raised e \<Rightarrow> Some (Inl e) | Suspended \<Rightarrow> None)"
| "last_result node (f # fs) fin acc =
     (if field f (u ''ok'') = JBool False then Some (Inl (frame_error node f))
      else (let acc' = (if field f (u ''result'') = JNull then acc else field f (u ''result''))
            in if truthy (field f (u ''done'')) then Some (Inr acc') else last_result node fs fin acc'))"

definition ainvoke_once :: "texts \<Rightarrow> remote_runnable \<Rightarrow> json \<Rightarrow> attempt \<Rightarrow> json result option" where
  "ainvoke_once tx rr input att =
     (let (_, fs, fin) = aframes tx rr att input in last_result (rr_node rr) fs fin JNull)"

text \<open>\<^verbatim>\<open>_attempt_stream\<close>: the values it yields and how it ends.\<close>

fun stream_values :: "pystr \<Rightarrow> json list \<Rightarrow> gen_end \<Rightarrow> json list \<times> gen_end" where
  "stream_values node [] fin = ([], fin)"
| "stream_values node (f # fs) fin =
     (if field f (u ''ok'') = JBool False then ([], Raised (frame_error node f))
      else (let vs = (if field f (u ''result'') = JNull then [] else [field f (u ''result'')])
            in if truthy (field f (u ''done'')) then (vs, Returned)
               else (let (ws, r) = stream_values node fs fin in (vs @ ws, r))))"

definition attempt_stream :: "texts \<Rightarrow> remote_runnable \<Rightarrow> json \<Rightarrow> attempt \<Rightarrow> json list \<times> gen_end" where
  "attempt_stream tx rr input att =
     (let (_, fs, fin) = aframes tx rr att input in stream_values (rr_node rr) fs fin)"

section \<open>Retries\<close>

definition transient :: "exn \<Rightarrow> bool" where
  "transient e = (case e of PilotConnectionErrorWrapper _ \<Rightarrow> True | TimeoutError _ \<Rightarrow> True | _ \<Rightarrow> False)"

definition total_attempts :: "int \<Rightarrow> nat" where
  "total_attempts max_retries = nat (1 + max 0 max_retries)"

definition retry_delay :: "rat \<Rightarrow> nat \<Rightarrow> rat" where
  "retry_delay backoff k = min (backoff * 2 ^ k) 30"

text \<open>
  The loop of \<^verbatim>\<open>_ainvoke_with_retries\<close> from attempt \<open>k\<close> on, with \<open>n\<close> attempts left: the result
  and the delays slept. \<open>once k\<close> is the outcome of attempt number \<open>k\<close>.
\<close>

fun retries :: "(nat \<Rightarrow> 'a result option) \<Rightarrow> rat \<Rightarrow> nat \<Rightarrow> nat \<Rightarrow> 'a result option \<times> rat list" where
  "retries once backoff k 0 = (None, [])"
| "retries once backoff k (Suc n) =
     (case once k of
        Some (Inl e) \<Rightarrow>
          if transient e \<and> 0 < n then
            (let (r, ds) = retries once backoff (Suc k) n in (r, retry_delay backoff k # ds))
          else (Some (Inl e), [])
      | r \<Rightarrow> (r, []))"

definition ainvoke_with_retries ::
    "texts \<Rightarrow> remote_runnable \<Rightarrow> json \<Rightarrow> (nat \<Rightarrow> attempt) \<Rightarrow> json result option \<times> rat list" where
  "ainvoke_with_retries tx rr input atts =
     retries (\<lambda>k. ainvoke_once tx rr input (atts k)) (rr_retry_backoff_secs rr) 0
       (total_attempts (rr_max_retries rr))"

text \<open>The callbacks of the run manager, in the order they are called.\<close>

datatype callback = ChainStart | ChainError exn | ChainEnd json

definition client_validate :: "texts \<Rightarrow> pystr \<Rightarrow> vmodel option \<Rightarrow> json \<Rightarrow> json result" where
  "client_validate tx what m v =
     (case m of
        None \<Rightarrow> Inr v
      | Some f \<Rightarrow>
          (case f v of
             Inr w \<Rightarrow> Inr w
           | Inl e \<Rightarrow> if is_Exception e then Inl (ValueError (u ''client '' @ what @ u '' validation: '' @ t_exn tx e))
                      else Inl e))"

text \<open>\<^verbatim>\<open>ainvoke\<close>; an exception that is not an \<^verbatim>\<open>Exception\<close> passes the validations without a callback.\<close>

definition ainvoke ::
    "texts \<Rightarrow> remote_runnable \<Rightarrow> json \<Rightarrow> (nat \<Rightarrow> attempt) \<Rightarrow> json result option \<times> callback list" where
  "ainvoke tx rr input atts =
     (case client_validate tx (u ''input'') (rr_input_model rr) input of
        Inl e \<Rightarrow> (Some (Inl e), ChainStart # (if is_Exception e then [ChainError e] else []))
      | Inr wire_input \<Rightarrow>
          (case fst (ainvoke_with_retries tx rr wire_input atts) of
             None \<Rightarrow> (None, [ChainStart])
           | Some (Inl e) \<Rightarrow> (Some (Inl e), [ChainStart, ChainError e])
           | Some (Inr v) \<Rightarrow>
               (case client_validate tx (u ''output'') (rr_output_model rr) v of
                  Inl e \<Rightarrow> (Some (Inl e), ChainStart # (if is_Exception e then [ChainError e] else []))
                | Inr w \<Rightarrow> (Some (Inr w), [ChainStart, ChainEnd w]))))"

text \<open>The loop of \<^verbatim>\<open>astream\<close> from attempt \<open>k\<close> on, with \<open>n\<close> attempts left; every delay is 1.5 s.\<close>

fun stream_retries :: "(nat \<Rightarrow> json list \<times> gen_end) \<Rightarrow> nat \<Rightarrow> nat \<Rightarrow> json list \<times> gen_end" where
  "stream_retries once k 0 = ([], Returned)"
| "stream_retries once k (Suc n) =
     (case once k of
        (vs, Raised e) \<Rightarrow>
          if transient e \<and> vs = [] \<and> 0 < n then stream_retries once (Suc k) n else (vs, Raised e)
      | r \<Rightarrow> r)"

definition astream :: "texts \<Rightarrow> remote_runnable \<Rightarrow> json \<Rightarrow> (nat \<Rightarrow> attempt) \<Rightarrow> json list \<times> gen_end \<times> callback list" where
  "astream tx rr input atts =
     (let (vs, fin) = stream_retries (\<lambda>k. attempt_stream tx rr input (atts k)) 0 3
      in (vs, fin, ChainStart # (case fin of
            Returned \<Rightarrow> [ChainEnd (JObj [(u ''chunks'', JArr vs), (u ''n_chunks'', JInt (int (length vs)))])]
          | Raised e \<Rightarrow> [ChainError e]
          | Suspended \<Rightarrow> [])))"

text \<open>
  \<^verbatim>\<open>stream\<close>: the asynchronous side puts the values, an error marker and the sentinel on a queue,
  the synchronous side takes them off.
\<close>

datatype qitem = QVal json | QErr exn | QEnd

definition stream_queue :: "json list \<times> gen_end \<times> callback list \<Rightarrow> qitem list" where
  "stream_queue s =
     (case s of (vs, fin, _) \<Rightarrow>
        map QVal vs @ (case fin of
            Returned \<Rightarrow> [QEnd]
          | Raised e \<Rightarrow> (if is_Exception e then [QErr e] else []) @ [QEnd]
          | Suspended \<Rightarrow> []))"

fun stream_consume :: "qitem list \<Rightarrow> json list \<times> gen_end" where
  "stream_consume [] = ([], Suspended)"
| "stream_consume (QEnd # _) = ([], Returned)"
| "stream_consume (QErr e # _) = ([], Raised e)"
| "stream_consume (QVal v # q) = (let (vs, r) = stream_consume q in (v # vs, r))"

section \<open>Discovery\<close>

text \<open>
  \<^verbatim>\<open>adiscover\<close> on the listing that \<^verbatim>\<open>_handlers\<close> returned: one runnable per name. A name that is not
  a string has no \<^verbatim>\<open>startswith\<close>, and a child is built from the caller's \<^verbatim>\<open>peer\<close> argument.
\<close>

definition child_runnable :: "addr + pystr \<Rightarrow> int \<Rightarrow> rat \<Rightarrow> pystr \<Rightarrow> remote_runnable result" where
  "child_runnable peer port timeout name =
     remote_runnable_new name peer port timeout None None 2 (3 / 2)"

fun discover_loop ::
    "addr + pystr \<Rightarrow> int \<Rightarrow> rat \<Rightarrow> bool \<Rightarrow> json list \<Rightarrow> (pystr, remote_runnable) dict \<Rightarrow> (pystr, remote_runnable) dict result" where
  "discover_loop peer port timeout incl [] out = Inr out"
| "discover_loop peer port timeout incl (h # hs) out =
     (case h of
        JObj ms \<Rightarrow>
          (case (case dict_get ms (u ''name'') of None \<Rightarrow> JStr [] | Some v \<Rightarrow> v) of
             JStr name \<Rightarrow>
               if \<not> incl \<and> starts_with_cp UNDERSCORE name then discover_loop peer port timeout incl hs out
               else rbind (child_runnable peer port timeout name) (\<lambda>c.
                      discover_loop peer port timeout incl hs (dict_set out name c))
           | _ \<Rightarrow> Inl AttributeError)
      | _ \<Rightarrow> Inl AttributeError)"

definition adiscover_listing ::
    "addr + pystr \<Rightarrow> int \<Rightarrow> rat \<Rightarrow> bool \<Rightarrow> json \<Rightarrow> (pystr, remote_runnable) dict result" where
  "adiscover_listing peer port timeout incl listing =
     (case listing of
        JObj ms \<Rightarrow>
          (case (case dict_get ms (u ''handlers'') of None \<Rightarrow> JArr [] | Some v \<Rightarrow> v) of
             JArr hs \<Rightarrow> discover_loop peer port timeout incl hs []
           | JObj kvs \<Rightarrow> discover_loop peer port timeout incl (map (JStr \<circ> fst) kvs) []
           | JStr s \<Rightarrow> discover_loop peer port timeout incl (map (\<lambda>c. JStr [c]) s) []
           | _ \<Rightarrow> Inl (TypeError (u ''object is not iterable'')))
      | _ \<Rightarrow> Inl AttributeError)"

definition adiscover ::
    "texts \<Rightarrow> addr + pystr \<Rightarrow> int \<Rightarrow> rat \<Rightarrow> bool \<Rightarrow> (nat \<Rightarrow> attempt) \<Rightarrow> (pystr, remote_runnable) dict result option" where
  "adiscover tx peer port timeout incl atts =
     (case remote_runnable_new (u ''_handlers'') peer port timeout None None 1 (3 / 2) of
        Inl e \<Rightarrow> Some (Inl e)
      | Inr rr \<Rightarrow>
          map_option (\<lambda>r. rbind r (adiscover_listing peer port timeout incl)) (fst (ainvoke tx rr JNull atts)))"

section \<open>Fan-out\<close>

text \<open>A target as it is given, and the constructor.\<close>

datatype target = TRunnable remote_runnable | TDict "remote_runnable result" | TOther pystr

fun fanout_targets :: "(pystr \<times> target) list \<Rightarrow> (pystr, remote_runnable) dict \<Rightarrow> (pystr, remote_runnable) dict result" where
  "fanout_targets [] out = Inr out"
| "fanout_targets ((label, t) # ts) out =
     (case t of
        TRunnable rr \<Rightarrow> fanout_targets ts (dict_set out label rr)
      | TDict r \<Rightarrow> rbind r (\<lambda>rr. fanout_targets ts (dict_set out label rr))
      | TOther tn \<Rightarrow> Inl (TypeError (u ''target '' @ label @ u '': expected PilotRemoteRunnable or dict, got '' @ tn)))"

definition fanout_new :: "(pystr \<times> target) list \<Rightarrow> (pystr, remote_runnable) dict result" where
  "fanout_new ts =
     (if ts = [] then Inl (ValueError (u ''PilotFanoutRunnable requires at least one target''))
      else fanout_targets ts [])"

text \<open>
  \<^verbatim>\<open>asyncio.gather\<close> of one task per label. The tasks complete in the order of \<open>order\<close>, a list of
  positions; without \<^verbatim>\<open>return_exceptions\<close> the first failure in that order is raised.
\<close>

definition gather :: "bool \<Rightarrow> 'a result list \<Rightarrow> nat list \<Rightarrow> 'a result list result" where
  "gather return_exceptions outs order =
     (if return_exceptions then Inr outs
      else (case filter (\<lambda>i. isl (outs ! i)) order of
              [] \<Rightarrow> Inr outs
            | i # _ \<Rightarrow> Inl (projl (outs ! i))))"

definition fanout_ainvoke ::
    "bool \<Rightarrow> (pystr, 'a result) dict \<Rightarrow> nat list \<Rightarrow> (pystr, 'a result) dict result" where
  "fanout_ainvoke return_exceptions outs order =
     rmap (\<lambda>rs. dict_of_pairs (zip (map fst outs) rs)) (gather return_exceptions (map snd outs) order)"

text \<open>\<^verbatim>\<open>astream\<close>: every round gives the tasks that are done, in the order the set is walked.\<close>

fun fanout_round :: "bool \<Rightarrow> (pystr \<times> 'a result) list \<Rightarrow> (pystr \<times> 'a result) list \<times> exn option" where
  "fanout_round return_exceptions [] = ([], None)"
| "fanout_round return_exceptions ((l, r) # ts) =
     (case r of
        Inl e \<Rightarrow>
          if return_exceptions \<and> is_Exception e
          then (let (ys, x) = fanout_round return_exceptions ts in ((l, r) # ys, x))
          else ([], Some e)
      | Inr _ \<Rightarrow> (let (ys, x) = fanout_round return_exceptions ts in ((l, r) # ys, x)))"

fun fanout_astream :: "bool \<Rightarrow> (pystr \<times> 'a result) list list \<Rightarrow> (pystr \<times> 'a result) list \<times> exn option" where
  "fanout_astream return_exceptions [] = ([], None)"
| "fanout_astream return_exceptions (b # bs) =
     (case fanout_round return_exceptions b of
        (ys, Some e) \<Rightarrow> (ys, Some e)
      | (ys, None) \<Rightarrow> (let (zs, x) = fanout_astream return_exceptions bs in (ys @ zs, x)))"

section \<open>Echo\<close>

text \<open>\<^verbatim>\<open>PilotEchoRunnable.ainvoke\<close> once the stream is open: what the single read gives.\<close>

definition echo_ainvoke :: "addr \<Rightarrow> json \<Rightarrow> exn option \<Rightarrow> bytes result \<Rightarrow> json result" where
  "echo_ainvoke peer input write chunk =
     (let wire_str = json_dumps input in
      rbind (utf8_encode wire_str) (\<lambda>_.
      rbind (case write of Some e \<Rightarrow> Inl e | None \<Rightarrow> Inr ()) (\<lambda>_.
      rmap (\<lambda>c. let echoed = utf8_decode_replace c in
          JObj [(u ''peer'', JStr (addr_str peer)),
                (u ''echoed_payload'', JStr echoed),
                (u ''echoed_bytes'', JInt (int (length echoed))),
                (u ''round_trip_ok'', JBool (echoed = wire_str))]) chunk)))"

end
