(* ===== verification/Saver.thy ===== *)
theory Saver
  imports Runnables
begin

text \<open>
  \<^verbatim>\<open>checkpoint.py\<close>: the checkpoint saver on the caller's side. Base64 is modelled as the standard
  library has it; the LangGraph serializer is a parameter, the record \<open>serde\<close>, over an arbitrary
  type of Python values. The remote store is a state with a handler; every attempt of a call may
  be lost on the way there or on the way back.
\<close>

section \<open>Base64\<close>

definition b64_char :: "nat \<Rightarrow> nat" where
  "b64_char n =
     (if n < 26 then 65 + n else if n < 52 then 97 + (n - 26) else if n < 62 then 48 + (n - 52)
      else if n = 62 then 43 else 47)"

definition b64_val :: "nat \<Rightarrow> nat option" where
  "b64_val c =
     (if 65 \<le> c \<and> c \<le> 90 then Some (c - 65)
      else if 97 \<le> c \<and> c \<le> 122 then Some (c - 97 + 26)
      else if 48 \<le> c \<and> c \<le> 57 then Some (c - 48 + 52)
      else if c = 43 then Some 62 else if c = 47 then Some 63 else None)"

fun b64 :: "bytes \<Rightarrow> pystr" where
  "b64 [] = []"
| "b64 [a] = [b64_char (unat a div 4), b64_char (unat a mod 4 * 16), 61, 61]"
| "b64 [a, b] =
     [b64_char (unat a div 4), b64_char (unat a mod 4 * 16 + unat b div 16), b64_char (unat b mod 16 * 4), 61]"
| "b64 (a # b # c # r) =
     [b64_char (unat a div 4), b64_char (unat a mod 4 * 16 + unat b div 16),
      b64_char (unat b mod 16 * 4 + unat c div 64), b64_char (unat c mod 64)] @ b64 r"

text \<open>
  \<^verbatim>\<open>binascii.a2b_base64\<close> without strict mode: the position in the group of four, the bits left
  over, the padding characters seen. Characters outside the alphabet are skipped.
\<close>

fun a2b :: "nat \<Rightarrow> nat \<Rightarrow> nat \<Rightarrow> pystr \<Rightarrow> bytes result" where
  "a2b q l p [] = (if q = 0 then Inr [] else Inl BinasciiError)"
| "a2b q l p (c # cs) =
     (if c = 61 then
        (if 2 \<le> q then (if 4 \<le> q + (p + 1) then Inr [] else a2b q l (p + 1) cs) else a2b q l p cs)
      else (case b64_val c of
              None \<Rightarrow> a2b q l p cs
            | Some v \<Rightarrow>
                if q = 0 then a2b 1 v 0 cs
                else if q = 1 then rmap ((#) (word_of_nat (l * 4 + v div 16))) (a2b 2 (v mod 16) 0 cs)
                else if q = 2 then rmap ((#) (word_of_nat (l * 16 + v div 4))) (a2b 3 (v mod 4) 0 cs)
                else rmap ((#) (word_of_nat (l * 64 + v))) (a2b 0 0 0 cs)))"

definition ub64 :: "pystr \<Rightarrow> bytes result" where
  "ub64 s = (if is_ascii s then a2b 0 0 0 s else Inl UnicodeEncodeError)"

section \<open>Serialization\<close>

text \<open>A Python value, or the list of writes (channel and value) of a task.\<close>

datatype 'v pyval = PVal 'v | PWrites "(pystr \<times> 'v) list"

record 'v serde =
  dumps_typed :: "'v pyval \<Rightarrow> (pystr \<times> bytes) result"
  loads_typed :: "pystr \<times> bytes \<Rightarrow> 'v pyval result"
  item_id :: "'v pyval \<Rightarrow> json result"

definition encode_typed :: "'v serde \<Rightarrow> 'v pyval \<Rightarrow> json result" where
  "encode_typed sd v =
     rmap (\<lambda>(t, b). JObj [(u ''type'', JStr t), (u ''blob'', JStr (b64 b))]) (dumps_typed sd v)"

definition decode_typed :: "'v serde \<Rightarrow> json \<Rightarrow> 'v pyval result" where
  "decode_typed sd d =
     rbind (jindex d (u ''type'')) (\<lambda>t.
     rbind (jindex d (u ''blob'')) (\<lambda>b.
     rbind (case b of JStr s \<Rightarrow> ub64 s | _ \<Rightarrow> Inl AttributeError) (\<lambda>bs.
       case t of JStr s \<Rightarrow> loads_typed sd (s, bs) | _ \<Rightarrow> Inl UnmodelledType)))"

section \<open>Retries\<close>

text \<open>
  \<^verbatim>\<open>_aretry\<close> from attempt \<open>i\<close> on with \<open>n\<close> attempts left after it; every \<^verbatim>\<open>Exception\<close> is retried.
  The calls act on the state of the remote store.
\<close>

fun aretry :: "(nat \<Rightarrow> 's \<Rightarrow> 's \<times> 'a result) \<Rightarrow> rat \<Rightarrow> nat \<Rightarrow> nat \<Rightarrow> 's \<Rightarrow> 's \<times> 'a result \<times> rat list" where
  "aretry once base i 0 s = (let (s', r) = once i s in (s', r, []))"
| "aretry once base i (Suc n) s =
     (let (s', r) = once i s
      in case r of
           Inr _ \<Rightarrow> (s', r, [])
         | Inl e \<Rightarrow>
             if is_Exception e
             then (let (s2, r2, ds) = aretry once base (Suc i) n s' in (s2, r2, base * 2 ^ i # ds))
             else (s', r, []))"

datatype fate = Delivered | RequestLost exn | ReplyLost exn

definition call_once :: "('s \<Rightarrow> json \<Rightarrow> 's \<times> json result) \<Rightarrow> json \<Rightarrow> fate \<Rightarrow> 's \<Rightarrow> 's \<times> json result" where
  "call_once handler payload f s =
     (case f of
        Delivered \<Rightarrow> handler s payload
      | RequestLost e \<Rightarrow> (s, Inl e)
      | ReplyLost e \<Rightarrow> (fst (handler s payload), Inl e))"

text \<open>A call with the defaults of \<^verbatim>\<open>_aretry\<close>, three attempts and half a second.\<close>

definition call_remote ::
    "('s \<Rightarrow> json \<Rightarrow> 's \<times> json result) \<Rightarrow> (nat \<Rightarrow> fate) \<Rightarrow> json \<Rightarrow> 's \<Rightarrow> 's \<times> json result" where
  "call_remote handler fates payload s =
     (let (s', r, _) = aretry (\<lambda>i. call_once handler payload (fates i)) (1 / 2) 0 2 s in (s', r))"

section \<open>The saver\<close>

record saver =
  call_put :: remote_runnable
  call_get :: remote_runnable
  call_list :: remote_runnable
  call_writes :: remote_runnable

text \<open>The constructor: four runnables with the default retries.\<close>

definition saver_new :: "addr + pystr \<Rightarrow> int \<Rightarrow> rat \<Rightarrow> saver result" where
  "saver_new peer port timeout =
     (let child = (\<lambda>node. remote_runnable_new (u node) peer port timeout None None 2 (3 / 2)) in
      rbind (child ''checkpoint_put'') (\<lambda>p.
      rbind (child ''checkpoint_get_tuple'') (\<lambda>g.
      rbind (child ''checkpoint_list'') (\<lambda>l.
      rmap (\<lambda>w. \<lparr>call_put = p, call_get = g, call_list = l, call_writes = w\<rparr>) (child ''checkpoint_put_writes'')))))"

text \<open>\<^verbatim>\<open>d.get(k, default)\<close>.\<close>

definition jget_default :: "json \<Rightarrow> pystr \<Rightarrow> json \<Rightarrow> json result" where
  "jget_default v k d =
     (case v of JObj ms \<Rightarrow> Inr (case dict_get ms k of None \<Rightarrow> d | Some x \<Rightarrow> x) | _ \<Rightarrow> Inl AttributeError)"

definition configurable :: "(pystr, json) dict \<Rightarrow> json" where
  "configurable c = JObj [(u ''configurable'', JObj c)]"

definition dict_items :: "json \<Rightarrow> (pystr, json) dict result" where
  "dict_items v = (case v of JObj ms \<Rightarrow> Inr ms | _ \<Rightarrow> Inl (TypeError (u ''object is not a mapping'')))"

text \<open>\<^verbatim>\<open>{**c, "thread_id": thread, "checkpoint_ns": ns, "checkpoint_id": cid}\<close>.\<close>

definition with_ids :: "(pystr, json) dict \<Rightarrow> json \<Rightarrow> json \<Rightarrow> json \<Rightarrow> (pystr, json) dict" where
  "with_ids c thread ns cid =
     dict_set (dict_set (dict_set c (u ''thread_id'') thread) (u ''checkpoint_ns'') ns) (u ''checkpoint_id'') cid"

definition put_payload :: "json \<Rightarrow> json \<Rightarrow> json \<Rightarrow> json \<Rightarrow> json \<Rightarrow> json \<Rightarrow> json \<Rightarrow> json" where
  "put_payload thread ns cid par blob meta nv =
     JObj [(u ''thread'', thread), (u ''checkpoint_ns'', ns), (u ''checkpoint_id'', cid),
           (u ''parent_checkpoint_id'', par), (u ''checkpoint_b64'', blob), (u ''metadata_b64'', meta),
           (u ''new_versions'', nv)]"

definition aput ::
    "'v serde \<Rightarrow> ('s \<Rightarrow> json \<Rightarrow> 's \<times> json result) \<Rightarrow> (nat \<Rightarrow> fate) \<Rightarrow> 's \<Rightarrow> json \<Rightarrow> 'v pyval \<Rightarrow> 'v pyval \<Rightarrow> json \<Rightarrow>
     's \<times> json result" where
  "aput sd handler fates s config checkpoint metadata versions =
     (case rbind (jindex config (u ''configurable'')) (\<lambda>c.
           rbind (jindex c (u ''thread_id'')) (\<lambda>thread.
           rbind (jget_default c (u ''checkpoint_ns'') (JStr [])) (\<lambda>ns.
           rbind (item_id sd checkpoint) (\<lambda>cid.
           rbind (jget c (u ''checkpoint_id'')) (\<lambda>par.
           rbind (encode_typed sd checkpoint) (\<lambda>blob.
           rbind (encode_typed sd metadata) (\<lambda>meta.
           rmap (\<lambda>ms. (put_payload thread ns cid par blob meta versions, configurable (with_ids ms thread ns cid)))
             (dict_items c)))))))) of
        Inl e \<Rightarrow> (s, Inl e)
      | Inr (payload, out) \<Rightarrow>
          (let (s', r) = call_remote handler fates payload s in (s', rmap (\<lambda>_. out) r)))"

record 'v ctuple =
  t_config :: json
  t_checkpoint :: "'v pyval"
  t_metadata :: "'v pyval"
  t_parent :: "json option"
  t_pending :: "(json \<times> json \<times> 'v) list"

text \<open>\<^verbatim>\<open>self._decode_writes(...)[0][1]\<close>.\<close>

definition first_write :: "'v pyval \<Rightarrow> 'v result" where
  "first_write v =
     (case v of
        PWrites [] \<Rightarrow> Inl IndexError
      | PWrites ((_, x) # _) \<Rightarrow> Inr x
      | PVal _ \<Rightarrow> Inl UnmodelledType)"

definition pending_of :: "'v serde \<Rightarrow> json \<Rightarrow> (json \<times> json \<times> 'v) result" where
  "pending_of sd raw =
     rbind (jindex raw (u ''task_id'')) (\<lambda>task.
     rbind (jindex raw (u ''channel'')) (\<lambda>channel.
     rbind (jindex raw (u ''value_b64'')) (\<lambda>blob.
     rbind (decode_typed sd blob) (\<lambda>v.
     rmap (\<lambda>x. (task, channel, x)) (first_write v)))))"

definition parent_config :: "json \<Rightarrow> json \<Rightarrow> json \<Rightarrow> json option" where
  "parent_config thread ns par =
     (if truthy par
      then Some (configurable [(u ''thread_id'', thread), (u ''checkpoint_ns'', ns), (u ''checkpoint_id'', par)])
      else None)"

text \<open>The decoding of the reply in \<^verbatim>\<open>aget_tuple\<close>.\<close>

definition read_tuple ::
    "'v serde \<Rightarrow> (pystr, json) dict \<Rightarrow> json \<Rightarrow> json \<Rightarrow> json \<Rightarrow> 'v ctuple option result" where
  "read_tuple sd ms thread ns result =
     rbind (jget result (u ''found'')) (\<lambda>found.
     if \<not> truthy found then Inr None
     else
       rbind (rbind (jindex result (u ''checkpoint_b64'')) (decode_typed sd)) (\<lambda>ckpt.
       rbind (rbind (jindex result (u ''metadata_b64'')) (decode_typed sd)) (\<lambda>meta.
       rbind (jget result (u ''pending_writes'')) (\<lambda>pw.
       rbind (if \<not> truthy pw then Inr [] else (case pw of JArr xs \<Rightarrow> Inr xs | _ \<Rightarrow> Inl UnmodelledType)) (\<lambda>raws.
       rbind (rmap_list (pending_of sd) raws) (\<lambda>pending.
       rbind (item_id sd ckpt) (\<lambda>own_id.
       rbind (jget_default result (u ''checkpoint_id'') own_id) (\<lambda>out_cid.
       rmap (\<lambda>par. Some \<lparr>t_config = configurable (with_ids ms thread ns out_cid), t_checkpoint = ckpt,
             t_metadata = meta, t_parent = parent_config thread ns par, t_pending = pending\<rparr>)
         (jget result (u ''parent_checkpoint_id''))))))))))"

definition aget_tuple ::
    "'v serde \<Rightarrow> ('s \<Rightarrow> json \<Rightarrow> 's \<times> json result) \<Rightarrow> (nat \<Rightarrow> fate) \<Rightarrow> 's \<Rightarrow> json \<Rightarrow> 's \<times> 'v ctuple option result" where
  "aget_tuple sd handler fates s config =
     (case rbind (jindex config (u ''configurable'')) (\<lambda>c.
           rbind (jindex c (u ''thread_id'')) (\<lambda>thread.
           rbind (jget_default c (u ''checkpoint_ns'') (JStr [])) (\<lambda>ns.
           rbind (jget c (u ''checkpoint_id'')) (\<lambda>cid.
           rmap (\<lambda>ms. (ms, thread, ns, cid)) (dict_items c))))) of
        Inl e \<Rightarrow> (s, Inl e)
      | Inr (ms, thread, ns, cid) \<Rightarrow>
          (let (s', r) = call_remote handler fates
                 (JObj [(u ''thread'', thread), (u ''checkpoint_ns'', ns), (u ''checkpoint_id'', cid)]) s
           in (s', rbind r (read_tuple sd ms thread ns))))"

text \<open>One item of \<^verbatim>\<open>alist\<close>; \<open>c\<close> is the caller's configurable dictionary.\<close>

definition read_item :: "'v serde \<Rightarrow> json \<Rightarrow> json \<Rightarrow> 'v ctuple result" where
  "read_item sd c item =
     rbind (rbind (jindex item (u ''checkpoint_b64'')) (decode_typed sd)) (\<lambda>ckpt.
     rbind (rbind (jindex item (u ''metadata_b64'')) (decode_typed sd)) (\<lambda>meta.
     rbind (item_id sd ckpt) (\<lambda>own_id.
     rbind (jget_default item (u ''checkpoint_id'') own_id) (\<lambda>cid.
     rbind (jget item (u ''parent_checkpoint_id'')) (\<lambda>par.
     rbind (jget c (u ''thread_id'')) (\<lambda>own_thread.
     rbind (jget_default item (u ''thread'') own_thread) (\<lambda>thread.
     rbind (jget_default c (u ''checkpoint_ns'') (JStr [])) (\<lambda>own_ns.
     rmap (\<lambda>ns. \<lparr>t_config = configurable [(u ''thread_id'', thread), (u ''checkpoint_ns'', ns), (u ''checkpoint_id'', cid)],
           t_checkpoint = ckpt, t_metadata = meta, t_parent = parent_config thread ns par, t_pending = []\<rparr>)
       (jget_default item (u ''checkpoint_ns'') own_ns)))))))))"

text \<open>\<^verbatim>\<open>(config or {}).get("configurable", {}) if config else {}\<close>.\<close>

definition config_of :: "json option \<Rightarrow> json result" where
  "config_of config =
     (case config of
        None \<Rightarrow> Inr (JObj [])
      | Some v \<Rightarrow> if truthy v then jget_default v (u ''configurable'') (JObj []) else Inr (JObj []))"

definition list_payload :: "json \<Rightarrow> json \<Rightarrow> json \<Rightarrow> json \<Rightarrow> json \<Rightarrow> json" where
  "list_payload thread ns flt before limit =
     JObj [(u ''thread'', thread), (u ''checkpoint_ns'', ns), (u ''filter'', flt),
           (u ''before_checkpoint_id'', before), (u ''limit'', limit)]"

fun read_items :: "'v serde \<Rightarrow> json \<Rightarrow> json list \<Rightarrow> 'v ctuple list \<times> exn option" where
  "read_items sd c [] = ([], None)"
| "read_items sd c (x # xs) =
     (case read_item sd c x of
        Inl e \<Rightarrow> ([], Some e)
      | Inr t \<Rightarrow> (let (ts, e) = read_items sd c xs in (t # ts, e)))"

text \<open>\<^verbatim>\<open>alist\<close>: the tuples it yields, and the exception that ends it, if any.\<close>

definition alist ::
    "'v serde \<Rightarrow> ('s \<Rightarrow> json \<Rightarrow> 's \<times> json result) \<Rightarrow> (nat \<Rightarrow> fate) \<Rightarrow> 's \<Rightarrow> json option \<Rightarrow> json \<Rightarrow> json option \<Rightarrow> json \<Rightarrow>
     's \<times> 'v ctuple list \<times> exn option" where
  "alist sd handler fates s config flt before limit =
     (case rbind (config_of config) (\<lambda>c.
           rbind (config_of before) (\<lambda>b.
           rbind (jget c (u ''thread_id'')) (\<lambda>thread.
           rbind (jget c (u ''checkpoint_ns'')) (\<lambda>ns.
           rmap (\<lambda>bid. (c, list_payload thread ns flt bid limit))
             (if truthy b then jget b (u ''checkpoint_id'') else Inr JNull))))) of
        Inl e \<Rightarrow> (s, [], Some e)
      | Inr (c, payload) \<Rightarrow>
          (let (s', r) = call_remote handler fates payload s
           in (s', case rbind r (\<lambda>result. jget_default result (u ''items'') (JArr [])) of
                     Inl e \<Rightarrow> ([], Some e)
                   | Inr (JArr xs) \<Rightarrow> read_items sd c xs
                   | Inr _ \<Rightarrow> ([], Some UnmodelledType))))"

definition writes_payload :: "json \<Rightarrow> json \<Rightarrow> json \<Rightarrow> pystr \<Rightarrow> pystr \<Rightarrow> json \<Rightarrow> json" where
  "writes_payload thread ns cid task path blob =
     JObj [(u ''thread'', thread), (u ''checkpoint_ns'', ns), (u ''checkpoint_id'', cid),
           (u ''task_id'', JStr task), (u ''task_path'', JStr path), (u ''writes_b64'', blob)]"

definition aput_writes ::
    "'v serde \<Rightarrow> ('s \<Rightarrow> json \<Rightarrow> 's \<times> json result) \<Rightarrow> (nat \<Rightarrow> fate) \<Rightarrow> 's \<Rightarrow> json \<Rightarrow> (pystr \<times> 'v) list \<Rightarrow> pystr \<Rightarrow> pystr \<Rightarrow>
     's \<times> unit result" where
  "aput_writes sd handler fates s config writes task path =
     (case rbind (jindex config (u ''configurable'')) (\<lambda>c.
           rbind (jindex c (u ''thread_id'')) (\<lambda>thread.
           rbind (jget_default c (u ''checkpoint_ns'') (JStr [])) (\<lambda>ns.
           rbind (jindex c (u ''checkpoint_id'')) (\<lambda>cid.
           rmap (writes_payload thread ns cid task path) (encode_typed sd (PWrites writes)))))) of
        Inl e \<Rightarrow> (s, Inl e)
      | Inr payload \<Rightarrow>
          (let (s', r) = call_remote handler fates payload s in (s', rmap (\<lambda>_. ()) r)))"

end
