(* ===== verification/Saver_Props.thy ===== *)
theory Saver_Props
  imports Saver Checkpoint_Props
begin

text \<open>
  Correctness of the checkpoint saver: Base64, calls that are lost and retried, and the round
  trip of checkpoints through any store that meets the contract \<open>checkpoint_store\<close>.
\<close>

section \<open>Base64\<close>

lemma b64_val_char [simp]: "n < 64 \<Longrightarrow> b64_val (b64_char n) = Some n"
  by (auto simp: b64_val_def b64_char_def)

lemma b64_char_ne_pad [simp]: "b64_char n \<noteq> 61"
  by (auto simp: b64_char_def)

lemma b64_char_ascii: "n < 64 \<Longrightarrow> b64_char n < 128"
  by (auto simp: b64_char_def)

lemma sextets:
  "unat (a :: byte) div 4 < 64" "unat a mod 4 * 16 < 64" "unat a mod 4 * 16 + unat (b :: byte) div 16 < 64"
  "unat b mod 16 * 4 < 64" "unat b mod 16 * 4 + unat (c :: byte) div 64 < 64" "unat c mod 64 < 64"
  using unat_byte_lt [of a] unat_byte_lt [of b] unat_byte_lt [of c] by (auto simp: less_mult_imp_div_less)

lemma high_bits:
  "unat (b :: byte) div 16 div 16 = 0" "unat b div 16 mod 16 = unat b div 16"
  "unat (c :: byte) div 64 div 4 = 0" "unat c div 64 mod 4 = unat c div 64"
  using unat_byte_lt [of b] unat_byte_lt [of c] by simp_all

lemma a2b_b64: "a2b 0 l p (b64 bs) = Inr bs"
  by (induction bs arbitrary: l p rule: b64.induct)
    (simp_all add: sextets high_bits del: of_nat_add of_nat_mult)

lemma b64_ascii: "is_ascii (b64 bs)"
  by (induction bs rule: b64.induct) (simp_all add: is_ascii_def b64_char_ascii sextets)

lemma ub64_b64 [simp]: "ub64 (b64 bs) = Inr bs"
  by (simp add: ub64_def b64_ascii a2b_b64)

section \<open>Calls that may be lost\<close>

definition fate_ok :: "fate \<Rightarrow> bool" where
  "fate_ok f = (case f of Delivered \<Rightarrow> True | RequestLost e \<Rightarrow> is_Exception e | ReplyLost e \<Rightarrow> is_Exception e)"

text \<open>One of the three attempts is answered.\<close>

definition fates_ok :: "(nat \<Rightarrow> fate) \<Rightarrow> bool" where
  "fates_ok fates \<longleftrightarrow> (\<exists>j \<le> 2. fates j = Delivered) \<and> (\<forall>j. fate_ok (fates j))"

lemma aretry_delivers:
  assumes h: "\<And>s. Q s \<Longrightarrow> \<exists>s'. handler s p = (s', Inr rep) \<and> R s'" "\<And>s. R s \<Longrightarrow> Q s" and "Q s"
    "\<exists>j \<le> n. fates (i + j) = Delivered" "\<forall>j. fate_ok (fates j)"
  shows "\<exists>s' ds. aretry (\<lambda>i. call_once handler p (fates i)) b i n s = (s', Inr rep, ds) \<and> R s'"
  using assms(3,4)
proof (induction n arbitrary: s i)
  case 0
  then show ?case using h(1) [of s] by (auto simp: call_once_def)
next
  case (Suc n)
  show ?case
  proof (cases "fates i")
    case Delivered
    then show ?thesis using h(1) [OF Suc.prems(1)] by (auto simp: call_once_def)
  next
    case (RequestLost e)
    with Suc.prems(2) have "\<exists>j \<le> n. fates (Suc i + j) = Delivered" by (metis Suc_le_mono add_Suc_right add_Suc fate.distinct(1) nat.exhaust add_0_right)
    from Suc.IH [OF Suc.prems(1) this] RequestLost assms(5) show ?thesis
      by (auto simp: call_once_def fate_ok_def dest!: spec [of _ i])
  next
    case (ReplyLost e)
    obtain s1 where s1: "handler s p = (s1, Inr rep)" "R s1" using h(1) [OF Suc.prems(1)] by blast
    from ReplyLost Suc.prems(2) have "\<exists>j \<le> n. fates (Suc i + j) = Delivered" by (metis Suc_le_mono add_Suc_right add_Suc fate.distinct(3) nat.exhaust add_0_right)
    from Suc.IH [OF h(2) [OF s1(2)] this] ReplyLost assms(5) s1 show ?thesis
      by (auto simp: call_once_def fate_ok_def dest!: spec [of _ i])
  qed
qed

lemma call_remote_delivers:
  assumes "\<And>s. Q s \<Longrightarrow> \<exists>s'. handler s p = (s', Inr rep) \<and> R s'" "\<And>s. R s \<Longrightarrow> Q s" "Q s" "fates_ok fates"
  shows "\<exists>s'. call_remote handler fates p s = (s', Inr rep) \<and> R s'"
  using aretry_delivers [of Q handler p rep R s 2 fates 0 "1 / 2"] assms
  by (auto simp: call_remote_def fates_ok_def)

lemma spec_put_idem: "spec_put (spec_put v key cid rec) key cid rec = spec_put v key cid rec"
proof -
  have "filter (\<lambda>(c, _). c \<noteq> cid) (filter (\<lambda>(c, _). c \<noteq> cid) h @ [(cid, rec)]) = filter (\<lambda>(c, _). c \<noteq> cid) h"
    for h :: "(pystr \<times> ckpt) list" by (induction h) auto
  then show ?thesis by (simp add: spec_put_def)
qed

lemma spec_writes_idem: "spec_writes (spec_writes v key ident w) key ident w = spec_writes v key ident w"
  by (auto simp: spec_writes_def)

section \<open>Serialized values on the wire\<close>

text \<open>The serializer reads back what it wrote for \<open>v\<close>, under a proper type tag.\<close>

definition serde_ok :: "'v serde \<Rightarrow> 'v pyval \<Rightarrow> bool" where
  "serde_ok sd v \<longleftrightarrow>
     (\<exists>t b. dumps_typed sd v = Inr (t, b) \<and> list_all is_scalar t \<and> loads_typed sd (t, b) = Inr v)"

lemma typed_roundtrip:
  assumes "serde_ok sd v"
  shows "\<exists>j. encode_typed sd v = Inr j \<and> wf_json j \<and> decode_typed sd j = Inr v"
proof -
  from assms obtain t b where "dumps_typed sd v = Inr (t, b)" "list_all is_scalar t" "loads_typed sd (t, b) = Inr v"
    by (auto simp: serde_ok_def)
  then show ?thesis
    by (simp add: encode_typed_def decode_typed_def jindex_def dict_get_def scalar_u ascii_scalar [OF b64_ascii])
qed

text \<open>The identifiers in a caller's configuration.\<close>

definition cfg_ids :: "(pystr, json) dict \<Rightarrow> pystr \<Rightarrow> pystr \<Rightarrow> json \<Rightarrow> bool" where
  "cfg_ids c thread ns par \<longleftrightarrow>
     dict_get c (u ''thread_id'') = Some (JStr thread) \<and> list_all is_scalar thread \<and>
     (case dict_get c (u ''checkpoint_ns'') of None \<Rightarrow> ns = [] | Some v \<Rightarrow> v = JStr ns) \<and> list_all is_scalar ns \<and>
     par = (case dict_get c (u ''checkpoint_id'') of None \<Rightarrow> JNull | Some v \<Rightarrow> v) \<and>
     (case par of JNull \<Rightarrow> True | JStr s \<Rightarrow> list_all is_scalar s | _ \<Rightarrow> False)"

lemma cfg_ids_reads:
  assumes "cfg_ids c thread ns par"
  shows "jindex (configurable c) (u ''configurable'') = Inr (JObj c)" "jindex (JObj c) (u ''thread_id'') = Inr (JStr thread)"
    "jget_default (JObj c) (u ''checkpoint_ns'') (JStr []) = Inr (JStr ns)" "jget (JObj c) (u ''checkpoint_id'') = Inr par"
    "dict_items (JObj c) = Inr c"
  using assms
  by (auto simp: cfg_ids_def configurable_def jindex_def dict_get_def jget_default_def jget_def dict_items_def split: option.splits)

lemma cfg_ids_with_ids:
  assumes "cfg_ids c thread ns par" "list_all is_scalar cid"
  shows "cfg_ids (with_ids c (JStr thread) (JStr ns) (JStr cid)) thread ns (JStr cid)"
  using assms by (simp add: cfg_ids_def with_ids_def)

lemma with_ids_idem: "with_ids (with_ids c t n i) t n i = with_ids c t n i"
proof -
  have u: "dict_set d k v = d" if "dict_get d k = Some v" for d :: "(pystr, json) dict" and k v
    using that by (induction d) (auto simp: dict_set_def dict_get_def split: if_splits)
  show ?thesis unfolding with_ids_def by (simp add: u)
qed

lemma parse_put_payload:
  "wf_json blob \<Longrightarrow> parse_put (put_payload (JStr thread) (JStr ns) (JStr cid) par blob meta nv) =
     Inr ((thread, ns), cid, \<lparr>parent = par, ck_blob = blob, ck_meta = meta, new_versions = py_or nv (JObj [])\<rparr>)"
  by (simp add: parse_put_def put_payload_def str_field_def jindex_def jget_def ns_of_def dict_get_def)

lemma parse_get_payload:
  "parse_get (JObj [(u ''thread'', JStr thread), (u ''checkpoint_ns'', JStr ns), (u ''checkpoint_id'', JStr cid)]) =
     Inr ((thread, ns), Some cid)"
  by (simp add: parse_get_def str_field_def jindex_def jget_def ns_of_def dict_get_def)

lemma parse_writes_payload:
  "parse_writes (writes_payload (JStr thread) (JStr ns) (JStr cid) task path w) = Inr (((thread, ns), cid), (task, path))"
  "jindex (writes_payload (JStr thread) (JStr ns) (JStr cid) task path w) (u ''writes_b64'') = Inr w"
  by (simp_all add: parse_writes_def writes_payload_def str_field_def jindex_def jget_def ns_of_def dict_get_def)

lemma read_tuple_found:
  assumes "decode_typed sd blob = Inr ckpt" "decode_typed sd meta = Inr m" "rmap_list (pending_of sd) raws = Inr pending"
    "item_id sd ckpt = Inr own"
  shows "read_tuple sd ms thread ns (found_reply cid par blob meta raws) =
    Inr (Some \<lparr>t_config = configurable (with_ids ms thread ns (JStr cid)), t_checkpoint = ckpt, t_metadata = m,
       t_parent = parent_config thread ns par, t_pending = pending\<rparr>)"
  using assms by (cases "raws = []")
    (simp_all add: read_tuple_def found_reply_def jget_def jindex_def jget_default_def dict_get_def)

section \<open>The saver on a store that meets the contract\<close>

definition stored :: "json \<Rightarrow> json \<Rightarrow> json \<Rightarrow> json \<Rightarrow> ckpt" where
  "stored par blob meta nv = \<lparr>parent = par, ck_blob = blob, ck_meta = meta, new_versions = py_or nv (JObj [])\<rparr>"

context checkpoint_store
begin

lemma call_put:
  assumes "invar s" "parse_put p = Inr (key, cid, rec)" "put_wf key cid rec" "fates_ok fates"
  shows "\<exists>s'. call_remote put fates p s = (s', Inr ok_reply) \<and> invar s' \<and> view s' = spec_put (view s) key cid rec"
proof -
  let ?Q = "\<lambda>t. invar t \<and> (view t = view s \<or> view t = spec_put (view s) key cid rec)"
  have "\<exists>s'. call_remote put fates p s = (s', Inr ok_reply) \<and> (invar s' \<and> view s' = spec_put (view s) key cid rec)"
  proof (rule call_remote_delivers [where Q = ?Q])
    fix t assume t: "?Q t"
    then obtain t' where "put t p = (t', Inr ok_reply)" "invar t'" "view t' = spec_put (view t) key cid rec"
      using put_ok [OF _ assms(2,3)] by blast
    with t show "\<exists>t'. put t p = (t', Inr ok_reply) \<and> (invar t' \<and> view t' = spec_put (view s) key cid rec)"
      by (auto simp: spec_put_idem)
  qed (use assms in auto)
  then show ?thesis by blast
qed

lemma call_writes:
  assumes "invar s" "parse_writes p = Inr (key, ident)" "jindex p (u ''writes_b64'') = Inr w" "writes_wf key ident w" "fates_ok fates"
  shows "\<exists>s'. call_remote put_writes fates p s = (s', Inr ok_reply) \<and> invar s' \<and> view s' = spec_writes (view s) key ident w"
proof -
  let ?Q = "\<lambda>t. invar t \<and> (view t = view s \<or> view t = spec_writes (view s) key ident w)"
  have "\<exists>s'. call_remote put_writes fates p s = (s', Inr ok_reply) \<and> (invar s' \<and> view s' = spec_writes (view s) key ident w)"
  proof (rule call_remote_delivers [where Q = ?Q])
    fix t assume t: "?Q t"
    then obtain t' where "put_writes t p = (t', Inr ok_reply)" "invar t'" "view t' = spec_writes (view t) key ident w"
      using writes_ok [OF _ assms(2-4)] by blast
    with t show "\<exists>t'. put_writes t p = (t', Inr ok_reply) \<and> (invar t' \<and> view t' = spec_writes (view s) key ident w)"
      by (auto simp: spec_writes_idem)
  qed (use assms in auto)
  then show ?thesis by blast
qed

lemma call_get:
  assumes "invar s" "parse_get p = Inr (key, c)" "get_wf key c" "fates_ok fates"
  shows "call_remote get_tuple fates p s = (s, Inr (spec_get (view s) key c))"
proof -
  have "\<exists>s'. call_remote get_tuple fates p s = (s', Inr (spec_get (view s) key c)) \<and> s' = s"
    by (rule call_remote_delivers [where Q = "\<lambda>t. t = s"]) (use get_ok [OF assms(1-3)] assms(4) in auto)
  then show ?thesis by blast
qed

lemma saver_put:
  assumes "invar s" "cfg_ids c thread ns par" "serde_ok sd ckpt" "serde_ok sd meta" "item_id sd ckpt = Inr (JStr cid)"
    "list_all is_scalar cid" "wf_json nv" "fates_ok fates"
  shows "\<exists>s' blob mblob. aput sd put fates s (configurable c) ckpt meta nv =
      (s', Inr (configurable (with_ids c (JStr thread) (JStr ns) (JStr cid)))) \<and> invar s' \<and>
    view s' = spec_put (view s) (thread, ns) cid (stored par blob mblob nv) \<and>
    decode_typed sd blob = Inr ckpt \<and> decode_typed sd mblob = Inr meta"
proof -
  obtain blob where b: "encode_typed sd ckpt = Inr blob" "wf_json blob" "decode_typed sd blob = Inr ckpt"
    using typed_roundtrip [OF assms(3)] by blast
  obtain mblob where m: "encode_typed sd meta = Inr mblob" "wf_json mblob" "decode_typed sd mblob = Inr meta"
    using typed_roundtrip [OF assms(4)] by blast
  have wf: "put_wf (thread, ns) cid (stored par blob mblob nv)"
    using assms(2,6,7) b m by (auto simp: put_wf_def stored_def cfg_ids_def py_or_def)
  obtain s' where s': "call_remote put fates (put_payload (JStr thread) (JStr ns) (JStr cid) par blob mblob nv) s = (s', Inr ok_reply)"
      "invar s'" "view s' = spec_put (view s) (thread, ns) cid (stored par blob mblob nv)"
    using call_put [OF assms(1) parse_put_payload [OF b(2)] wf [unfolded stored_def] assms(8)] unfolding stored_def by blast
  then show ?thesis
    using b m by (simp add: aput_def cfg_ids_reads [OF assms(2)] assms(5)) blast
qed

lemma saver_get:
  assumes "invar s" "cfg_ids c thread ns (JStr cid)" "fates_ok fates" "item_id sd ckpt = Inr own"
    "map_of (hist (view s) (thread, ns)) cid = Some (stored par blob mblob nv)"
    "decode_typed sd blob = Inr ckpt" "decode_typed sd mblob = Inr meta"
  shows "aget_tuple sd get_tuple fates s (configurable c) =
    (s, rmap (\<lambda>pending. Some \<lparr>t_config = configurable (with_ids c (JStr thread) (JStr ns) (JStr cid)),
        t_checkpoint = ckpt, t_metadata = meta, t_parent = parent_config (JStr thread) (JStr ns) par, t_pending = pending\<rparr>)
      (rmap_list (pending_of sd) (map (\<lambda>((task, path), w). pending_item task w) (pend (view s) ((thread, ns), cid)))))"
proof -
  have wf: "get_wf (thread, ns) (Some cid)" using assms(2) by (auto simp: get_wf_def cfg_ids_def)
  have g: "spec_get (view s) (thread, ns) (Some cid) = found_reply cid par blob mblob
      (map (\<lambda>((task, path), w). pending_item task w) (pend (view s) ((thread, ns), cid)))" (is "_ = found_reply _ _ _ _ ?raws")
    using assms(5) by (simp add: spec_get_def stored_def)
  have r: "read_tuple sd c (JStr thread) (JStr ns) (found_reply cid par blob mblob ?raws) =
      rmap (\<lambda>pending. Some \<lparr>t_config = configurable (with_ids c (JStr thread) (JStr ns) (JStr cid)),
        t_checkpoint = ckpt, t_metadata = meta, t_parent = parent_config (JStr thread) (JStr ns) par, t_pending = pending\<rparr>)
        (rmap_list (pending_of sd) ?raws)"
  proof (cases "rmap_list (pending_of sd) ?raws")
    case (Inl e)
    then have "?raws \<noteq> []" by auto
    with Inl assms(6,7) show ?thesis
      by (simp add: read_tuple_def found_reply_def jget_def jindex_def dict_get_def)
  next
    case (Inr pending)
    then show ?thesis using read_tuple_found [OF assms(6,7) Inr assms(4)] by simp
  qed
  show ?thesis
    using call_get [OF assms(1) parse_get_payload wf assms(3)] r
    by (simp add: aget_tuple_def cfg_ids_reads [OF assms(2)] g)
qed

lemma saver_writes:
  assumes "invar s" "cfg_ids c thread ns (JStr cid)" "serde_ok sd (PWrites ws)" "list_all is_scalar task"
    "list_all is_scalar path" "fates_ok fates" "pend (view s) ((thread, ns), cid) = []"
  shows "\<exists>s' blob. aput_writes sd put_writes fates s (configurable c) ws task path = (s', Inr ()) \<and> invar s' \<and>
    hist (view s') = hist (view s) \<and> pend (view s') ((thread, ns), cid) = [((task, path), blob)] \<and>
    decode_typed sd blob = Inr (PWrites ws)"
proof -
  obtain blob where b: "encode_typed sd (PWrites ws) = Inr blob" "wf_json blob" "decode_typed sd blob = Inr (PWrites ws)"
    using typed_roundtrip [OF assms(3)] by blast
  have wf: "writes_wf ((thread, ns), cid) (task, path) blob" using assms(2,4,5) b by (auto simp: writes_wf_def cfg_ids_def)
  obtain s' where s': "call_remote put_writes fates (writes_payload (JStr thread) (JStr ns) (JStr cid) task path blob) s = (s', Inr ok_reply)"
      "invar s'" "view s' = spec_writes (view s) ((thread, ns), cid) (task, path) blob"
    using call_writes [OF assms(1) parse_writes_payload wf assms(6)] by blast
  have "jindex (JObj c) (u ''checkpoint_id'') = Inr (JStr cid)"
    using assms(2) by (auto simp: cfg_ids_def jindex_def split: option.splits)
  then show ?thesis
    using s' b assms(7) by (simp add: aput_writes_def cfg_ids_reads [OF assms(2)] spec_writes_def)
qed

end

lemma spec_put_lookup: "map_of (hist (spec_put v key cid rec) key) cid = Some rec"
proof -
  have "map_of (filter (\<lambda>(x, _). x \<noteq> cid) h @ [(cid, rec)]) cid = Some rec" for h :: "(pystr \<times> ckpt) list"
    by (induction h) auto
  then show ?thesis by (simp add: spec_put_def)
qed

lemma pend_spec_put [simp]: "pend (spec_put v key cid rec) = pend v"
  by (simp add: spec_put_def)

lemma pend_run:
  "\<forall>p. PutWrites p \<notin> set ops \<Longrightarrow> pend (fst (run_ops spec_step v ops)) = pend v"
proof (induction ops arbitrary: v)
  case (Cons op ops)
  have "pend (fst (spec_step v op)) = pend v"
    using Cons.prems by (cases op) (auto simp: spec_step_def split: sum.splits)
  with Cons show ?case by (simp add: case_prod_beta Let_def)
qed simp

lemma sql_reached:
  assumes "list_all op_ok ops" "\<forall>p. PutWrites p \<notin> set ops"
  shows "sql_inv (fst (run_ops sql_step sql_init ops)) \<and> pend (sql_view (fst (run_ops sql_step sql_init ops))) = (\<lambda>_. [])"
proof -
  obtain s rs where r: "run_ops sql_step sql_init ops = (s, rs)" by fastforce
  from sql.run_spec [OF sql.init_ok(1) assms(1) r [unfolded sql_step_def]]
  have "sql_inv s" "fst (run_ops spec_step spec_init ops) = sql_view s" by (simp_all add: sql.init_ok(2))
  with pend_run [OF assms(2), of spec_init] r show ?thesis by (simp add: spec_init_def)
qed

section \<open>Properties\<close>

text \<open>
  C12: a checkpoint survives the round trip. After any requests to the durable store, saving a
  checkpoint and reading it with the configuration that saving returned gives the same
  checkpoint, metadata, configuration and parent, even when attempts of either call, or their
  replies, were lost and retried. The serializer is assumed to read back what it wrote for these
  two values.
\<close>

theorem saver_roundtrip:
  assumes "list_all op_ok ops" "\<forall>p. PutWrites p \<notin> set ops"
    "cfg_ids c thread ns par" "serde_ok sd ckpt" "serde_ok sd meta" "item_id sd ckpt = Inr (JStr cid)"
    "list_all is_scalar cid" "wf_json nv" "fates_ok fates" "fates_ok fates'"
    "aput sd sql_put fates (fst (run_ops sql_step sql_init ops)) (configurable c) ckpt meta nv = (s', r)"
  shows "\<exists>cfg. r = Inr cfg \<and> snd (aget_tuple sd sql_get_tuple fates' s' cfg) =
    Inr (Some \<lparr>t_config = cfg, t_checkpoint = ckpt, t_metadata = meta,
               t_parent = parent_config (JStr thread) (JStr ns) par, t_pending = []\<rparr>)"
proof -
  let ?s = "fst (run_ops sql_step sql_init ops)" and ?c = "with_ids c (JStr thread) (JStr ns) (JStr cid)"
  note s = sql_reached [OF assms(1,2)]
  from sql.saver_put [OF conjunct1 [OF s] assms(3-9)] assms(11) obtain blob mblob where p: "r = Inr (configurable ?c)" "sql_inv s'"
      "sql_view s' = spec_put (sql_view ?s) (thread, ns) cid (stored par blob mblob nv)"
      "decode_typed sd blob = Inr ckpt" "decode_typed sd mblob = Inr meta" by auto
  have "map_of (hist (sql_view s') (thread, ns)) cid = Some (stored par blob mblob nv)" by (simp add: p(3) spec_put_lookup)
  from sql.saver_get [OF p(2) cfg_ids_with_ids [OF assms(3,7)] assms(10,6) this p(4,5)] s p(1,3)
  show ?thesis by (simp add: with_ids_idem)
qed

text \<open>
  Pending writes are not restored. Whatever a task wrote, the tuple read back has a single
  pending write for it, with the empty channel and the value of the first write; the channel
  names and all further writes are lost. A task that wrote nothing makes the checkpoint
  unreadable: the call raises \<^verbatim>\<open>IndexError\<close>.
\<close>

theorem pending_writes_lost:
  assumes "cfg_ids c thread ns par" "serde_ok sd ckpt" "serde_ok sd meta" "item_id sd ckpt = Inr (JStr cid)"
    "list_all is_scalar cid" "wf_json nv" "list_all fates_ok [f1, f2, f3]" "serde_ok sd (PWrites ws)"
    "list_all is_scalar task" "list_all is_scalar path"
    "aput sd sql_put f1 sql_init (configurable c) ckpt meta nv = (s1, Inr cfg)"
    "aput_writes sd sql_put_writes f2 s1 cfg ws task path = (s2, r)"
  shows "case ws of
      [] \<Rightarrow> snd (aget_tuple sd sql_get_tuple f3 s2 cfg) = Inl IndexError
    | (_, x) # _ \<Rightarrow> \<exists>t. snd (aget_tuple sd sql_get_tuple f3 s2 cfg) = Inr (Some t) \<and> t_pending t = [(JStr task, JStr [], x)]"
proof -
  let ?c = "with_ids c (JStr thread) (JStr ns) (JStr cid)"
  have f: "fates_ok f1" "fates_ok f2" "fates_ok f3" using assms(7) by simp_all
  from sql.saver_put [OF sql.init_ok(1) assms(1-6) f(1)] assms(11) obtain blob mblob where p: "cfg = configurable ?c" "sql_inv s1"
      "sql_view s1 = spec_put (sql_view sql_init) (thread, ns) cid (stored par blob mblob nv)"
      "decode_typed sd blob = Inr ckpt" "decode_typed sd mblob = Inr meta" by auto
  note cf = cfg_ids_with_ids [OF assms(1,5)]
  have e: "pend (sql_view s1) ((thread, ns), cid) = []" by (simp add: p(3) sql.init_ok(2) spec_init_def)
  from sql.saver_writes [OF p(2) cf assms(8-10) f(2) e] assms(12) obtain wb where w: "sql_inv s2"
      "hist (sql_view s2) = hist (sql_view s1)" "pend (sql_view s2) ((thread, ns), cid) = [((task, path), wb)]"
      "decode_typed sd wb = Inr (PWrites ws)" by (auto simp: p(1))
  have m: "map_of (hist (sql_view s2) (thread, ns)) cid = Some (stored par blob mblob nv)" by (simp add: w(2) p(3) spec_put_lookup)
  have "pending_of sd (pending_item task wb) = rmap (\<lambda>x. (JStr task, JStr [], x)) (first_write (PWrites ws))"
    by (simp add: pending_of_def pending_item_def jindex_def dict_get_def w(4))
  with sql.saver_get [OF w(1) cf f(3) assms(4) m p(4,5)] w(3) show ?thesis
    by (auto simp: p(1) first_write_def split: list.splits)
qed

text \<open>A serializer of bytes, a configuration, and a network that loses the first reply.\<close>

definition byte_serde :: "byte serde" where
  "byte_serde =
     \<lparr>dumps_typed = (\<lambda>v. Inr (case v of PVal x \<Rightarrow> (u ''v'', [x]) | PWrites ws \<Rightarrow> (u ''w'', map snd ws))),
      loads_typed = (\<lambda>(t, b). if t = u ''v'' then Inr (PVal (hd b)) else Inr (PWrites (map (Pair (u ''c'')) b))),
      item_id = (\<lambda>_. Inr (JStr (u ''id'')))\<rparr>"

definition sample_cfg :: "(pystr, json) dict" where
  "sample_cfg = [(u ''thread_id'', JStr (u ''t''))]"

definition lossy :: "nat \<Rightarrow> fate" where
  "lossy i = (if i = 0 then ReplyLost (TimeoutError []) else Delivered)"

lemma sample_saver:
  "cfg_ids sample_cfg (u ''t'') [] JNull" "serde_ok byte_serde (PVal x)" "item_id byte_serde v = Inr (JStr (u ''id''))"
  "serde_ok byte_serde (PWrites [(u ''c'', x), (u ''c'', y)])"
  by (simp_all add: cfg_ids_def sample_cfg_def dict_get_def scalar_u serde_ok_def byte_serde_def)

lemma lossy_ok: "fates_ok lossy"
proof -
  have "lossy 1 = Delivered" "fate_ok (lossy j)" for j by (simp_all add: lossy_def fate_ok_def is_Exception_def)
  then show ?thesis unfolding fates_ok_def by (intro conjI exI [of _ 1]) simp_all
qed

theorem saver_roundtrip_witness:
  "\<exists>s' cfg. aput byte_serde sql_put lossy (fst (run_ops sql_step sql_init [])) (configurable sample_cfg) (PVal 7) (PVal 8) JNull = (s', Inr cfg) \<and>
    snd (aget_tuple byte_serde sql_get_tuple lossy s' cfg) =
      Inr (Some \<lparr>t_config = cfg, t_checkpoint = PVal 7, t_metadata = PVal 8, t_parent = None, t_pending = []\<rparr>)"
proof -
  obtain s' r where p: "aput byte_serde sql_put lossy (fst (run_ops sql_step sql_init [])) (configurable sample_cfg) (PVal 7) (PVal 8) JNull = (s', r)"
    by fastforce
  from saver_roundtrip [OF _ _ sample_saver(1) sample_saver(2) sample_saver(2) sample_saver(3) scalar_u _ lossy_ok lossy_ok p]
  show ?thesis using p by (auto simp del: run_ops.simps simp: parent_config_def)
qed

theorem pending_writes_lost_witness:
  "\<exists>s1 cfg s2 r t. aput byte_serde sql_put lossy sql_init (configurable sample_cfg) (PVal 7) (PVal 8) JNull = (s1, Inr cfg) \<and>
    aput_writes byte_serde sql_put_writes lossy s1 cfg [(u ''c'', 1), (u ''c'', 2)] (u ''task'') [] = (s2, r) \<and>
    snd (aget_tuple byte_serde sql_get_tuple lossy s2 cfg) = Inr (Some t) \<and> t_pending t = [(JStr (u ''task''), JStr [], 1)]"
proof -
  obtain s1 cfg where p: "aput byte_serde sql_put lossy sql_init (configurable sample_cfg) (PVal 7) (PVal 8) JNull = (s1, Inr cfg)"
    using sql.saver_put [OF sql.init_ok(1) sample_saver(1) sample_saver(2) sample_saver(2) sample_saver(3) scalar_u _ lossy_ok, of JNull 7 8] by auto
  obtain s2 r where w: "aput_writes byte_serde sql_put_writes lossy s1 cfg [(u ''c'', 1), (u ''c'', 2)] (u ''task'') [] = (s2, r)" by fastforce
  have "\<exists>t. snd (aget_tuple byte_serde sql_get_tuple lossy s2 cfg) = Inr (Some t) \<and> t_pending t = [(JStr (u ''task''), JStr [], 1)]"
    using pending_writes_lost [OF sample_saver(1) sample_saver(2) sample_saver(2) sample_saver(3) scalar_u _ _ sample_saver(4) _ _ p w, of lossy]
    by (simp add: scalar_u lossy_ok)
  with p w show ?thesis by blast
qed

end
