(* ===== verification/Call_Limits.thy ===== *)
theory Call_Limits
  imports Complex_Main Prelude
begin

text \<open>
  The bookkeeping of \<^verbatim>\<open>server.py\<close>: latency statistics (\<^verbatim>\<open>_Stats\<close>) and the sliding-window rate
  limiter (\<^verbatim>\<open>_RateLimiter\<close>). Clock readings and latencies are the rational numbers that the
  floats denote; the rounding of \<^verbatim>\<open>now - window_secs\<close> to a float is not modelled.
\<close>

section \<open>Statistics\<close>

record stats =
  calls :: nat
  errors :: nat
  latencies_ms :: "rat list"

definition stats_init :: stats where
  "stats_init = \<lparr>calls = 0, errors = 0, latencies_ms = []\<rparr>"

definition MAX_LATENCIES :: nat where "MAX_LATENCIES = 256"

text \<open>\<^verbatim>\<open>append\<close> to a deque of bounded length: the oldest entry falls out.\<close>

definition ring_append :: "nat \<Rightarrow> 'a list \<Rightarrow> 'a \<Rightarrow> 'a list" where
  "ring_append m xs x = (let ys = xs @ [x] in drop (length ys - m) ys)"

text \<open>Python's \<^verbatim>\<open>round\<close>: to the nearest integer, ties to the even one; and to some decimals.\<close>

definition py_round :: "rat \<Rightarrow> int" where
  "py_round x =
     (let f = \<lfloor>x\<rfloor>; d = x - of_int f in
      if d < 1 / 2 then f else if 1 / 2 < d then f + 1 else if even f then f else f + 1)"

definition py_round_to :: "nat \<Rightarrow> rat \<Rightarrow> rat" where
  "py_round_to k x = of_int (py_round (x * 10 ^ k)) / 10 ^ k"

definition percentile :: "stats \<Rightarrow> rat \<Rightarrow> rat" where
  "percentile s p =
     (if latencies_ms s = [] then 0
      else (let sorted_lat = sort (latencies_ms s);
                n = int (length sorted_lat);
                idx = max 0 (min (n - 1) (py_round (p * of_int (n - 1))))
            in py_round_to 2 (sorted_lat ! nat idx)))"

text \<open>The three updates after a handler has run.\<close>

definition record_call :: "stats \<Rightarrow> bool \<Rightarrow> rat \<Rightarrow> stats" where
  "record_call s failed lat =
     s\<lparr>calls := calls s + 1, errors := errors s + (if failed then 1 else 0),
       latencies_ms := ring_append MAX_LATENCIES (latencies_ms s) lat\<rparr>"

section \<open>Rate limiter\<close>

record rate_limiter =
  rl_limit :: int
  rl_window_secs :: rat
  rl_windows :: "(int, rat list) dict"

definition rate_limiter_new :: "int \<Rightarrow> rat \<Rightarrow> rate_limiter" where
  "rate_limiter_new limit window_secs =
     \<lparr>rl_limit = limit, rl_window_secs = window_secs, rl_windows = []\<rparr>"

definition window_of :: "rate_limiter \<Rightarrow> int \<Rightarrow> rat list" where
  "window_of rl caller = (case dict_get (rl_windows rl) caller of None \<Rightarrow> [] | Some w \<Rightarrow> w)"

definition consume :: "rate_limiter \<Rightarrow> int \<Rightarrow> rat \<Rightarrow> rate_limiter \<times> bool" where
  "consume rl caller now =
     (let window = dropWhile (\<lambda>t. t < now - rl_window_secs rl) (window_of rl caller) in
      if rl_limit rl \<le> int (length window)
      then (rl\<lparr>rl_windows := dict_set (rl_windows rl) caller window\<rparr>, False)
      else (rl\<lparr>rl_windows := dict_set (rl_windows rl) caller (window @ [now])\<rparr>, True))"

text \<open>A sequence of calls, and which of them were let through.\<close>

fun consume_all :: "rate_limiter \<Rightarrow> (int \<times> rat) list \<Rightarrow> rate_limiter \<times> bool list" where
  "consume_all rl [] = (rl, [])"
| "consume_all rl ((c, t) # cs) =
     (let (rl1, b) = consume rl c t; (rl2, bs) = consume_all rl1 cs in (rl2, b # bs))"

definition accepted :: "int \<Rightarrow> (int \<times> rat) list \<Rightarrow> bool list \<Rightarrow> rat list" where
  "accepted c cs bs = map (snd \<circ> fst) (filter (\<lambda>((c', t), b). c' = c \<and> b) (zip cs bs))"

section \<open>Lemmas\<close>

lemma consume_limit [simp]:
  "rl_limit (fst (consume rl c t)) = rl_limit rl" "rl_window_secs (fst (consume rl c t)) = rl_window_secs rl"
  by (simp_all add: consume_def Let_def)

lemma consume_other: "c' \<noteq> c \<Longrightarrow> window_of (fst (consume rl c t)) c' = window_of rl c'"
  by (simp add: consume_def Let_def window_of_def)

lemma consume_window:
  "window_of (fst (consume rl c t)) c =
     dropWhile (\<lambda>x. x < t - rl_window_secs rl) (window_of rl c) @ (if snd (consume rl c t) then [t] else [])"
  by (simp add: consume_def Let_def window_of_def)

lemma consume_snd:
  "snd (consume rl c t) \<longleftrightarrow>
     int (length (dropWhile (\<lambda>x. x < t - rl_window_secs rl) (window_of rl c))) < rl_limit rl"
  by (simp add: consume_def Let_def not_le)

lemma consume_all_append:
  "consume_all rl (xs @ ys) =
     (let (rl1, b1) = consume_all rl xs; (rl2, b2) = consume_all rl1 ys in (rl2, b1 @ b2))"
  by (induction xs arbitrary: rl) (auto simp: Let_def split: prod.splits)

lemma consume_all_length [simp]: "length (snd (consume_all rl cs)) = length cs"
  by (induction rl cs rule: consume_all.induct) (auto simp: Let_def split: prod.splits)

lemma consume_all_keeps:
  "rl_limit (fst (consume_all rl cs)) = rl_limit rl \<and> rl_window_secs (fst (consume_all rl cs)) = rl_window_secs rl"
proof (induction cs arbitrary: rl)
  case (Cons ct cs)
  obtain c t where ct: "ct = (c, t)" by (cases ct)
  obtain rl1 b where rl1: "consume rl c t = (rl1, b)" by (cases "consume rl c t")
  have "rl_limit rl1 = rl_limit rl" "rl_window_secs rl1 = rl_window_secs rl"
    using consume_limit [of rl c t] by (simp_all add: rl1)
  with Cons [of rl1] show ?case by (cases "consume_all rl1 cs") (simp add: ct rl1)
qed simp

lemma consume_all_fields [simp]:
  "rl_limit (fst (consume_all rl cs)) = rl_limit rl"
  "rl_window_secs (fst (consume_all rl cs)) = rl_window_secs rl"
  using consume_all_keeps by blast+

lemma rate_limiter_new_fields [simp]:
  "rl_limit (rate_limiter_new l w) = l" "rl_window_secs (rate_limiter_new l w) = w"
  "window_of (rate_limiter_new l w) c = []"
  by (simp_all add: rate_limiter_new_def window_of_def)

lemma consume_all_snoc:
  "consume_all rl (cs @ [(c, t)]) =
     (let (rl1, bs) = consume_all rl cs; (rl2, b) = consume rl1 c t in (rl2, bs @ [b]))"
  by (simp add: consume_all_append Let_def split: prod.splits)

lemma accepted_snoc:
  "length cs = length bs \<Longrightarrow>
    accepted c (cs @ [(c', t)]) (bs @ [b]) = accepted c cs bs @ (if c' = c \<and> b then [t] else [])"
  by (simp add: accepted_def)

lemma accepted_subset: "set (accepted c cs bs) \<subseteq> snd ` set cs"
  by (auto simp: accepted_def dest!: set_zip_leftD intro: rev_image_eqI)

lemma dropWhile_less_filter:
  "sorted xs \<Longrightarrow> dropWhile (\<lambda>x. x < (y :: 'a :: linorder)) xs = filter (\<lambda>x. y \<le> x) xs"
proof (induction xs)
  case (Cons x xs)
  show ?case
  proof (cases "x < y")
    case False
    then have "\<forall>z \<in> set (x # xs). y \<le> z" using Cons.prems by auto
    then have "filter (\<lambda>x. y \<le> x) (x # xs) = x # xs" by (simp only: filter_True)
    with False show ?thesis by simp
  qed (use Cons in auto)
qed simp

text \<open>
  After calls at non-decreasing times, pruning the window of a caller leaves its accepted calls
  that are young enough.
\<close>

lemma consume_all_snoc_conv:
  "fst (consume_all rl (cs @ [(c, t)])) = fst (consume (fst (consume_all rl cs)) c t)"
  "snd (consume_all rl (cs @ [(c, t)])) = snd (consume_all rl cs) @ [snd (consume (fst (consume_all rl cs)) c t)]"
  by (simp_all add: consume_all_snoc Let_def split: prod.splits)

lemma accepted_sorted: "sorted (map snd cs) \<Longrightarrow> sorted (accepted c cs (snd (consume_all rl cs)))"
proof (induction cs rule: rev_induct)
  case (snoc ct cs)
  obtain c' t where ct: "ct = (c', t)" by (cases ct)
  have "\<forall>x \<in> set (accepted c cs (snd (consume_all rl cs))). x \<le> t"
    using snoc.prems accepted_subset [of c cs "snd (consume_all rl cs)"] by (force simp: ct sorted_append)
  with snoc show ?case by (simp add: ct consume_all_snoc_conv accepted_snoc sorted_append)
qed (simp add: accepted_def)

lemma pruned_window:
  assumes "sorted (map snd cs)" "\<forall>t \<in> snd ` set cs. t \<le> now"
  shows "dropWhile (\<lambda>t. t < now - w) (window_of (fst (consume_all (rate_limiter_new limit w) cs)) c) =
    filter (\<lambda>t. now - w \<le> t) (accepted c cs (snd (consume_all (rate_limiter_new limit w) cs)))"
  using assms
proof (induction cs arbitrary: now rule: rev_induct)
  case Nil
  then show ?case by (simp add: rate_limiter_new_def window_of_def accepted_def)
next
  case (snoc ct cs)
  obtain c' t where ct: "ct = (c', t)" by (cases ct)
  let ?rl = "fst (consume_all (rate_limiter_new limit w) cs)"
  let ?acc = "accepted c cs (snd (consume_all (rate_limiter_new limit w) cs))"
  have s: "sorted (map snd cs)" and le: "\<forall>x \<in> snd ` set cs. x \<le> t" "t \<le> now" "\<forall>x \<in> snd ` set cs. x \<le> now"
    using snoc.prems by (auto simp: ct sorted_append)
  have w: "rl_window_secs ?rl = w" by (simp add: rate_limiter_new_def)
  show ?case
  proof (cases "c' = c")
    case False
    then show ?thesis
      using snoc.IH [OF s le(3)] by (simp add: ct consume_all_snoc_conv accepted_snoc consume_other)
  next
    case True
    let ?b = "snd (consume ?rl c t)"
    have acc: "\<forall>x \<in> set ?acc. x \<le> t"
      using le(1) accepted_subset [of c cs "snd (consume_all (rate_limiter_new limit w) cs)"] by auto
    have "window_of (fst (consume ?rl c t)) c = filter (\<lambda>x. t - w \<le> x) ?acc @ (if ?b then [t] else [])"
      using snoc.IH [OF s le(1)] by (simp add: consume_window w)
    moreover have "sorted (filter (\<lambda>x. t - w \<le> x) ?acc @ (if ?b then [t] else []))"
      using accepted_sorted [OF s] acc by (auto simp: sorted_append intro: sorted_filter [where f = "\<lambda>x. x", simplified])
    moreover have "filter (\<lambda>x. now - w \<le> x) (filter (\<lambda>x. t - w \<le> x) ?acc) = filter (\<lambda>x. now - w \<le> x) ?acc"
      unfolding filter_filter by (rule filter_cong) (use le(2) in auto)
    ultimately show ?thesis
      using True by (simp add: ct consume_all_snoc_conv accepted_snoc dropWhile_less_filter)
  qed
qed

lemma consume_decision:
  assumes "sorted (map snd (cs @ [(c, now)]))"
  shows "snd (consume (fst (consume_all (rate_limiter_new limit w) cs)) c now) \<longleftrightarrow>
    int (length (filter (\<lambda>t. now - w \<le> t) (accepted c cs (snd (consume_all (rate_limiter_new limit w) cs))))) < limit"
proof -
  have "sorted (map snd cs)" "\<forall>t \<in> snd ` set cs. t \<le> now" using assms by (auto simp: sorted_append)
  from pruned_window [OF this] show ?thesis by (simp add: consume_snd)
qed

lemma length_filter_mono: "(\<And>x. x \<in> set xs \<Longrightarrow> P x \<Longrightarrow> Q x) \<Longrightarrow> length (filter P xs) \<le> length (filter Q xs)"
  by (induction xs) (auto simp: le_Suc_eq)

lemma accepted_in_window:
  assumes "sorted (map snd cs)"
  shows "int (length (filter (\<lambda>t. x \<le> t \<and> t \<le> x + w)
    (accepted c cs (snd (consume_all (rate_limiter_new limit w) cs))))) \<le> max 0 limit"
  using assms
proof (induction cs rule: rev_induct)
  case Nil
  then show ?case by (simp add: accepted_def)
next
  case (snoc ct cs)
  obtain c' t where ct: "ct = (c', t)" by (cases ct)
  let ?acc = "accepted c cs (snd (consume_all (rate_limiter_new limit w) cs))"
  let ?b = "snd (consume (fst (consume_all (rate_limiter_new limit w) cs)) c' t)"
  have IH: "int (length (filter (\<lambda>t. x \<le> t \<and> t \<le> x + w) ?acc)) \<le> max 0 limit"
    using snoc by (simp add: sorted_append)
  show ?case
  proof (cases "c' = c \<and> ?b \<and> x \<le> t \<and> t \<le> x + w")
    case True
    then have "int (length (filter (\<lambda>s. t - w \<le> s) ?acc)) < limit"
      using consume_decision [of cs c t limit w] snoc.prems by (auto simp: ct)
    moreover have "length (filter (\<lambda>s. x \<le> s \<and> s \<le> x + w) ?acc) \<le> length (filter (\<lambda>s. t - w \<le> s) ?acc)"
      by (rule length_filter_mono) (use True in auto)
    ultimately show ?thesis using True by (simp add: ct consume_all_snoc_conv accepted_snoc)
  next
    case False
    then show ?thesis using IH by (auto simp: ct consume_all_snoc_conv accepted_snoc)
  qed
qed

lemma consume_window_bound:
  "int (length (window_of rl c)) \<le> max 0 (rl_limit rl) \<Longrightarrow>
    int (length (window_of (fst (consume rl c' t)) c)) \<le> max 0 (rl_limit rl)"
proof (cases "c' = c")
  case True
  assume "int (length (window_of rl c)) \<le> max 0 (rl_limit rl)"
  moreover have "length (dropWhile (\<lambda>x. x < t - rl_window_secs rl) (window_of rl c)) \<le> length (window_of rl c)"
    by (rule length_dropWhile_le)
  ultimately show ?thesis using True consume_snd [of rl c t] by (auto simp: consume_window)
qed (simp add: consume_other)

lemma consume_all_window_bound:
  "int (length (window_of (fst (consume_all (rate_limiter_new limit w) cs)) c)) \<le> max 0 limit"
proof (induction cs rule: rev_induct)
  case Nil
  then show ?case by (simp add: rate_limiter_new_def window_of_def)
next
  case (snoc ct cs)
  have l: "rl_limit (fst (consume_all (rate_limiter_new limit w) cs)) = limit" by (simp add: rate_limiter_new_def)
  show ?case
    using consume_window_bound [of "fst (consume_all (rate_limiter_new limit w) cs)" c "fst ct" "snd ct"] snoc
    by (cases ct) (simp add: l consume_all_snoc_conv)
qed

lemma ring_append_length: "length (ring_append m xs x) \<le> m"
  by (simp add: ring_append_def Let_def)

lemma ring_append_set: "set (ring_append m xs x) \<subseteq> insert x (set xs)"
  by (auto simp: ring_append_def Let_def dest: in_set_dropD)

lemma py_round_mono: "x \<le> y \<Longrightarrow> py_round x \<le> py_round y"
proof -
  assume le: "x \<le> y"
  then have f: "\<lfloor>x\<rfloor> \<le> \<lfloor>y\<rfloor>" by (rule floor_mono)
  have b: "\<lfloor>z\<rfloor> \<le> py_round z \<and> py_round z \<le> \<lfloor>z\<rfloor> + 1" for z by (simp add: py_round_def Let_def)
  show ?thesis
  proof (cases "\<lfloor>x\<rfloor> = \<lfloor>y\<rfloor>")
    case True
    with le show ?thesis by (auto simp: py_round_def Let_def)
  next
    case False
    with f have "\<lfloor>x\<rfloor> + 1 \<le> \<lfloor>y\<rfloor>" by simp
    with b [of x] b [of y] show ?thesis by linarith
  qed
qed

lemma py_round_to_mono: "x \<le> y \<Longrightarrow> py_round_to k x \<le> py_round_to k y"
  unfolding py_round_to_def by (intro divide_right_mono) (simp_all add: py_round_mono mult_right_mono)

lemma percentile_index:
  assumes "latencies_ms s \<noteq> []"
  shows "percentile s p = py_round_to 2 (sort (latencies_ms s) !
      nat (max 0 (min (int (length (latencies_ms s)) - 1) (py_round (p * of_int (int (length (latencies_ms s)) - 1))))))"
    and "nat (max 0 (min (int (length (latencies_ms s)) - 1) (py_round (p * of_int (int (length (latencies_ms s)) - 1))))) < length (latencies_ms s)"
proof -
  show "percentile s p = py_round_to 2 (sort (latencies_ms s) !
      nat (max 0 (min (int (length (latencies_ms s)) - 1) (py_round (p * of_int (int (length (latencies_ms s)) - 1))))))"
    using assms by (simp add: percentile_def Let_def)
  have "0 < length (latencies_ms s)" using assms by simp
  then show "nat (max 0 (min (int (length (latencies_ms s)) - 1) (py_round (p * of_int (int (length (latencies_ms s)) - 1))))) < length (latencies_ms s)"
    by linarith
qed

section \<open>Properties\<close>

text \<open>
  C14: the limiter decides exactly the sliding-window rule. For calls of any callers at
  non-decreasing times, the next call of a caller is let through if and only if fewer than
  \<open>limit\<close> of its own earlier calls that were let through lie in the last \<open>window\<close> seconds; other
  callers and denied calls do not count.
\<close>

theorem rate_limiter_exact:
  assumes "sorted (map snd (cs @ [(c, now)]))"
  shows "last (snd (consume_all (rate_limiter_new limit w) (cs @ [(c, now)]))) \<longleftrightarrow>
    int (length (filter (\<lambda>t. now - w \<le> t) (accepted c cs (snd (consume_all (rate_limiter_new limit w) cs))))) < limit"
  using consume_decision [OF assms] by (simp add: consume_all_snoc_conv)

theorem rate_limiter_exact_witness:
  "\<not> last (snd (consume_all (rate_limiter_new 2 60) ([(1, 0), (2, 1), (1, 5)] @ [(1, 60)])))"
proof -
  have "sorted (map snd ([(1, 0), (2, 1), (1, 5)] @ [(1 :: int, 60 :: rat)]))" by simp
  from rate_limiter_exact [OF this, of 2 60] show ?thesis
    by (simp add: consume_def rate_limiter_new_def window_of_def dict_get_def dict_set_def accepted_def Let_def)
qed

text \<open>
  No burst exceeds the limit. Whatever the callers do, in no closed interval as long as the
  window are more than \<open>limit\<close> calls of one caller let through, and the limiter never remembers
  more than \<open>limit\<close> times per caller.
\<close>

theorem rate_limiter_window_bound:
  assumes "sorted (map snd cs)"
  shows "int (length (filter (\<lambda>t. x \<le> t \<and> t \<le> x + w)
      (accepted c cs (snd (consume_all (rate_limiter_new limit w) cs))))) \<le> max 0 limit \<and>
    int (length (window_of (fst (consume_all (rate_limiter_new limit w) cs)) c)) \<le> max 0 limit"
  using accepted_in_window [OF assms] consume_all_window_bound by blast

theorem rate_limiter_window_bound_witness:
  "int (length (filter (\<lambda>t. 0 \<le> t \<and> t \<le> 60)
      (accepted 1 [(1, 0), (1, 5), (1, 9)] (snd (consume_all (rate_limiter_new 2 60) [(1, 0), (1, 5), (1, 9)]))))) \<le> 2"
proof -
  have "sorted (map snd [(1 :: int, 0 :: rat), (1, 5), (1, 9)])" by simp
  from rate_limiter_window_bound [OF this, of 0 60 1 2] show ?thesis by simp
qed

text \<open>
  The reported percentiles are samples in order: each is one of the recorded latencies,
  rounded to two decimals, and a higher percentile is not a smaller latency.
\<close>

theorem percentile_sample:
  assumes "latencies_ms s \<noteq> []" "p \<le> q"
  shows "percentile s p \<in> py_round_to 2 ` set (latencies_ms s) \<and> percentile s p \<le> percentile s q"
proof
  note i = percentile_index [OF assms(1)]
  have "sort (latencies_ms s) ! nat (max 0 (min (int (length (latencies_ms s)) - 1)
      (py_round (p * of_int (int (length (latencies_ms s)) - 1))))) \<in> set (sort (latencies_ms s))"
    using i(2) [of p] by (intro nth_mem) simp
  then show "percentile s p \<in> py_round_to 2 ` set (latencies_ms s)" unfolding i(1) by simp
  have "p * of_int (int (length (latencies_ms s)) - 1) \<le> q * of_int (int (length (latencies_ms s)) - 1)"
    using assms by (intro mult_right_mono) (simp_all add: Suc_le_eq)
  from py_round_mono [OF this]
  have "nat (max 0 (min (int (length (latencies_ms s)) - 1) (py_round (p * of_int (int (length (latencies_ms s)) - 1)))))
      \<le> nat (max 0 (min (int (length (latencies_ms s)) - 1) (py_round (q * of_int (int (length (latencies_ms s)) - 1)))))"
    by linarith
  then show "percentile s p \<le> percentile s q"
    unfolding i(1) using i(2) [of q] by (intro py_round_to_mono sorted_nth_mono) simp_all
qed

theorem percentile_sample_witness:
  "percentile \<lparr>calls = 2, errors = 0, latencies_ms = [3, 1]\<rparr> (1 / 2) \<le>
   percentile \<lparr>calls = 2, errors = 0, latencies_ms = [3, 1]\<rparr> (19 / 20)"
  using percentile_sample [of "\<lparr>calls = 2, errors = 0, latencies_ms = [3, 1]\<rparr>" "1 / 2" "19 / 20"] by simp

end
