(* ===== verification/Server.thy ===== *)
theory Server
  imports Call_Limits Wire Ipc "HOL-Library.List_Lexorder"
begin

text \<open>
  \<^verbatim>\<open>server.py\<close>: registrations, the worker's state, and the handling of one call from the bytes of
  the request to the frames of the reply. A \<^verbatim>\<open>_Registration\<close> is an object that calls in flight
  keep while the table of handlers changes, so the table maps names to indices into a heap of
  registrations.

  User code is a parameter: a handler is its kind, its signature and what calling it gives; a
  middleware is the program of its calls of \<^verbatim>\<open>next_fn\<close>; a validation model is its validator.
  What the interpreter, the clock and the transport contribute to one call is the record \<open>env\<close>.
\<close>

section \<open>User code\<close>

record Context =
  caller_node_id :: int
  caller_addr :: addr
  caller_port :: int
  request_id :: pystr
  ctx_started_at :: rat
  handler_name :: pystr

text \<open>
  A value that a handler returns: JSON, another object (which \<^verbatim>\<open>default=str\<close> turns into its text),
  or an asynchronous generator, which yields values and then ends or raises.
\<close>

datatype hval = VJson json | VOpaque pystr | VGen "json list" "exn option"

datatype fkind = FSync | FCoro | FAsyncGen

datatype pkind = PositionalOnly | PositionalOrKeyword | VarPositional | KeywordOnly | VarKeyword

record user_fn =
  fn_kind :: fkind
  fn_signature :: "pkind list option"
  fn_call :: "json \<Rightarrow> Context option \<Rightarrow> hval result"

datatype handler_fn = UserFn user_fn | HealthFn | HandlersFn

record pmodel =
  model_validate :: "hval \<Rightarrow> json result"
  model_schema :: json

datatype mwprog = MRet hval | MRaise exn | MNext json Context "hval result \<Rightarrow> mwprog"

record middleware =
  mw_async :: bool
  mw_body :: "json \<Rightarrow> Context \<Rightarrow> mwprog"

text \<open>\<^verbatim>\<open>_wants_context\<close>; no signature stands for \<^verbatim>\<open>inspect.signature\<close> raising.\<close>

definition wants_context :: "pkind list option \<Rightarrow> bool" where
  "wants_context sg =
     (case sg of
        None \<Rightarrow> False
      | Some ps \<Rightarrow>
          2 \<le> length (filter (\<lambda>p. p = PositionalOnly \<or> p = PositionalOrKeyword) ps) \<or>
          VarPositional \<in> set ps)"

fun fn_sig :: "handler_fn \<Rightarrow> pkind list option" where
  "fn_sig (UserFn f) = fn_signature f"
| "fn_sig HealthFn = Some [PositionalOrKeyword]"
| "fn_sig HandlersFn = Some [PositionalOrKeyword]"

fun is_asyncgen :: "handler_fn \<Rightarrow> bool" where
  "is_asyncgen (UserFn f) = (fn_kind f = FAsyncGen)"
| "is_asyncgen _ = False"

section \<open>Registrations\<close>

record registration =
  fn :: handler_fn
  allow :: "int set option"
  reg_stats :: stats
  wants_ctx :: bool
  timeout_secs :: "rat option"
  reg_limiter :: "rate_limiter option"
  max_concurrent :: "int option"
  sem_value :: "int option"
  input_model :: "pmodel option"
  output_model :: "pmodel option"

text \<open>The keyword arguments of \<^verbatim>\<open>register\<close> and \<^verbatim>\<open>pilot_handler\<close>.\<close>

record options =
  o_allow :: "int list option"
  o_timeout_secs :: "rat option"
  o_rate_per_caller :: "int option"
  o_rate_window_secs :: rat
  o_max_concurrent :: "int option"
  o_input_model :: "pmodel option"
  o_output_model :: "pmodel option"

definition default_options :: options where
  "default_options =
     \<lparr>o_allow = None, o_timeout_secs = None, o_rate_per_caller = None, o_rate_window_secs = 60,
      o_max_concurrent = None, o_input_model = None, o_output_model = None\<rparr>"

text \<open>\<^verbatim>\<open>_Registration.__init__\<close>; \<^verbatim>\<open>if rate_per_caller\<close> takes 0 as no limiter.\<close>

definition new_registration :: "handler_fn \<Rightarrow> options \<Rightarrow> registration" where
  "new_registration f opts =
     \<lparr>fn = f,
      allow = map_option set (o_allow opts),
      reg_stats = stats_init,
      wants_ctx = wants_context (fn_sig f),
      timeout_secs = o_timeout_secs opts,
      reg_limiter =
        (case o_rate_per_caller opts of
           None \<Rightarrow> None
         | Some n \<Rightarrow> if n = 0 then None else Some (rate_limiter_new n (o_rate_window_secs opts))),
      max_concurrent = o_max_concurrent opts,
      sem_value = None,
      input_model = o_input_model opts,
      output_model = o_output_model opts\<rparr>"

definition authorized :: "registration \<Rightarrow> int \<Rightarrow> bool" where
  "authorized reg caller = (case allow reg of None \<Rightarrow> True | Some s \<Rightarrow> caller \<in> s)"

text \<open>
  \<^verbatim>\<open>_Registration.semaphore()\<close>: the registration with its semaphore created, and whether there
  is one; \<^verbatim>\<open>asyncio.Semaphore\<close> refuses a negative value.
\<close>

definition semaphore :: "registration \<Rightarrow> (registration \<times> int option) result" where
  "semaphore reg =
     (case max_concurrent reg of
        None \<Rightarrow> Inr (reg, None)
      | Some m \<Rightarrow>
          (case sem_value reg of
             Some v \<Rightarrow> Inr (reg, Some v)
           | None \<Rightarrow>
               if m < 0 then Inl (ValueError (u ''Semaphore initial value must be >= 0''))
               else Inr (reg\<lparr>sem_value := Some m\<rparr>, Some m)))"

section \<open>The worker\<close>

record server =
  handlers :: "(pystr, nat) dict"
  regs :: "registration list"
  middlewares :: "middleware list"
  total_calls :: nat
  total_errors :: nat
  periodic :: "(rat \<times> pystr) list"
  started_at :: "rat option"
  stopping :: bool

definition put_handler :: "server \<Rightarrow> pystr \<Rightarrow> registration \<Rightarrow> server" where
  "put_handler srv name reg =
     srv\<lparr>handlers := dict_set (handlers srv) name (length (regs srv)), regs := regs srv @ [reg]\<rparr>"

definition register_introspection :: "server \<Rightarrow> server" where
  "register_introspection srv =
     put_handler (put_handler srv (u ''_health'') (new_registration HealthFn default_options))
       (u ''_handlers'') (new_registration HandlersFn default_options)"

definition server_new :: "middleware list \<Rightarrow> server" where
  "server_new mws =
     register_introspection
       \<lparr>handlers = [], regs = [], middlewares = mws, total_calls = 0, total_errors = 0, periodic = [],
        started_at = None, stopping = False\<rparr>"

definition register :: "server \<Rightarrow> pystr \<Rightarrow> handler_fn \<Rightarrow> options \<Rightarrow> server" where
  "register srv name f opts = put_handler srv name (new_registration f opts)"

fun register_many :: "server \<Rightarrow> (pystr \<times> (handler_fn + registration)) list \<Rightarrow> server" where
  "register_many srv [] = srv"
| "register_many srv ((name, v) # m) =
     register_many
       (put_handler srv name (case v of Inr reg \<Rightarrow> reg | Inl f \<Rightarrow> new_registration f default_options)) m"

definition clear_user_handlers :: "server \<Rightarrow> server" where
  "clear_user_handlers srv =
     srv\<lparr>handlers := filter (\<lambda>(name, _). starts_with_cp UNDERSCORE name) (handlers srv)\<rparr>"

definition authorize :: "server \<Rightarrow> pystr \<Rightarrow> int list \<Rightarrow> server result" where
  "authorize srv name al =
     (case dict_get (handlers srv) name of
        None \<Rightarrow> Inl (KeyError (u ''no such handler: '' @ name))
      | Some r \<Rightarrow> Inr (srv\<lparr>regs := (regs srv)[r := (regs srv ! r)\<lparr>allow := Some (set al)\<rparr>]\<rparr>))"

definition use :: "server \<Rightarrow> middleware \<Rightarrow> server" where
  "use srv mw = srv\<lparr>middlewares := middlewares srv @ [mw]\<rparr>"

definition add_periodic_task :: "server \<Rightarrow> rat \<Rightarrow> pystr \<Rightarrow> pystr option \<Rightarrow> server result" where
  "add_periodic_task srv interval fn_name name =
     (if started_at srv \<noteq> None
      then Inl (RuntimeError (u ''add_periodic_task must be called before serve_forever()''))
      else Inr (srv\<lparr>periodic := periodic srv @
                    [(interval, case name of None \<Rightarrow> fn_name | Some n \<Rightarrow> if n = [] then fn_name else n)]\<rparr>))"

definition request_stop :: "server \<Rightarrow> server" where
  "request_stop srv = srv\<lparr>stopping := True\<rparr>"

text \<open>The module-global registry.\<close>

definition pilot_handler ::
    "(pystr, registration) dict \<Rightarrow> pystr \<Rightarrow> handler_fn \<Rightarrow> options \<Rightarrow> (pystr, registration) dict" where
  "pilot_handler g name f opts = dict_set g name (new_registration f opts)"

definition consume_global_handlers ::
    "(pystr, registration) dict \<Rightarrow> (pystr, registration) dict \<times> (pystr, registration) dict" where
  "consume_global_handlers g = ([], g)"

section \<open>The environment of a call\<close>

text \<open>What a send does: it succeeds, fails before, or fails after the frame has gone out.\<close>

datatype wout = WOk | WFail exn | WLate exn

record env =
  e_request_id :: pystr
  e_monotonic :: rat
  e_t_start :: rat
  e_t_end :: rat
  e_in_flight :: nat
  e_version :: pystr
  e_cut :: "nat option"
  e_write :: "nat \<Rightarrow> wout"
  e_repr :: "rat \<Rightarrow> pystr"
  e_fmt_g :: "rat \<Rightarrow> pystr"
  e_float_repr :: "pystr \<Rightarrow> pystr"
  e_other_str :: "exn \<Rightarrow> pystr"
  e_coroutine_str :: pystr

text \<open>\<^verbatim>\<open>type(e).__name__\<close> and \<^verbatim>\<open>str(e)\<close>.\<close>

fun class_name :: "remote_class \<Rightarrow> pystr" where
  "class_name PilotRemoteError = u ''PilotRemoteError''"
| "class_name PilotHandlerNotFoundError = u ''PilotHandlerNotFoundError''"
| "class_name PilotUnauthorizedError = u ''PilotUnauthorizedError''"
| "class_name PilotHandlerError = u ''PilotHandlerError''"
| "class_name PilotRateLimitError = u ''PilotRateLimitError''"

fun exn_name :: "exn \<Rightarrow> pystr" where
  "exn_name StructError = u ''error''"
| "exn_name UnicodeEncodeError = u ''UnicodeEncodeError''"
| "exn_name UnicodeDecodeError = u ''UnicodeDecodeError''"
| "exn_name JSONDecodeError = u ''JSONDecodeError''"
| "exn_name UnmodelledEncoding = u ''UnicodeDecodeError''"
| "exn_name UnmodelledType = u ''TypeError''"
| "exn_name BinasciiError = u ''Error''"
| "exn_name AttributeError = u ''AttributeError''"
| "exn_name IndexError = u ''IndexError''"
| "exn_name CancelledError = u ''CancelledError''"
| "exn_name IncompleteReadError = u ''IncompleteReadError''"
| "exn_name OverflowError = u ''OverflowError''"
| "exn_name (KeyError _) = u ''KeyError''"
| "exn_name (TypeError _) = u ''TypeError''"
| "exn_name (ValueError _) = u ''ValueError''"
| "exn_name (RuntimeError _) = u ''RuntimeError''"
| "exn_name (TimeoutError _) = u ''TimeoutError''"
| "exn_name (EOFError _) = u ''EOFError''"
| "exn_name (PilotConnectionError _) = u ''PilotConnectionError''"
| "exn_name (PilotConnectionErrorWrapper _) = u ''PilotConnectionErrorWrapper''"
| "exn_name (PilotRemote c _ _ _) = class_name c"
| "exn_name (UserExn n _) = n"

definition exn_str :: "env \<Rightarrow> exn \<Rightarrow> pystr" where
  "exn_str env e =
     (case e of
        TypeError s \<Rightarrow> s | ValueError s \<Rightarrow> s | RuntimeError s \<Rightarrow> s | TimeoutError s \<Rightarrow> s | EOFError s \<Rightarrow> s
      | PilotConnectionError s \<Rightarrow> s | PilotConnectionErrorWrapper s \<Rightarrow> s | UserExn _ s \<Rightarrow> s | _ \<Rightarrow> e_other_str env e)"

text \<open>\<^verbatim>\<open>f"{node}"\<close> for the hashable JSON values.\<close>

definition str_json :: "env \<Rightarrow> json \<Rightarrow> pystr" where
  "str_json env v =
     (case v of
        JNull \<Rightarrow> u ''None'' | JBool b \<Rightarrow> if b then u ''True'' else u ''False'' | JInt n \<Rightarrow> str_int n
      | JFloat l \<Rightarrow> e_float_repr env l | JStr s \<Rightarrow> s | _ \<Rightarrow> [])"

section \<open>Introspection\<close>

definition health :: "server \<Rightarrow> env \<Rightarrow> json" where
  "health srv env =
     JObj [(u ''ok'', JBool True),
       (u ''version'', JStr (e_version env)),
       (u ''uptime_secs'', JFloat (e_repr env
          (py_round_to 1 (case started_at srv of
             None \<Rightarrow> 0 | Some t \<Rightarrow> if t = 0 then 0 else e_monotonic env - t)))),
       (u ''in_flight'', JInt (int (e_in_flight env))),
       (u ''total_calls'', JInt (int (total_calls srv))),
       (u ''total_errors'', JInt (int (total_errors srv))),
       (u ''n_handlers'', JInt (int (length (handlers srv))))]"

definition schema_of :: "pmodel option \<Rightarrow> json" where
  "schema_of m = (case m of None \<Rightarrow> JNull | Some x \<Rightarrow> model_schema x)"

definition describe :: "env \<Rightarrow> pystr \<Rightarrow> registration \<Rightarrow> json" where
  "describe env name reg =
     JObj [(u ''name'', JStr name),
       (u ''allow'', case allow reg of None \<Rightarrow> JNull | Some s \<Rightarrow> JArr (map JInt (sorted_list_of_set s))),
       (u ''calls'', JInt (int (calls (reg_stats reg)))),
       (u ''errors'', JInt (int (errors (reg_stats reg)))),
       (u ''p50_ms'', JFloat (e_repr env (percentile (reg_stats reg) (1 / 2)))),
       (u ''p95_ms'', JFloat (e_repr env (percentile (reg_stats reg) (19 / 20)))),
       (u ''timeout_secs'', case timeout_secs reg of None \<Rightarrow> JNull | Some t \<Rightarrow> JFloat (e_repr env t)),
       (u ''max_concurrent'', case max_concurrent reg of None \<Rightarrow> JNull | Some m \<Rightarrow> JInt m),
       (u ''input_schema'', schema_of (input_model reg)),
       (u ''output_schema'', schema_of (output_model reg))]"

definition handlers_introspect :: "server \<Rightarrow> env \<Rightarrow> json" where
  "handlers_introspect srv env =
     JObj [(u ''handlers'',
       JArr (map (\<lambda>(name, r). describe env name (regs srv ! r)) (sort_key fst (handlers srv))))]"

section \<open>One call\<close>

definition call_fn :: "server \<Rightarrow> env \<Rightarrow> handler_fn \<Rightarrow> json \<Rightarrow> Context option \<Rightarrow> hval result" where
  "call_fn srv env f p c =
     (case f of
        UserFn uf \<Rightarrow> fn_call uf p c
      | HealthFn \<Rightarrow> Inr (VJson (health srv env))
      | HandlersFn \<Rightarrow> Inr (VJson (handlers_introspect srv env)))"

text \<open>\<^verbatim>\<open>_invoke_handler\<close>: input validation, the call, output validation.\<close>

definition validate :: "env \<Rightarrow> pystr \<Rightarrow> pmodel option \<Rightarrow> hval \<Rightarrow> hval result" where
  "validate env what m v =
     (case m of
        None \<Rightarrow> Inr v
      | Some x \<Rightarrow>
          (case model_validate x v of
             Inr w \<Rightarrow> Inr (VJson w)
           | Inl e \<Rightarrow> if is_Exception e then Inl (ValueError (what @ u '' validation: '' @ exn_str env e)) else Inl e))"

definition as_json :: "hval \<Rightarrow> json" where
  "as_json v = (case v of VJson j \<Rightarrow> j | VOpaque s \<Rightarrow> JStr s | VGen _ _ \<Rightarrow> JNull)"

definition invoke_handler :: "server \<Rightarrow> env \<Rightarrow> registration \<Rightarrow> json \<Rightarrow> Context \<Rightarrow> hval result" where
  "invoke_handler srv env reg p c =
     rbind (validate env (u ''input'') (input_model reg) (VJson p)) (\<lambda>hp.
     rbind (call_fn srv env (fn reg) (as_json hp) (if wants_ctx reg then Some c else None)) (\<lambda>result.
       if is_asyncgen (fn reg) then Inr result
       else validate env (u ''output'') (output_model reg) result))"

text \<open>
  \<^verbatim>\<open>_through_middleware\<close>: the closure variable \<^verbatim>\<open>idx\<close> is the number of middlewares already
  entered, so the state is the list of those that are left. A middleware that is not a coroutine
  function gets a coroutine object from \<^verbatim>\<open>next_fn\<close> and nothing runs. The fuel is the number of
  middlewares; \<open>next_fuel\<close> shows that it is never exhausted.
\<close>

type_synonym 'm nextfn = "'m list \<Rightarrow> json \<Rightarrow> Context \<Rightarrow> hval result \<times> 'm list"

primrec run_async :: "'m nextfn \<Rightarrow> mwprog \<Rightarrow> 'm list \<Rightarrow> hval result \<times> 'm list" where
  "run_async nx (MRet v) rest = (Inr v, rest)"
| "run_async nx (MRaise e) rest = (Inl e, rest)"
| "run_async nx (MNext p c k) rest = (let (r, rest') = nx rest p c in run_async nx (k r) rest')"

primrec run_sync :: "pystr \<Rightarrow> mwprog \<Rightarrow> hval result" where
  "run_sync co (MRet v) = Inr v"
| "run_sync co (MRaise e) = Inl e"
| "run_sync co (MNext p c k) = run_sync co (k (Inr (VOpaque co)))"

fun next_mw :: "(json \<Rightarrow> Context \<Rightarrow> hval result) \<Rightarrow> pystr \<Rightarrow> nat \<Rightarrow> middleware nextfn" where
  "next_mw h co fuel [] p c = (h p c, [])"
| "next_mw h co 0 (mw # rest) p c = (h p c, mw # rest)"
| "next_mw h co (Suc n) (mw # rest) p c =
     (if mw_async mw then run_async (next_mw h co n) (mw_body mw p c) rest
      else (run_sync co (mw_body mw p c), rest))"

definition through_middleware ::
    "(json \<Rightarrow> Context \<Rightarrow> hval result) \<Rightarrow> pystr \<Rightarrow> middleware list \<Rightarrow> json \<Rightarrow> Context \<Rightarrow> hval result" where
  "through_middleware h co mws p c = fst (next_mw h co (length mws) mws p c)"

text \<open>The frames sent so far and the number of sends tried.\<close>

record wire =
  sent :: "json list"
  tries :: nat

definition send_chunk :: "env \<Rightarrow> wire \<Rightarrow> json \<Rightarrow> wire \<times> exn option" where
  "send_chunk env w frame =
     (case e_write env (tries w) of
        WOk \<Rightarrow> (\<lparr>sent = sent w @ [frame], tries = tries w + 1\<rparr>, None)
      | WFail e \<Rightarrow> (w\<lparr>tries := tries w + 1\<rparr>, Some e)
      | WLate e \<Rightarrow> (\<lparr>sent = sent w @ [frame], tries = tries w + 1\<rparr>, Some e))"

definition ok_frame :: "json \<Rightarrow> bool \<Rightarrow> json" where
  "ok_frame result fin = JObj [(u ''ok'', JBool True), (u ''result'', result), (u ''done'', JBool fin)]"

definition error_frame :: "pystr \<Rightarrow> pystr \<Rightarrow> json" where
  "error_frame typ msg =
     JObj [(u ''ok'', JBool False), (u ''error_type'', JStr typ), (u ''error'', JStr msg), (u ''done'', JBool True)]"

text \<open>
  The streaming loop. The timer of \<^verbatim>\<open>wait_for\<close>, when there is one, fires while the item number
  \<open>timer\<close> is awaited, the end of the stream counting as an item.
\<close>

fun pump :: "env \<Rightarrow> nat option \<Rightarrow> wire \<Rightarrow> nat \<Rightarrow> json list \<Rightarrow> exn option \<Rightarrow> wire \<times> exn option" where
  "pump env timer w i items fin =
     (if timer = Some i then (w, Some (TimeoutError []))
      else (case items of
              [] \<Rightarrow> (case fin of Some e \<Rightarrow> (w, Some e) | None \<Rightarrow> send_chunk env w (ok_frame JNull True))
            | x # xs \<Rightarrow>
                (case send_chunk env w (ok_frame x False) of
                   (w', Some e) \<Rightarrow> (w', Some e)
                 | (w', None) \<Rightarrow> pump env timer w' (Suc i) xs fin)))"

declare pump.simps [simp del]

definition not_async_iterable :: exn where
  "not_async_iterable = TypeError (u ''async for requires an object with __aiter__ method'')"

definition drive ::
    "server \<Rightarrow> env \<Rightarrow> registration \<Rightarrow> middleware list \<Rightarrow> json \<Rightarrow> Context \<Rightarrow> wire \<Rightarrow> wire \<times> exn option" where
  "drive srv env reg mws payload c w =
     (let timer = (if timeout_secs reg = None then None else e_cut env) in
      if is_asyncgen (fn reg) \<and> mws = [] then
        (case call_fn srv env (fn reg) payload (if wants_ctx reg then Some c else None) of
           Inl e \<Rightarrow> (w, Some e)
         | Inr (VGen items fin) \<Rightarrow> pump env timer w 0 items fin
         | Inr _ \<Rightarrow> (w, Some not_async_iterable))
      else if timer = Some 0 then (w, Some (TimeoutError []))
      else (case through_middleware (invoke_handler srv env reg) (e_coroutine_str env) mws payload c of
              Inl e \<Rightarrow> (w, Some e)
            | Inr (VGen items fin) \<Rightarrow> pump env timer w 0 items fin
            | Inr v \<Rightarrow> send_chunk env w (ok_frame (as_json v) True)))"

text \<open>Reading the request: one entry per \<^verbatim>\<open>stream.read(timeout=30.0)\<close>; \<^verbatim>\<open>b""\<close> is end of file.\<close>

fun read_request :: "bytes result list \<Rightarrow> bytes \<Rightarrow> (json \<times> bytes) option result" where
  "read_request [] buf = Inl (TimeoutError [])"
| "read_request (r # rs) buf =
     (case r of
        Inl e \<Rightarrow> Inl e
      | Inr chunk \<Rightarrow>
          if chunk = [] then Inr None
          else (case json_loads (buf @ chunk) of
                  Inr req \<Rightarrow> Inr (Some (req, buf @ chunk))
                | Inl e \<Rightarrow> if e = JSONDecodeError then read_request rs (buf @ chunk) else Inl e))"

text \<open>
  From the lookup of the handler to the acquisition of the semaphore: no suspension point lies in
  between, except for the sending of a rejection.
\<close>

datatype admission = Crash exn | Reject json | Admit nat

definition bq :: "pystr \<Rightarrow> pystr" where "bq s = [96] @ s @ [96]"

definition admit_reg :: "server \<Rightarrow> env \<Rightarrow> pystr \<Rightarrow> int \<Rightarrow> nat \<Rightarrow> server \<times> admission" where
  "admit_reg srv env name caller r =
     (let reg = regs srv ! r in
      if \<not> authorized reg caller then
        (srv, Reject (error_frame (u ''unauthorized'')
           (u ''unauthorized: caller node_id '' @ str_int caller @ u '' not allowed to invoke '' @ bq name)))
      else (let (reg1, allowed) =
                  (case reg_limiter reg of
                     None \<Rightarrow> (reg, True)
                   | Some rl \<Rightarrow>
                       (let (rl', ok) = consume rl caller (e_monotonic env)
                        in (reg\<lparr>reg_limiter := Some rl'\<rparr>, ok)))
            in if \<not> allowed then
                 (srv\<lparr>regs := (regs srv)[r := reg1]\<rparr>,
                  (case reg_limiter reg of
                     None \<Rightarrow> Crash AttributeError
                   | Some rl \<Rightarrow> Reject (error_frame (u ''rate_limited'')
                       (u ''rate limit: '' @ str_int (rl_limit rl) @ u ''/'' @ e_fmt_g env (rl_window_secs rl) @
                        u ''s for handler '' @ bq name @ u '' per caller''))))
               else (case semaphore reg1 of
                       Inl e \<Rightarrow> (srv\<lparr>regs := (regs srv)[r := reg1]\<rparr>, Crash e)
                     | Inr (reg2, None) \<Rightarrow> (srv\<lparr>regs := (regs srv)[r := reg2]\<rparr>, Admit r)
                     | Inr (reg2, Some v) \<Rightarrow>
                         if v = 0 then
                           (srv\<lparr>regs := (regs srv)[r := reg2]\<rparr>,
                            Reject (error_frame (u ''rate_limited'')
                              (u ''concurrency limit: '' @
                               str_int (case max_concurrent reg of None \<Rightarrow> 0 | Some m \<Rightarrow> m) @
                               u '' simultaneous invocations of '' @ bq name @ u '' already in flight'')))
                         else (srv\<lparr>regs := (regs srv)[r := reg2\<lparr>sem_value := Some (v - 1)\<rparr>]\<rparr>, Admit r))))"

definition admit :: "server \<Rightarrow> env \<Rightarrow> json \<Rightarrow> int \<Rightarrow> server \<times> admission" where
  "admit srv env node caller =
     (let not_found = (srv, Reject (error_frame (u ''handler_not_found'') (u ''no handler for '' @ bq (str_json env node))))
      in case node of
           JArr _ \<Rightarrow> (srv, Crash (TypeError (u ''unhashable type: list'')))
         | JObj _ \<Rightarrow> (srv, Crash (TypeError (u ''unhashable type: dict'')))
         | JStr name \<Rightarrow>
             (case dict_get (handlers srv) name of
                None \<Rightarrow> not_found
              | Some r \<Rightarrow> admit_reg srv env name caller r)
         | _ \<Rightarrow> not_found)"

text \<open>Leaving the \<^verbatim>\<open>async with sem\<close> block, and the counters.\<close>

definition release :: "server \<Rightarrow> nat \<Rightarrow> server" where
  "release srv r =
     (let reg = regs srv ! r
      in srv\<lparr>regs := (regs srv)[r := reg\<lparr>sem_value := map_option (\<lambda>v. v + 1) (sem_value reg)\<rparr>]\<rparr>)"

definition count_call :: "server \<Rightarrow> nat \<Rightarrow> bool \<Rightarrow> rat \<Rightarrow> server" where
  "count_call srv r failed lat =
     (let reg = regs srv ! r
      in srv\<lparr>regs := (regs srv)[r := reg\<lparr>reg_stats := record_call (reg_stats reg) failed lat\<rparr>],
             total_calls := total_calls srv + 1,
             total_errors := total_errors srv + (if failed then 1 else 0)\<rparr>)"

text \<open>From the start of the handler to the last frame: the state, what was sent, what escapes.\<close>

definition run_call ::
    "server \<Rightarrow> env \<Rightarrow> nat \<Rightarrow> pystr \<Rightarrow> json \<Rightarrow> Context \<Rightarrow> server \<times> json list \<times> exn option" where
  "run_call srv env r name payload c =
     (let reg = regs srv ! r;
          mws = (if starts_with_cp UNDERSCORE name then [] else middlewares srv);
          (w, x) = drive srv env reg mws payload c \<lparr>sent = [], tries = 0\<rparr>;
          srv1 = release srv r;
          lat = (e_t_end env - e_t_start env) * 1000
      in case x of
           None \<Rightarrow> (count_call srv1 r False lat, sent w, None)
         | Some e \<Rightarrow>
             if \<not> is_Exception e then (srv1, sent w, Some e)
             else (let msg = (case e of
                        TimeoutError _ \<Rightarrow>
                          u ''timeout after '' @
                          (case timeout_secs reg of None \<Rightarrow> u ''None'' | Some t \<Rightarrow> e_repr env t) @ u ''s''
                      | _ \<Rightarrow> exn_name e @ u '': '' @ exn_str env e);
                       (w', y) = send_chunk env w (error_frame (u ''handler_error'') msg)
                   in (count_call srv1 r True lat, sent w', y)))"

definition handle_one ::
    "server \<Rightarrow> env \<Rightarrow> (addr \<times> int) option \<Rightarrow> bytes result list \<Rightarrow> server \<times> json list \<times> exn option" where
  "handle_one srv env peer reads =
     (let caller = (case peer of None \<Rightarrow> 0 | Some (a, _) \<Rightarrow> addr_node a) in
      case read_request reads [] of
        Inl e \<Rightarrow> (srv, [], Some e)
      | Inr None \<Rightarrow> (srv, [], None)
      | Inr (Some (req, buf)) \<Rightarrow>
          (case rbind (jget req (u ''node'')) (\<lambda>node. rmap (\<lambda>payload. (node, payload)) (jget req (u ''payload''))) of
             Inl e \<Rightarrow> (srv, [], Some e)
           | Inr (node, payload) \<Rightarrow>
               (case admit srv env node caller of
                  (srv1, Crash e) \<Rightarrow> (srv1, [], Some e)
                | (srv1, Reject f) \<Rightarrow>
                    (let (w, y) = send_chunk env \<lparr>sent = [], tries = 0\<rparr> f in (srv1, sent w, y))
                | (srv1, Admit r) \<Rightarrow>
                    run_call srv1 env r (str_json env node) payload
                      \<lparr>caller_node_id = caller,
                       caller_addr = (case peer of None \<Rightarrow> \<lparr>addr_network = 0, addr_node = 0\<rparr> | Some (a, _) \<Rightarrow> a),
                       caller_port = (case peer of None \<Rightarrow> 0 | Some (_, p) \<Rightarrow> p),
                       request_id = e_request_id env, ctx_started_at = e_t_start env,
                       handler_name = str_json env node\<rparr>)))"

end
