(* ===== verification/Server_Props.thy ===== *)
theory Server_Props
  imports Server "HOL-Library.Multiset"
begin

text \<open>
  Correctness of the worker: the middleware chain (and that its fuel suffices), the frames of a
  reply, admission (access list, rate limit, concurrency limit), and the invariant of the worker's
  state over every interleaving of calls in flight and changes of the handler table.
\<close>


section \<open>The middleware chain\<close>

lemma run_async_cong:
  assumes "length rest \<le> L"
    and "\<And>r p c. length r \<le> L \<Longrightarrow> nx r p c = nx' r p c \<and> length (snd (nx' r p c)) \<le> length r"
  shows "run_async nx prog rest = run_async nx' prog rest \<and> length (snd (run_async nx' prog rest)) \<le> length rest"
  using assms(1)
proof (induction prog arbitrary: rest)
  case (MNext p c k)
  obtain r rest' where n: "nx' rest p c = (r, rest')" by (cases "nx' rest p c")
  with assms(2) [OF MNext.prems, of p c] have l: "nx rest p c = (r, rest')" "length rest' \<le> length rest" by auto
  from MNext.IH [OF rangeI, of rest' r] MNext.prems l n show ?case by auto
qed simp_all

text \<open>The fuel is enough: more of it changes nothing.\<close>

lemma next_fuel:
  "length rest \<le> L \<Longrightarrow> L \<le> n \<Longrightarrow> L \<le> m \<Longrightarrow>
    next_mw h co n rest p c = next_mw h co m rest p c \<and> length (snd (next_mw h co m rest p c)) \<le> length rest"
proof (induction L arbitrary: rest n m p c)
  case (Suc L)
  obtain n' m' where nm: "n = Suc n'" "m = Suc m'" "L \<le> n'" "L \<le> m'" using Suc.prems by (cases n; cases m) auto
  show ?case
  proof (cases rest)
    case (Cons mw r)
    then have r: "length r \<le> L" using Suc.prems by simp
    have "next_mw h co n' r' p' c' = next_mw h co m' r' p' c' \<and>
        length (snd (next_mw h co m' r' p' c')) \<le> length r'" if "length r' \<le> L" for r' p' c'
      using Suc.IH [OF that nm(3,4)] by blast
    from run_async_cong [OF r this, of "\<lambda>_ p _. p" "\<lambda>_ _ c. c" "mw_body mw p c"] show ?thesis
      by (auto simp: Cons nm)
  qed simp
qed simp

text \<open>A middleware that awaits \<^verbatim>\<open>next_fn\<close> exactly once, and what wrapping it around a handler means.\<close>

fun single_next :: "mwprog \<Rightarrow> bool" where
  "single_next (MNext p c k) = (\<forall>r. (\<exists>v. k r = MRet v) \<or> (\<exists>e. k r = MRaise e))"
| "single_next _ = False"

primrec answer :: "(json \<Rightarrow> Context \<Rightarrow> hval result) \<Rightarrow> mwprog \<Rightarrow> hval result" where
  "answer h (MRet v) = Inr v"
| "answer h (MRaise e) = Inl e"
| "answer h (MNext p c k) = answer h (k (h p c))"

definition wrap :: "middleware \<Rightarrow> (json \<Rightarrow> Context \<Rightarrow> hval result) \<Rightarrow> json \<Rightarrow> Context \<Rightarrow> hval result" where
  "wrap mw h p c = answer h (mw_body mw p c)"

lemma next_mw_wrap:
  assumes "\<forall>mw \<in> set mws. mw_async mw \<and> (\<forall>p c. single_next (mw_body mw p c))"
  shows "fst (next_mw h co (length mws) mws p c) = foldr wrap mws h p c"
  using assms
proof (induction mws arbitrary: p c)
  case (Cons mw mws)
  obtain p' c' k where b: "mw_body mw p c = MNext p' c' k"
    and k: "\<And>r. (\<exists>v. k r = MRet v) \<or> (\<exists>e. k r = MRaise e)"
    using Cons.prems by (cases "mw_body mw p c") (auto dest!: bspec [of _ _ mw] dest: spec2 [of _ p c])
  obtain r rest where n: "next_mw h co (length mws) mws p' c' = (r, rest)" by (cases "next_mw h co (length mws) mws p' c'")
  then have "r = foldr wrap mws h p' c'" using Cons.IH [of p' c'] Cons.prems by simp
  then show ?case using Cons.prems k [of r] n b by (auto simp: wrap_def [of mw])
qed simp

section \<open>Sending\<close>

definition progress :: "json \<Rightarrow> json" where "progress x = ok_frame x False"

definition is_final :: "json \<Rightarrow> bool" where
  "is_final f \<longleftrightarrow> (\<exists>v. f = ok_frame v True) \<or> (\<exists>t m. f = error_frame t m)"

definition writes_ok :: "env \<Rightarrow> bool" where
  "writes_ok env \<longleftrightarrow> (\<forall>n. e_write env n = WOk)"

lemma send_chunk_ok: "writes_ok env \<Longrightarrow> send_chunk env w f = (\<lparr>sent = sent w @ [f], tries = tries w + 1\<rparr>, None)"
  by (simp add: send_chunk_def writes_ok_def)

lemma pump_sent:
  "writes_ok env \<Longrightarrow> \<exists>ys. (\<exists>f. is_final f \<and> pump env timer w i items fin = (\<lparr>sent = sent w @ map progress ys @ [f], tries = tries w + length ys + 1\<rparr>, None)) \<or>
     (\<exists>e. pump env timer w i items fin = (\<lparr>sent = sent w @ map progress ys, tries = tries w + length ys\<rparr>, Some e))"
proof (induction items arbitrary: w i)
  case Nil
  then show ?case
    by (auto simp: pump.simps [of env timer w i] send_chunk_ok is_final_def intro!: exI [of _ "[]"] split: option.splits)
next
  case (Cons x xs)
  show ?case
  proof (cases "timer = Some i")
    case True
    then show ?thesis by (auto simp: pump.simps [of env "Some i" w i] intro!: exI [of _ "[]"])
  next
    case False
    let ?w = "\<lparr>sent = sent w @ [progress x], tries = tries w + 1\<rparr>"
    have p: "pump env timer w i (x # xs) fin = pump env timer ?w (Suc i) xs fin"
      using False Cons.prems by (simp add: pump.simps [of env timer w i] send_chunk_ok progress_def)
    from Cons.IH [OF Cons.prems, of ?w "Suc i"] obtain ys where
      "(\<exists>f. is_final f \<and> pump env timer ?w (Suc i) xs fin = (\<lparr>sent = sent ?w @ map progress ys @ [f], tries = tries ?w + length ys + 1\<rparr>, None)) \<or>
       (\<exists>e. pump env timer ?w (Suc i) xs fin = (\<lparr>sent = sent ?w @ map progress ys, tries = tries ?w + length ys\<rparr>, Some e))" ..
    then show ?thesis unfolding p by (intro exI [of _ "x # ys"]) auto
  qed
qed

text \<open>Without a timer every item is sent.\<close>

lemma pump_all_items:
  "writes_ok env \<Longrightarrow> pump env None w i items fin =
     (case fin of
        None \<Rightarrow> (\<lparr>sent = sent w @ map progress items @ [ok_frame JNull True], tries = tries w + length items + 1\<rparr>, None)
      | Some e \<Rightarrow> (\<lparr>sent = sent w @ map progress items, tries = tries w + length items\<rparr>, Some e))"
proof (induction items arbitrary: w i)
  case Nil
  then show ?case by (simp add: pump.simps [of env None w i] send_chunk_ok split: option.split)
next
  case (Cons x xs)
  then show ?case
    by (simp add: pump.simps [of env None w i] send_chunk_ok Cons.IH progress_def split: option.split)
qed

lemma drive_sent:
  assumes "writes_ok env"
  shows "\<exists>ys w. (\<exists>f. is_final f \<and> drive srv env reg mws payload c \<lparr>sent = [], tries = 0\<rparr> = (w, None) \<and> sent w = map progress ys @ [f]) \<or>
     (\<exists>e. drive srv env reg mws payload c \<lparr>sent = [], tries = 0\<rparr> = (w, Some e) \<and> sent w = map progress ys)"
proof -
  let ?timer = "if timeout_secs reg = None then None else e_cut env"
  have p: "\<exists>ys w. (\<exists>f. is_final f \<and> pump env ?timer \<lparr>sent = [], tries = 0\<rparr> 0 items fin = (w, None) \<and> sent w = map progress ys @ [f]) \<or>
     (\<exists>e. pump env ?timer \<lparr>sent = [], tries = 0\<rparr> 0 items fin = (w, Some e) \<and> sent w = map progress ys)" for items fin
    using pump_sent [OF assms, of ?timer "\<lparr>sent = [], tries = 0\<rparr>" 0 items fin] by fastforce
  have stop: "\<exists>ys w. (\<exists>f. is_final f \<and> (\<lparr>sent = [], tries = 0\<rparr>, Some e) = (w, None) \<and> sent w = map progress ys @ [f]) \<or>
     (\<exists>e'. (\<lparr>sent = [], tries = 0\<rparr>, Some e) = (w, Some e') \<and> sent w = map progress ys)" for e :: exn
    by (rule exI [of _ "[]"]) auto
  have one: "\<exists>ys w. (\<exists>f. is_final f \<and> send_chunk env \<lparr>sent = [], tries = 0\<rparr> (ok_frame v True) = (w, None) \<and> sent w = map progress ys @ [f]) \<or>
     (\<exists>e'. send_chunk env \<lparr>sent = [], tries = 0\<rparr> (ok_frame v True) = (w, Some e') \<and> sent w = map progress ys)" for v
    by (rule exI [of _ "[]"]) (auto simp: send_chunk_ok [OF assms] is_final_def)
  show ?thesis
    unfolding drive_def Let_def using p stop one by (auto split: sum.splits hval.splits if_splits)
qed

lemma run_call_sent:
  assumes "writes_ok env" "run_call srv env r name payload c = (srv', frames, x)"
  shows "x = None \<and> (\<exists>ys f. is_final f \<and> frames = map progress ys @ [f]) \<or> x = Some CancelledError"
proof -
  let ?mws = "if starts_with_cp UNDERSCORE name then [] else middlewares srv"
  let ?d = "drive srv env (regs srv ! r) ?mws payload c \<lparr>sent = [], tries = 0\<rparr>"
  obtain ys w where d: "(\<exists>f. is_final f \<and> ?d = (w, None) \<and> sent w = map progress ys @ [f]) \<or>
      (\<exists>e. ?d = (w, Some e) \<and> sent w = map progress ys)"
    using drive_sent [OF assms(1)] by blast
  have fin: "is_final (error_frame t m)" for t m by (auto simp: is_final_def)
  show ?thesis
    using d
  proof
    assume "\<exists>f. is_final f \<and> ?d = (w, None) \<and> sent w = map progress ys @ [f]"
    then obtain f where "is_final f" "?d = (w, None)" "sent w = map progress ys @ [f]" by blast
    moreover from this assms(2) have "x = None" "frames = sent w" by (simp_all add: run_call_def Let_def)
    ultimately show ?thesis by auto
  next
    assume "\<exists>e. ?d = (w, Some e) \<and> sent w = map progress ys"
    then obtain e where e: "?d = (w, Some e)" "sent w = map progress ys" by blast
    show ?thesis
    proof (cases "e = CancelledError")
      case True
      with e assms(2) show ?thesis by (simp add: run_call_def Let_def is_Exception_def)
    next
      case False
      with e assms(2) fin show ?thesis
        by (simp add: run_call_def Let_def is_Exception_def send_chunk_ok [OF assms(1)]) blast
    qed
  qed
qed

lemma admit_reject_final: "admit srv env node caller = (srv', Reject f) \<Longrightarrow> is_final f"
  by (auto simp: admit_def admit_reg_def Let_def is_final_def split: json.splits option.splits if_splits sum.splits prod.splits)

definition semaphore_ok :: "registration \<Rightarrow> bool" where
  "semaphore_ok reg \<longleftrightarrow> (case max_concurrent reg of None \<Rightarrow> True | Some m \<Rightarrow> 0 \<le> m)"

lemma semaphore_total: "semaphore_ok reg \<Longrightarrow> \<exists>x. semaphore reg = Inr x"
  by (auto simp: semaphore_def semaphore_ok_def split: option.splits)

lemma admit_no_crash:
  assumes "\<And>r. dict_get (handlers srv) name = Some r \<Longrightarrow> semaphore_ok (regs srv ! r)"
  shows "snd (admit srv env (JStr name) caller) \<noteq> Crash e"
proof (cases "dict_get (handlers srv) name")
  case (Some r)
  let ?reg1 = "case reg_limiter (regs srv ! r) of None \<Rightarrow> regs srv ! r
      | Some rl \<Rightarrow> (regs srv ! r)\<lparr>reg_limiter := Some (fst (consume rl caller (e_monotonic env)))\<rparr>"
  have "semaphore_ok ?reg1" using assms [OF Some] by (auto simp: semaphore_ok_def split: option.splits)
  from semaphore_total [OF this] obtain x where "semaphore ?reg1 = Inr x" ..
  with Some show ?thesis
    by (cases "reg_limiter (regs srv ! r)"; cases "snd x")
      (auto simp: admit_def admit_reg_def Let_def split: prod.splits if_splits)
qed (simp add: admit_def Let_def)

section \<open>Calls in flight\<close>

text \<open>
  The worker while calls run: the state and the registrations of the calls in flight. Between the
  admission and the end of a call any other operation may happen.
\<close>

inductive worker_step :: "server \<times> nat multiset \<Rightarrow> server \<times> nat multiset \<Rightarrow> bool" where
  admitted: "admit srv env node caller = (srv', Admit r) \<Longrightarrow> worker_step (srv, M) (srv', add_mset r M)"
| rejected: "admit srv env node caller = (srv', Reject f) \<Longrightarrow> worker_step (srv, M) (srv', M)"
| crashed: "admit srv env node caller = (srv', Crash e) \<Longrightarrow> worker_step (srv, M) (srv', M)"
| finished: "r \<in># M \<Longrightarrow> worker_step (srv, M) (count_call (release srv r) r failed lat, M - {#r#})"
| cancelled: "r \<in># M \<Longrightarrow> worker_step (srv, M) (release srv r, M - {#r#})"
| registered: "worker_step (srv, M) (register srv name f opts, M)"
| cleared: "worker_step (srv, M) (clear_user_handlers srv, M)"
| authorized: "authorize srv name al = Inr srv' \<Longrightarrow> worker_step (srv, M) (srv', M)"
| using_mw: "worker_step (srv, M) (use srv mw, M)"
| stopped: "worker_step (srv, M) (request_stop srv, M)"

inductive worker_reachable :: "server \<times> nat multiset \<Rightarrow> bool" where
  start: "worker_reachable (server_new mws, {#})"
| step: "worker_reachable s \<Longrightarrow> worker_step s t \<Longrightarrow> worker_reachable t"

text \<open>The free slots and the running calls of a registration add up to its limit.\<close>

definition slots_ok :: "registration \<Rightarrow> nat \<Rightarrow> bool" where
  "slots_ok reg n \<longleftrightarrow>
     (case max_concurrent reg of
        None \<Rightarrow> sem_value reg = None
      | Some m \<Rightarrow> (case sem_value reg of None \<Rightarrow> n = 0 | Some v \<Rightarrow> 0 \<le> v \<and> v + int n = m))"

definition stats_ok :: "stats \<Rightarrow> bool" where
  "stats_ok s \<longleftrightarrow> errors s \<le> calls s \<and> length (latencies_ms s) \<le> MAX_LATENCIES \<and>
     length (latencies_ms s) \<le> calls s"

definition worker_inv :: "server \<times> nat multiset \<Rightarrow> bool" where
  "worker_inv s \<longleftrightarrow>
     (case s of (srv, M) \<Rightarrow>
       (\<forall>name r. dict_get (handlers srv) name = Some r \<longrightarrow> r < length (regs srv)) \<and>
       (\<forall>r. r \<in># M \<longrightarrow> r < length (regs srv)) \<and>
       (\<forall>r < length (regs srv). slots_ok (regs srv ! r) (count M r) \<and> stats_ok (reg_stats (regs srv ! r))) \<and>
       total_calls srv = sum_list (map (calls \<circ> reg_stats) (regs srv)) \<and>
       total_errors srv = sum_list (map (errors \<circ> reg_stats) (regs srv)))"

lemma sum_list_update:
  "i < length xs \<Longrightarrow> sum_list (map f (xs[i := x])) + f (xs ! i) = sum_list (map f xs) + (f x :: nat)"
proof (induction xs arbitrary: i)
  case (Cons a xs)
  show ?case
  proof (cases i)
    case (Suc j)
    then show ?thesis using Cons.IH [of j] Cons.prems by simp
  qed simp
qed simp

text \<open>One registration is replaced: what has to be shown.\<close>

lemma worker_inv_update:
  assumes inv: "worker_inv (srv, M)" and r: "r < length (regs srv)"
    and s: "slots_ok reg (count M' r)" "stats_ok (reg_stats reg)"
    and M: "\<And>x. x \<noteq> r \<Longrightarrow> count M' x = count M x"
    and c: "total_calls srv' + calls (reg_stats (regs srv ! r)) = total_calls srv + calls (reg_stats reg)"
      "total_errors srv' + errors (reg_stats (regs srv ! r)) = total_errors srv + errors (reg_stats reg)"
    and h: "handlers srv' = handlers srv" "regs srv' = (regs srv)[r := reg]"
  shows "worker_inv (srv', M')"
proof -
  have m: "x < length (regs srv)" if "x \<in># M'" for x
  proof (cases "x = r")
    case False
    then have "count M x = count M' x" using M by simp
    with that have "x \<in># M" by (metis count_greater_zero_iff)
    then show ?thesis using inv by (simp add: worker_inv_def)
  qed (use r in simp)
  have u: "slots_ok (regs srv' ! x) (count M' x) \<and> stats_ok (reg_stats (regs srv' ! x))" if "x < length (regs srv)" for x
    using inv s M [of x] that by (cases "x = r") (auto simp: worker_inv_def h(2))
  have "sum_list (map (calls \<circ> reg_stats) (regs srv')) + calls (reg_stats (regs srv ! r)) =
      sum_list (map (calls \<circ> reg_stats) (regs srv)) + calls (reg_stats reg)"
    "sum_list (map (errors \<circ> reg_stats) (regs srv')) + errors (reg_stats (regs srv ! r)) =
      sum_list (map (errors \<circ> reg_stats) (regs srv)) + errors (reg_stats reg)"
    using sum_list_update [OF r, of "calls \<circ> reg_stats" reg] sum_list_update [OF r, of "errors \<circ> reg_stats" reg]
    by (simp_all add: h(2))
  then show ?thesis using inv m u c by (auto simp: worker_inv_def h)
qed

definition admitted_count :: "admission \<Rightarrow> nat \<Rightarrow> nat" where
  "admitted_count a n = (case a of Admit _ \<Rightarrow> Suc n | _ \<Rightarrow> n)"

text \<open>
  What an admission may change: one registration, in its limiter and its semaphore, and the
  semaphore keeps its account.
\<close>

lemma semaphore_slots:
  assumes "semaphore reg = Inr (reg', v)" "slots_ok reg n"
  shows "reg_stats reg' = reg_stats reg" "slots_ok reg' n" "v = sem_value reg'"
    "\<And>k. v = Some k \<Longrightarrow> k \<noteq> 0 \<Longrightarrow> slots_ok (reg'\<lparr>sem_value := Some (k - 1)\<rparr>) (Suc n)"
    "v = None \<Longrightarrow> slots_ok reg' m"
  using assms by (auto simp: semaphore_def slots_ok_def split: option.splits if_splits)

lemma slots_ok_limiter [simp]: "slots_ok (reg\<lparr>reg_limiter := x\<rparr>) n = slots_ok reg n"
  by (auto simp: slots_ok_def split: option.splits)

lemma slots_ok_stats [simp]: "slots_ok (reg\<lparr>reg_stats := x\<rparr>) n = slots_ok reg n"
  by (auto simp: slots_ok_def split: option.splits)

lemma slots_ok_allow [simp]: "slots_ok (reg\<lparr>allow := x\<rparr>) n = slots_ok reg n"
  by (auto simp: slots_ok_def split: option.splits)

lemma admit_reg_effect:
  assumes a: "admit_reg srv env name caller r = (srv', a)" and s: "slots_ok (regs srv ! r) n"
    and r: "r < length (regs srv)"
  shows "\<exists>reg'. srv' = srv\<lparr>regs := (regs srv)[r := reg']\<rparr> \<and> reg_stats reg' = reg_stats (regs srv ! r) \<and>
    slots_ok reg' (admitted_count a n) \<and> (\<forall>x. a = Admit x \<longrightarrow> x = r)"
proof (cases "authorized (regs srv ! r) caller")
  case False
  with a s show ?thesis
    by (intro exI [of _ "regs srv ! r"]) (auto simp: admit_reg_def admitted_count_def)
next
  case True
  define reg1 where "reg1 = (case reg_limiter (regs srv ! r) of None \<Rightarrow> regs srv ! r
      | Some rl \<Rightarrow> (regs srv ! r)\<lparr>reg_limiter := Some (fst (consume rl caller (e_monotonic env)))\<rparr>)"
  define okk where "okk = (case reg_limiter (regs srv ! r) of None \<Rightarrow> True
      | Some rl \<Rightarrow> snd (consume rl caller (e_monotonic env)))"
  have p: "(case reg_limiter (regs srv ! r) of None \<Rightarrow> (regs srv ! r, True)
      | Some rl \<Rightarrow> (let (rl', ok) = consume rl caller (e_monotonic env)
          in ((regs srv ! r)\<lparr>reg_limiter := Some rl'\<rparr>, ok))) = (reg1, okk)"
    by (auto simp: reg1_def okk_def split: option.splits prod.splits)
  have s1: "slots_ok reg1 n" "reg_stats reg1 = reg_stats (regs srv ! r)"
    using s by (auto simp: reg1_def split: option.splits)
  note A = a [unfolded admit_reg_def Let_def [of "regs srv ! r"] p]
  show ?thesis
  proof (cases okk)
    case False
    with A True s1 show ?thesis
      by (intro exI [of _ reg1]) (auto simp: admitted_count_def split: option.splits)
  next
    case ok: True
    show ?thesis
    proof (cases "semaphore reg1")
      case (Inl e)
      with A True ok s1 show ?thesis by (intro exI [of _ reg1]) (auto simp: admitted_count_def)
    next
      case (Inr x)
      obtain reg2 v where x: "x = (reg2, v)" by (cases x)
      note S = semaphore_slots [OF Inr [unfolded x] s1(1)]
      show ?thesis
      proof (cases v)
        case None
        with A True ok Inr x s1 S show ?thesis by (intro exI [of _ reg2]) (auto simp: admitted_count_def)
      next
        case (Some k)
        show ?thesis
        proof (cases "k = 0")
          case True
          with A \<open>authorized _ _\<close> ok Inr x Some s1 S show ?thesis
            by (intro exI [of _ reg2]) (auto simp: admitted_count_def)
        next
          case False
          with A \<open>authorized _ _\<close> ok Inr x Some s1 S show ?thesis
            by (intro exI [of _ "reg2\<lparr>sem_value := Some (k - 1)\<rparr>"]) (auto simp: admitted_count_def)
        qed
      qed
    qed
  qed
qed

lemma admit_cases:
  assumes "admit srv env node caller = (srv', a)"
  obtains "srv' = srv" "\<And>r. a \<noteq> Admit r"
  | name r where "dict_get (handlers srv) name = Some r" "admit_reg srv env name caller r = (srv', a)" "node = JStr name"
  using assms by (auto simp: admit_def Let_def split: json.splits option.splits)

lemma worker_inv_admit:
  assumes inv: "worker_inv (srv, M)" and a: "admit srv env node caller = (srv', a)"
  shows "worker_inv (srv', case a of Admit r \<Rightarrow> add_mset r M | _ \<Rightarrow> M)"
  using a
proof (cases rule: admit_cases)
  case 1
  with inv show ?thesis by (cases a) auto
next
  case (2 name r)
  have r: "r < length (regs srv)" and s: "slots_ok (regs srv ! r) (count M r)" "stats_ok (reg_stats (regs srv ! r))"
    using inv 2(1) by (auto simp: worker_inv_def)
  obtain reg' where e: "srv' = srv\<lparr>regs := (regs srv)[r := reg']\<rparr>" "reg_stats reg' = reg_stats (regs srv ! r)"
    "slots_ok reg' (admitted_count a (count M r))" "\<And>x. a = Admit x \<Longrightarrow> x = r"
    using admit_reg_effect [OF 2(2) s(1) r] by blast
  show ?thesis
    by (rule worker_inv_update [OF inv r, of reg'])
      (use e s in \<open>auto simp: admitted_count_def split: admission.splits\<close>)
qed

lemma release_slots: "slots_ok reg n \<Longrightarrow> 0 < n \<Longrightarrow>
    slots_ok (reg\<lparr>sem_value := map_option (\<lambda>v. v + 1) (sem_value reg)\<rparr>) (n - 1)"
  by (auto simp: slots_ok_def split: option.splits)

lemma record_call_ok: "stats_ok s \<Longrightarrow> stats_ok (record_call s b lat)"
  using ring_append_length [of MAX_LATENCIES "latencies_ms s" lat]
  by (auto simp: stats_ok_def record_call_def ring_append_def Let_def)

lemma worker_inv_release:
  assumes inv: "worker_inv (srv, M)" and r: "r \<in># M"
  shows "worker_inv (release srv r, M - {#r#})" "worker_inv (count_call (release srv r) r b lat, M - {#r#})"
proof -
  have l: "r < length (regs srv)" and s: "slots_ok (regs srv ! r) (count M r)" "stats_ok (reg_stats (regs srv ! r))"
    using inv r by (auto simp: worker_inv_def)
  let ?reg = "(regs srv ! r)\<lparr>sem_value := map_option (\<lambda>v. v + 1) (sem_value (regs srv ! r))\<rparr>"
  have s': "slots_ok ?reg (count (M - {#r#}) r)" using release_slots [OF s(1)] r by simp
  show "worker_inv (release srv r, M - {#r#})"
    by (rule worker_inv_update [OF inv l, of ?reg]) (use s s' in \<open>auto simp: release_def Let_def\<close>)
  show "worker_inv (count_call (release srv r) r b lat, M - {#r#})"
    by (rule worker_inv_update [OF inv l, of "?reg\<lparr>reg_stats := record_call (reg_stats (regs srv ! r)) b lat\<rparr>"])
      (use s s' l record_call_ok [OF s(2)] in \<open>auto simp: release_def count_call_def Let_def record_call_def\<close>)
qed

lemma new_registration_ok: "slots_ok (new_registration f opts) 0" "stats_ok (reg_stats (new_registration f opts))"
  "reg_stats (new_registration f opts) = stats_init"
  by (auto simp: new_registration_def slots_ok_def stats_ok_def stats_init_def MAX_LATENCIES_def split: option.splits)

lemma worker_inv_put:
  assumes inv: "worker_inv (srv, M)" and reg: "slots_ok reg 0" "reg_stats reg = stats_init"
  shows "worker_inv (put_handler srv name reg, M)"
proof -
  have n: "count M (length (regs srv)) = 0"
    using inv by (auto simp: worker_inv_def count_eq_zero_iff)
  have st: "stats_ok stats_init" by (simp add: stats_ok_def stats_init_def)
  show ?thesis
    using inv reg n st
    by (auto simp: worker_inv_def put_handler_def nth_append less_Suc_eq stats_init_def split: if_splits)
qed

lemma dict_get_filter_key:
  "dict_get (filter (\<lambda>(k, _). P k) d) k = (if P k then dict_get d k else None)"
  by (induction d) (auto simp: dict_get_def)

lemma dict_get_clear:
  "dict_get (handlers (clear_user_handlers srv)) k =
     (if starts_with_cp UNDERSCORE k then dict_get (handlers srv) k else None)"
  by (simp add: clear_user_handlers_def dict_get_filter_key)

lemma worker_inv_handlers:
  assumes "worker_inv (srv, M)" "regs srv' = regs srv" "total_calls srv' = total_calls srv"
    "total_errors srv' = total_errors srv"
    "\<And>k r. dict_get (handlers srv') k = Some r \<Longrightarrow> dict_get (handlers srv) k = Some r"
  shows "worker_inv (srv', M)"
proof -
  have "r < length (regs srv)" if "dict_get (handlers srv') k = Some r" for k r
    using assms(1) assms(5) [OF that] by (simp add: worker_inv_def)
  with assms(1-4) show ?thesis by (simp add: worker_inv_def)
qed

lemma worker_step_inv: "worker_step s t \<Longrightarrow> worker_inv s \<Longrightarrow> worker_inv t"
proof (induction rule: worker_step.induct)
  case (admitted srv env node caller srv' r M)
  then show ?case using worker_inv_admit [of srv M env node caller srv' "Admit r"] by simp
next
  case (rejected srv env node caller srv' f M)
  then show ?case using worker_inv_admit [of srv M env node caller srv' "Reject f"] by simp
next
  case (crashed srv env node caller srv' e M)
  then show ?case using worker_inv_admit [of srv M env node caller srv' "Crash e"] by simp
next
  case (registered srv M name f opts)
  then show ?case by (simp add: register_def worker_inv_put new_registration_ok)
next
  case (cleared srv M)
  show ?case
    by (rule worker_inv_handlers [OF cleared])
      (auto simp: dict_get_clear split: if_splits, simp_all add: clear_user_handlers_def)
next
  case (authorized srv name al srv' M)
  then obtain r where r: "dict_get (handlers srv) name = Some r"
    "srv' = srv\<lparr>regs := (regs srv)[r := (regs srv ! r)\<lparr>allow := Some (set al)\<rparr>]\<rparr>"
    by (auto simp: authorize_def split: option.splits)
  have lt: "r < length (regs srv)" and s: "slots_ok (regs srv ! r) (count M r)" "stats_ok (reg_stats (regs srv ! r))"
    using authorized(2) r(1) by (auto simp: worker_inv_def)
  show ?case
    by (rule worker_inv_update [OF authorized(2) lt, of "(regs srv ! r)\<lparr>allow := Some (set al)\<rparr>"])
      (use s in \<open>simp_all add: r(2)\<close>)
next
  case (using_mw srv M mw)
  then show ?case by (simp add: worker_inv_def use_def)
next
  case (stopped srv M)
  then show ?case by (simp add: worker_inv_def request_stop_def)
qed (simp_all add: worker_inv_release)

lemma worker_inv_new: "worker_inv (server_new mws, {#})"
  unfolding server_new_def register_introspection_def
  by (intro worker_inv_put) (simp_all add: new_registration_ok, simp add: worker_inv_def)

lemma worker_reachable_inv: "worker_reachable s \<Longrightarrow> worker_inv s"
  by (induction rule: worker_reachable.induct) (auto intro: worker_inv_new worker_step_inv)

section \<open>Reading a request\<close>

lemma read_request_chunks:
  assumes "frame_ok req" "frame_bytes req = buf @ concat cs" "\<forall>c \<in> set cs. c \<noteq> []" "cs \<noteq> []"
  shows "read_request (map Inr cs @ later) buf = Inr (Some (req, frame_bytes req))"
  using assms
proof (induction cs arbitrary: buf)
  case (Cons c cs)
  show ?case
  proof (cases cs)
    case Nil
    with Cons.prems show ?thesis
      using jf.dec_enc [OF Cons.prems(1)] by simp
  next
    case (Cons c' cs')
    have "json_loads (buf @ c) = Inl JSONDecodeError"
      by (rule jf.enc_prefix [OF Cons.prems(1), of _ "concat cs"]) (use Cons Cons.prems in auto)
    with Cons.IH [of "buf @ c"] Cons.prems Cons show ?thesis by simp
  qed
qed simp

definition call_request :: "pystr \<Rightarrow> json \<Rightarrow> json" where
  "call_request name payload = JObj [(u ''node'', JStr name), (u ''payload'', payload)]"

section \<open>A plain call\<close>

text \<open>An open registration without limits.\<close>

definition plain :: "registration \<Rightarrow> bool" where
  "plain reg \<longleftrightarrow> allow reg = None \<and> reg_limiter reg = None \<and> max_concurrent reg = None \<and>
     timeout_secs reg = None \<and> \<not> is_asyncgen (fn reg)"

lemma handle_one_plain:
  assumes w: "writes_ok env" and q: "read_request reads [] = Inr (Some (JObj ms, buf))"
    and n: "dict_get ms (u ''node'') = Some (JStr name)" "dict_get ms (u ''payload'') = Some payload"
    and r: "dict_get (handlers srv) name = Some r" "r < length (regs srv)" "plain (regs srv ! r)"
    and v: "\<And>c. through_middleware (invoke_handler srv env (regs srv ! r)) (e_coroutine_str env)
        (if starts_with_cp UNDERSCORE name then [] else middlewares srv) payload c = Inr (VJson v)"
  shows "handle_one srv env peer reads =
    (count_call (release srv r) r False ((e_t_end env - e_t_start env) * 1000), [ok_frame v True], None)"
proof -
  have a: "admit srv env (JStr name) caller = (srv, Admit r)" for caller
    using r by (simp add: admit_def admit_reg_def plain_def authorized_def semaphore_def Let_def)
  have d: "drive srv env (regs srv ! r) (if starts_with_cp UNDERSCORE name then [] else middlewares srv) payload c
      \<lparr>sent = [], tries = 0\<rparr> = (\<lparr>sent = [ok_frame v True], tries = 1\<rparr>, None)" for c
    using v [of c] r(3) unfolding drive_def by (simp add: plain_def Let_def as_json_def send_chunk_ok [OF w])
  show ?thesis
    using q n by (simp add: handle_one_def jget_def a str_json_def run_call_def Let_def d)
qed

section \<open>Properties\<close>

text \<open>An environment in which every send succeeds and no timer fires.\<close>

definition quiet_env :: env where
  "quiet_env =
     \<lparr>e_request_id = u ''r'', e_monotonic = 100, e_t_start = 1, e_t_end = 2, e_in_flight = 1, e_version = u ''0'',
      e_cut = None, e_write = (\<lambda>_. WOk), e_repr = (\<lambda>_. u ''0.0''), e_fmt_g = (\<lambda>_. u ''60''),
      e_float_repr = id, e_other_str = (\<lambda>_. []), e_coroutine_str = u ''<coroutine object>''\<rparr>"

definition sample_ctx :: Context where
  "sample_ctx =
     \<lparr>caller_node_id = 5, caller_addr = \<lparr>addr_network = 0, addr_node = 5\<rparr>, caller_port = 40000, request_id = u ''r'',
      ctx_started_at = 1, handler_name = u ''echo''\<rparr>"

lemma quiet_writes_ok: "writes_ok quiet_env"
  by (simp add: writes_ok_def quiet_env_def)

definition echo_fn :: handler_fn where
  "echo_fn = UserFn \<lparr>fn_kind = FSync, fn_signature = Some [PositionalOrKeyword], fn_call = (\<lambda>p _. Inr (VJson p))\<rparr>"

definition echo_server :: "options \<Rightarrow> server" where
  "echo_server opts = register (server_new []) (u ''echo'') echo_fn opts"

lemma echo_server_lookup: "dict_get (handlers (echo_server opts)) (u ''echo'') = Some 2"
  "regs (echo_server opts) ! 2 = new_registration echo_fn opts" "length (regs (echo_server opts)) = 3"
  by (simp_all add: echo_server_def register_def put_handler_def server_new_def register_introspection_def
      dict_get_def dict_set_def u_def numeral_2_eq_2)

lemma dict_get_pair: "dict_get [(k, v), (k', v')] x = (if x = k then Some v else if x = k' then Some v' else None)"
  by (simp add: dict_get_def)

lemma default_models [simp]: "o_input_model default_options = None" "o_output_model default_options = None"
  by (simp_all add: default_options_def)

lemma echo_server_plain: "plain (new_registration echo_fn default_options)"
  by (simp add: plain_def new_registration_def default_options_def echo_fn_def)

lemma echo_server_run:
  "middlewares (echo_server opts) = []"
  "o_input_model opts = None \<Longrightarrow> o_output_model opts = None \<Longrightarrow>
     invoke_handler srv env (new_registration echo_fn opts) p c = Inr (VJson p)"
  by (simp_all add: echo_server_def register_def put_handler_def server_new_def register_introspection_def
      invoke_handler_def validate_def new_registration_def echo_fn_def call_fn_def as_json_def)

lemma through_nil [simp]: "through_middleware h co [] p c = h p c"
  by (simp add: through_middleware_def)

text \<open>
  C7: a request is answered once. When the request is an object that names a handler by a string
  and every send succeeds, the reply is any number of progress frames followed by exactly one
  final frame, a result or a typed error, on every path: unknown handler, denied caller, rate or
  concurrency limit, handler that returns, raises, streams or runs out of time, middleware that
  raises. The only other end is the cancellation of the call.
\<close>

theorem reply_exactly_one_final:
  assumes "writes_ok env" "read_request reads [] = Inr (Some (JObj ms, buf))"
    "dict_get ms (u ''node'') = Some (JStr name)"
    "\<And>r. dict_get (handlers srv) name = Some r \<Longrightarrow> semaphore_ok (regs srv ! r)"
    "handle_one srv env peer reads = (srv', frames, x)"
  shows "x = None \<and> (\<exists>ys f. is_final f \<and> frames = map progress ys @ [f]) \<or> x = Some CancelledError"
proof -
  let ?caller = "case peer of None \<Rightarrow> 0 | Some (a, _) \<Rightarrow> addr_node a"
  obtain srv1 a where a: "admit srv env (JStr name) ?caller = (srv1, a)" by (cases "admit srv env (JStr name) ?caller")
  have "a \<noteq> Crash e" for e using admit_no_crash [where srv = srv and name = name and e = e and env = env and caller = ?caller] assms(4) a by auto
  moreover have "is_final f" if "a = Reject f" for f using admit_reject_final a that by blast
  ultimately show ?thesis
    using assms(2,3,5) a run_call_sent [OF assms(1)]
    by (cases a) (auto simp: handle_one_def Let_def jget_def send_chunk_ok [OF assms(1)] intro: exI [of _ "[]"])
qed

theorem reply_exactly_one_final_witness:
  "\<exists>ys f. is_final f \<and>
    fst (snd (handle_one (echo_server default_options) quiet_env None [Inr (frame_bytes (call_request (u ''echo'') (JInt 7)))])) =
      map progress ys @ [f]"
proof -
  let ?rq = "call_request (u ''echo'') (JInt 7)"
  let ?h = "handle_one (echo_server default_options) quiet_env None [Inr (frame_bytes ?rq)]"
  obtain srv' frames x where h: "?h = (srv', frames, x)" by (cases ?h)
  have ok: "frame_ok ?rq" by (simp add: frame_ok_def call_request_def scalar_u)
  have r: "read_request [Inr (frame_bytes ?rq)] [] = Inr (Some (?rq, frame_bytes ?rq))"
    using read_request_chunks [OF ok, of "[]" "[frame_bytes ?rq]" "[]"] jf.enc_nonempty [OF ok] by simp
  have "handle_one (echo_server default_options) quiet_env None [Inr (frame_bytes ?rq)] =
      (count_call (release (echo_server default_options) 2) 2 False ((e_t_end quiet_env - e_t_start quiet_env) * 1000),
       [ok_frame (JInt 7) True], None)"
    by (rule handle_one_plain [OF quiet_writes_ok, where name = "u ''echo''" and payload = "JInt 7" and buf = "frame_bytes ?rq"
          and ms = "[(u ''node'', JStr (u ''echo'')), (u ''payload'', JInt 7)]"])
      (use r in \<open>simp_all add: call_request_def dict_get_pair echo_server_lookup echo_server_plain echo_server_run\<close>)
  with h have x: "x = None" by simp
  have sem: "\<And>r. dict_get (handlers (echo_server default_options)) (u ''echo'') = Some r \<Longrightarrow>
      semaphore_ok (regs (echo_server default_options) ! r)"
    by (simp add: echo_server_lookup semaphore_ok_def new_registration_def default_options_def)
  from reply_exactly_one_final [OF quiet_writes_ok _ _ sem h] r x h show ?thesis
    by (simp add: call_request_def dict_get_pair)
qed

section \<open>Properties of the worker\<close>


text \<open>
  A caller outside the access list never reaches the handler: the reply is one
  \<^verbatim>\<open>unauthorized\<close> frame, whatever the handler, the middleware and the payload are, and the
  worker's state, its counters and the caller's rate window included, is unchanged.
\<close>

theorem unauthorized_leaves_no_trace:
  assumes "writes_ok env" "read_request reads [] = Inr (Some (JObj ms, buf))"
    "dict_get ms (u ''node'') = Some (JStr name)" "dict_get (handlers srv) name = Some r"
    "allow (regs srv ! r) = Some s" "addr_node a \<notin> s"
  shows "handle_one srv env (Some (a, port)) reads =
    (srv, [error_frame (u ''unauthorized'')
       (u ''unauthorized: caller node_id '' @ str_int (addr_node a) @ u '' not allowed to invoke '' @ bq name)], None)"
  using assms
  by (simp add: handle_one_def jget_def admit_def admit_reg_def authorized_def Let_def send_chunk_ok [OF assms(1)])

theorem unauthorized_leaves_no_trace_witness:
  "fst (handle_one (echo_server (default_options\<lparr>o_allow := Some []\<rparr>)) quiet_env
      (Some (\<lparr>addr_network = 0, addr_node = 5\<rparr>, 80))
      [Inr (frame_bytes (call_request (u ''echo'') JNull))]) = echo_server (default_options\<lparr>o_allow := Some []\<rparr>)"
proof -
  let ?rq = "call_request (u ''echo'') JNull"
  have ok: "frame_ok ?rq" by (simp add: frame_ok_def call_request_def scalar_u)
  have r: "read_request [Inr (frame_bytes ?rq)] [] = Inr (Some (?rq, frame_bytes ?rq))"
    using read_request_chunks [OF ok, of "[]" "[frame_bytes ?rq]" "[]"] jf.enc_nonempty [OF ok] by simp
  show ?thesis
    using unauthorized_leaves_no_trace [OF quiet_writes_ok r [unfolded call_request_def], of "u ''echo''"
        "echo_server (default_options\<lparr>o_allow := Some []\<rparr>)" 2 "{}" "\<lparr>addr_network = 0, addr_node = 5\<rparr>" 80]
    by (simp add: dict_get_pair echo_server_lookup new_registration_def call_request_def)
qed

text \<open>
  C8: the concurrency limit is exact. In every reachable state of the worker, with any calls in
  flight and whatever was registered, re-registered, cleared or re-authorized meanwhile, a
  registration with the limit \<open>m\<close> has at most \<open>m\<close> calls in flight, and an authorized call that is
  not rate limited is admitted if and only if fewer than \<open>m\<close> are.
\<close>

theorem concurrency_limit_exact:
  assumes "worker_reachable (srv, M)" "r < length (regs srv)" "max_concurrent (regs srv ! r) = Some m" "0 \<le> m"
  shows "int (count M r) \<le> m \<and>
    (authorized (regs srv ! r) caller \<and> reg_limiter (regs srv ! r) = None \<longrightarrow>
       (snd (admit_reg srv env name caller r) = Admit r \<longleftrightarrow> int (count M r) < m))"
proof -
  have s: "slots_ok (regs srv ! r) (count M r)"
    using worker_reachable_inv [OF assms(1)] assms(2) by (simp add: worker_inv_def)
  show ?thesis
  proof (cases "sem_value (regs srv ! r)")
    case None
    with s assms(3,4) have "count M r = 0" by (simp add: slots_ok_def)
    with None assms(3,4) show ?thesis
      by (auto simp: admit_reg_def Let_def semaphore_def)
  next
    case (Some v)
    with s assms(3) have "0 \<le> v" "v + int (count M r) = m" by (simp_all add: slots_ok_def)
    with Some assms(3) show ?thesis by (auto simp: admit_reg_def Let_def semaphore_def)
  qed
qed

theorem concurrency_limit_exact_witness:
  "snd (admit_reg (echo_server (default_options\<lparr>o_max_concurrent := Some 1\<rparr>)) quiet_env (u ''echo'') 5 2) = Admit 2"
proof -
  let ?srv = "echo_server (default_options\<lparr>o_max_concurrent := Some 1\<rparr>)"
  have "worker_reachable (?srv, {#})"
    unfolding echo_server_def by (rule worker_reachable.step [OF worker_reachable.start worker_step.registered])
  from concurrency_limit_exact [OF this, of 2 1 5 quiet_env "u ''echo''"] show ?thesis
    by (simp add: echo_server_lookup new_registration_def default_options_def authorized_def)
qed

text \<open>
  C24: the counters agree. In every reachable state the worker's totals are the sums over all
  registrations it ever had, no registration has more errors than calls, and none keeps more than
  256 latencies.
\<close>

theorem counters_consistent:
  assumes "worker_reachable (srv, M)"
  shows "total_calls srv = sum_list (map (calls \<circ> reg_stats) (regs srv)) \<and>
    total_errors srv = sum_list (map (errors \<circ> reg_stats) (regs srv)) \<and>
    (\<forall>reg \<in> set (regs srv). errors (reg_stats reg) \<le> calls (reg_stats reg) \<and>
       length (latencies_ms (reg_stats reg)) \<le> 256)"
  using worker_reachable_inv [OF assms]
  by (auto simp: worker_inv_def stats_ok_def in_set_conv_nth MAX_LATENCIES_def)

theorem counters_consistent_witness:
  "total_calls (count_call (release (echo_server default_options) 2) 2 True 5) =
   sum_list (map (calls \<circ> reg_stats) (regs (count_call (release (echo_server default_options) 2) 2 True 5)))"
proof -
  have a: "admit (echo_server default_options) quiet_env (JStr (u ''echo'')) 5 = (echo_server default_options, Admit 2)"
    using echo_server_plain
    by (simp add: admit_def admit_reg_def echo_server_lookup plain_def authorized_def semaphore_def Let_def list_update_same_conv)
  have 1: "worker_reachable (echo_server default_options, {#})"
    unfolding echo_server_def by (rule worker_reachable.step [OF worker_reachable.start worker_step.registered])
  have 2: "worker_reachable (echo_server default_options, {#2#})"
    by (rule worker_reachable.step [OF 1]) (rule worker_step.admitted [OF a, of "{#}"])
  have "worker_reachable (count_call (release (echo_server default_options) 2) 2 True 5, {#2#} - {#2#})"
    by (rule worker_reachable.step [OF 2]) (rule worker_step.finished, simp)
  from counters_consistent [OF this] show ?thesis by blast
qed

text \<open>
  C25: the middleware chain is the composition of its members. When every middleware is a
  coroutine function that awaits \<^verbatim>\<open>next_fn\<close> once, running the chain is wrapping the handler in the
  last middleware, that in the one before it, and so on: the first registered is the outermost.
\<close>

theorem middleware_composition:
  assumes "\<forall>mw \<in> set mws. mw_async mw \<and> (\<forall>p c. single_next (mw_body mw p c))"
  shows "through_middleware h co mws p c = foldr wrap mws h p c"
  unfolding through_middleware_def by (rule next_mw_wrap [OF assms])

definition tag_mw :: "pystr \<Rightarrow> middleware" where
  "tag_mw t = \<lparr>mw_async = True,
     mw_body = (\<lambda>p c. MNext (JArr [JStr t, p]) c (\<lambda>r. case r of Inl e \<Rightarrow> MRaise e | Inr v \<Rightarrow> MRet v))\<rparr>"

theorem middleware_composition_witness:
  "through_middleware (\<lambda>p _. Inr (VJson p)) [] [tag_mw (u ''a''), tag_mw (u ''b'')] JNull sample_ctx =
     Inr (VJson (JArr [JStr (u ''b''), JArr [JStr (u ''a''), JNull]]))"
  using middleware_composition [of "[tag_mw (u ''a''), tag_mw (u ''b'')]" "\<lambda>p _. Inr (VJson p)" "[]" JNull sample_ctx]
  by (simp add: tag_mw_def wrap_def split: sum.splits)

text \<open>
  A middleware that is a plain function cannot run the handler: what it gets from \<^verbatim>\<open>next_fn\<close> is
  a coroutine object that nobody awaits. One that returns \<^verbatim>\<open>next_fn(payload, ctx)\<close> makes the worker
  reply with the text of that object as a successful result, whatever the handler is.
\<close>

theorem sync_middleware_drops_handler:
  assumes "\<not> is_asyncgen (fn reg)" "timeout_secs reg = None" "writes_ok env"
    "mw = \<lparr>mw_async = False, mw_body = (\<lambda>p c. MNext p c (\<lambda>r. case r of Inl e \<Rightarrow> MRaise e | Inr v \<Rightarrow> MRet v))\<rparr>"
  shows "sent (fst (drive srv env reg (mw # mws) payload c \<lparr>sent = [], tries = 0\<rparr>)) =
    [ok_frame (JStr (e_coroutine_str env)) True]"
  using assms
  by (simp add: drive_def through_middleware_def Let_def as_json_def send_chunk_ok)

theorem sync_middleware_drops_handler_witness:
  "sent (fst (drive (echo_server default_options) quiet_env (new_registration echo_fn default_options)
      [\<lparr>mw_async = False, mw_body = (\<lambda>p c. MNext p c (\<lambda>r. case r of Inl e \<Rightarrow> MRaise e | Inr v \<Rightarrow> MRet v))\<rparr>]
      (JInt 1) sample_ctx \<lparr>sent = [], tries = 0\<rparr>)) = [ok_frame (JStr (u ''<coroutine object>'')) True]"
  using sync_middleware_drops_handler [of "new_registration echo_fn default_options" quiet_env _ "echo_server default_options"
      "[]" "JInt 1" sample_ctx] echo_server_plain quiet_writes_ok
  by (simp add: plain_def) (simp add: quiet_env_def)

text \<open>
  A streaming handler is not protected by its input model. Without middleware the generator
  is called with the raw payload, so the frames do not depend on the model at all, although the
  documentation of \<^verbatim>\<open>input_model\<close> promises that the handler is never called on invalid input.
\<close>

theorem streaming_skips_input_model:
  assumes "is_asyncgen (fn reg)"
  shows "drive srv env (reg\<lparr>input_model := Some m\<rparr>) [] payload c w =
    drive srv env (reg\<lparr>input_model := None\<rparr>) [] payload c w"
  using assms by (simp add: drive_def Let_def)

definition ticks_fn :: handler_fn where
  "ticks_fn = UserFn \<lparr>fn_kind = FAsyncGen, fn_signature = Some [PositionalOrKeyword], fn_call = (\<lambda>p _. Inr (VGen [p] None))\<rparr>"

definition reject_model :: pmodel where
  "reject_model = \<lparr>model_validate = (\<lambda>_. Inl (ValueError [])), model_schema = JNull\<rparr>"

theorem streaming_skips_input_model_witness:
  "sent (fst (drive (echo_server default_options) quiet_env ((new_registration ticks_fn default_options)\<lparr>input_model := Some reject_model\<rparr>) []
      (JInt 3) sample_ctx \<lparr>sent = [], tries = 0\<rparr>)) = [ok_frame (JInt 3) False, ok_frame JNull True]"
proof -
  let ?reg = "new_registration ticks_fn default_options"
  have g: "is_asyncgen (fn ?reg)" "timeout_secs ?reg = None"
    by (simp_all add: new_registration_def ticks_fn_def default_options_def)
  have "sent (fst (drive (echo_server default_options) quiet_env (?reg\<lparr>input_model := None\<rparr>) [] (JInt 3) sample_ctx \<lparr>sent = [], tries = 0\<rparr>)) =
      [ok_frame (JInt 3) False, ok_frame JNull True]"
    using g
    by (simp add: drive_def call_fn_def Let_def)
      (simp add: new_registration_def ticks_fn_def pump.simps send_chunk_ok [OF quiet_writes_ok])
  with streaming_skips_input_model [OF g(1)] show ?thesis by metis
qed

text \<open>
  A handler without a timeout that raises \<^verbatim>\<open>TimeoutError\<close> itself, for instance because a
  nested remote call timed out, is reported as \<^verbatim>\<open>timeout after Nones\<close>; its message is lost.
\<close>

theorem handler_timeout_error_message_lost:
  assumes "\<not> is_asyncgen (fn (regs srv ! r))" "timeout_secs (regs srv ! r) = None" "writes_ok env"
    "invoke_handler srv env (regs srv ! r) payload c = Inl (TimeoutError msg)" "middlewares srv = []"
  shows "fst (snd (run_call srv env r name payload c)) = [error_frame (u ''handler_error'') (u ''timeout after Nones'')]"
  using assms
  by (simp add: run_call_def drive_def Let_def is_Exception_def send_chunk_ok u_def)

theorem handler_timeout_error_message_lost_witness:
  "fst (snd (run_call
     (register (server_new []) (u ''f'')
        (UserFn \<lparr>fn_kind = FCoro, fn_signature = None, fn_call = (\<lambda>_ _. Inl (TimeoutError (u ''peer'')))\<rparr>) default_options)
     quiet_env 2 (u ''f'') JNull sample_ctx)) = [error_frame (u ''handler_error'') (u ''timeout after Nones'')]"
  by (rule handler_timeout_error_message_lost [where msg = "u ''peer''"])
    (simp_all add: register_def put_handler_def server_new_def register_introspection_def new_registration_def
      default_options_def quiet_env_def writes_ok_def invoke_handler_def validate_def call_fn_def as_json_def)

text \<open>
  Reloading does not drop every user handler: \<^verbatim>\<open>clear_user_handlers\<close> keeps exactly the
  handlers whose name starts with an underscore, the user's own included.
\<close>

theorem clear_keeps_underscore_names:
  "dict_get (handlers (clear_user_handlers srv)) name =
     (if starts_with_cp UNDERSCORE name then dict_get (handlers srv) name else None)"
  by (rule dict_get_clear)

text \<open>
  The request may arrive in any pieces: the worker reads the same request from every way of
  cutting its text into non-empty chunks, and never takes a part of it for a request.
\<close>

theorem request_read_in_chunks:
  assumes "frame_ok req" "concat cs = frame_bytes req" "\<forall>c \<in> set cs. c \<noteq> []"
  shows "read_request (map Inr cs @ later) [] = Inr (Some (req, frame_bytes req))"
proof -
  have "cs \<noteq> []" using assms(2) jf.enc_nonempty [OF assms(1)] by auto
  with assms show ?thesis by (intro read_request_chunks) auto
qed

theorem request_read_in_chunks_witness:
  "read_request [Inr (take 5 (frame_bytes (call_request (u ''echo'') JNull))),
      Inr (drop 5 (frame_bytes (call_request (u ''echo'') JNull)))] [] =
    Inr (Some (call_request (u ''echo'') JNull, frame_bytes (call_request (u ''echo'') JNull)))"
proof -
  let ?b = "frame_bytes (call_request (u ''echo'') JNull)"
  have ok: "frame_ok (call_request (u ''echo'') JNull)" by (simp add: frame_ok_def call_request_def scalar_u)
  have "length ?b > 5" by (simp add: frame_bytes_def ascii_bytes_def json_dumps_def call_request_def dump_str_def u_def)
  then show ?thesis using request_read_in_chunks [OF ok, of "[take 5 ?b, drop 5 ?b]" "[]"] by force
qed

end
