(* ===== verification/Runnables_Props.thy ===== *)
theory Runnables_Props
  imports Runnables Server_Props
begin

text \<open>
  Correctness of the caller: the reader of newline-delimited frames against the frames that the
  worker writes, for every cutting into chunks; the retry policies; the connection registry; the
  fan-out, the synchronous stream and the echo check.
\<close>

section \<open>Frames on the wire\<close>

definition with_peer :: "pystr \<Rightarrow> json \<Rightarrow> json" where
  "with_peer peer f = (case f of JObj ms \<Rightarrow> JObj (dict_set ms (u ''_peer'') (JStr peer)) | _ \<Rightarrow> f)"

definition finished :: "json \<Rightarrow> bool" where
  "finished f \<longleftrightarrow> truthy (field f (u ''done''))"

lemma frame_okE: assumes "frame_ok v" obtains ms where "v = JObj ms"
  using assms by (cases v) (simp_all add: frame_ok_def)

lemma set_item_peer: "frame_ok v \<Longrightarrow> set_item v (u ''_peer'') (JStr peer) = Inr (with_peer peer v)"
  by (elim frame_okE) (simp add: set_item_def with_peer_def)

lemma field_with_peer [simp]: "frame_ok v \<Longrightarrow> k \<noteq> u ''_peer'' \<Longrightarrow> field (with_peer peer v) k = field v k"
  by (elim frame_okE) (simp add: field_def with_peer_def jget_def)

lemma frame_peer_with_peer [simp]: "frame_ok v \<Longrightarrow> frame_peer (with_peer peer v) = Some peer"
  by (elim frame_okE) (simp add: frame_peer_def field_def with_peer_def jget_def)

lemma finished_with_peer: "frame_ok v \<Longrightarrow> truthy (field (with_peer peer v) (u ''done'')) = finished v"
  by (simp add: finished_def)

lemma finished_has_key: "frame_ok v \<Longrightarrow> finished v \<Longrightarrow> has_key (with_peer peer v) (u ''done'')"
  by (elim frame_okE) (auto simp: finished_def field_def with_peer_def jget_def has_key_def split: option.splits)

lemma lines_no_newline: "10 \<notin> set p \<Longrightarrow> lines peer p saw = ([], Inl (p, saw))"
proof -
  assume "10 \<notin> set p"
  then have "cut_line p = None" by simp
  then show ?thesis by (subst lines.simps) (simp only: option.case)
qed

lemma lines_frame:
  assumes "frame_ok v"
  shows "lines peer (frame_bytes v @ 10 # r) saw =
    (if finished v then ([with_peer peer v], Inr Returned)
     else (let (fs, x) = lines peer r True in (with_peer peer v # fs, x)))"
  by (subst lines.simps)
    (simp add: jf.cut_framed [OF assms] jf.enc_nonempty [OF assms] jf.dec_enc [OF assms] set_item_peer [OF assms]
      finished_with_peer [OF assms])

lemma lines_framed:
  assumes "list_all (\<lambda>w. frame_ok w \<and> \<not> finished w) ws"
  shows "lines peer (jf.framed ws @ p) saw =
    (let (fs, x) = lines peer p (saw \<or> ws \<noteq> []) in (map (with_peer peer) ws @ fs, x))"
  using assms
proof (induction ws arbitrary: saw)
  case (Cons w ws)
  then have "lines peer (frame_bytes w @ 10 # (jf.framed ws @ p)) saw =
      (let (fs, x) = lines peer (jf.framed ws @ p) True in (with_peer peer w # fs, x))"
    by (simp add: lines_frame)
  with Cons show ?case by (simp split: prod.splits)
qed simp

lemma legacy_frame:
  assumes "frame_ok v"
  shows "legacy peer (frame_bytes v) =
    Some ([if has_key (with_peer peer v) (u ''done'') then with_peer peer v
           else (case set_item (with_peer peer v) (u ''done'') (JBool True) of Inl _ \<Rightarrow> with_peer peer v | Inr g \<Rightarrow> g)], Returned)"
  using jf.enc_nonempty [OF assms] by (simp add: legacy_def jf.dec_enc [OF assms] set_item_peer [OF assms])

lemma legacy_part:
  assumes "frame_ok v" "frame_bytes v = p @ s" "s \<noteq> []" shows "legacy peer p = None"
  using jf.enc_prefix [OF assms] by (simp add: legacy_def)

text \<open>A reply is a list of unfinished frames and a finished one.\<close>

definition reply_ok :: "json list \<Rightarrow> bool" where
  "reply_ok fs \<longleftrightarrow> (\<exists>ps f. fs = ps @ [f] \<and> frame_ok f \<and> finished f \<and> list_all (\<lambda>w. frame_ok w \<and> \<not> finished w) ps)"

lemma reply_ok_split:
  assumes "reply_ok (ws @ v # us)"
  shows "list_all (\<lambda>w. frame_ok w \<and> \<not> finished w) ws" "frame_ok v" "us = [] \<Longrightarrow> finished v" "reply_ok (v # us)"
proof -
  from assms obtain ps f where f: "ws @ v # us = ps @ [f]" "frame_ok f" "finished f" "list_all (\<lambda>w. frame_ok w \<and> \<not> finished w) ps"
    by (auto simp: reply_ok_def)
  have "list_all (\<lambda>w. frame_ok w \<and> \<not> finished w) ws \<and> frame_ok v \<and> (us = [] \<longrightarrow> finished v) \<and> reply_ok (v # us)"
  proof (cases us rule: rev_cases)
    case Nil
    with f show "list_all (\<lambda>w. frame_ok w \<and> \<not> finished w) ws \<and> frame_ok v \<and> (us = [] \<longrightarrow> finished v) \<and> reply_ok (v # us)"
      by (auto simp: reply_ok_def)
  next
    case (snoc us' x)
    with f have "ps = ws @ v # us'" "x = f" by (simp_all del: append_assoc append_Cons add: append_assoc [symmetric] append_Cons [symmetric])
    with f snoc show "list_all (\<lambda>w. frame_ok w \<and> \<not> finished w) ws \<and> frame_ok v \<and> (us = [] \<longrightarrow> finished v) \<and> reply_ok (v # us)"
      by (auto simp: reply_ok_def intro!: exI [of _ "v # us'"])
  qed
  then show "list_all (\<lambda>w. frame_ok w \<and> \<not> finished w) ws" "frame_ok v" "us = [] \<Longrightarrow> finished v" "reply_ok (v # us)"
    by simp_all
qed

text \<open>No chunk ends right before the newline of a frame that is followed by another.\<close>

definition good_cut :: "json list \<Rightarrow> bytes \<Rightarrow> bytes list \<Rightarrow> bool" where
  "good_cut fs buf cs \<longleftrightarrow>
     (\<forall>ws v us i. fs = ws @ v # us \<longrightarrow> us \<noteq> [] \<longrightarrow> 0 < i \<longrightarrow> buf @ concat (take i cs) \<noteq> jf.framed ws @ frame_bytes v)"

lemma good_cut_step:
  assumes "good_cut (ws @ gs) buf (c # cs)" "buf @ c = jf.framed ws @ p"
  shows "good_cut gs p cs"
  unfolding good_cut_def
proof (intro allI impI notI)
  fix ws' v us i
  assume a: "gs = ws' @ v # us" "us \<noteq> []" "0 < i" "p @ concat (take i cs) = jf.framed ws' @ frame_bytes v"
  have "buf @ concat (take (Suc i) (c # cs)) = jf.framed (ws @ ws') @ frame_bytes v"
    using a(4) assms(2) by (simp add: append_assoc [symmetric] del: append_assoc) simp
  with assms(1) a(1,2) show False unfolding good_cut_def by (metis append_assoc zero_less_Suc)
qed

lemma read_frames_chunks:
  assumes "reply_ok gs" "buf @ concat cs = jf.framed gs" "10 \<notin> set buf" "good_cut gs buf cs" "\<forall>c \<in> set cs. c \<noteq> []"
    "length ts = length cs" "\<forall>t \<in> set ts. t < deadline"
  shows "read_frames tx peer secs deadline (zip ts (map Inr cs) @ later) buf saw = (map (with_peer peer) gs, Returned)"
  using assms
proof (induction cs arbitrary: gs buf saw ts)
  case Nil
  then have "10 \<notin> set (jf.framed gs)" by simp
  with Nil.prems(1) show ?case by (auto simp: reply_ok_def)
next
  case (Cons c cs)
  from Cons.prems(6) obtain t ts' where ts: "ts = t # ts'" "length ts' = length cs" by (cases ts) auto
  have t: "\<not> deadline - t \<le> 0" using Cons.prems(7) ts by simp
  have c: "c \<noteq> []" using Cons.prems(5) by simp
  have "(buf @ c) @ concat cs = jf.framed gs" using Cons.prems(2) by simp
  from jf.framed_prefix [OF this] show ?case
  proof (elim disjE exE conjE)
    assume q: "buf @ c = jf.framed gs"
    from Cons.prems(1) obtain ps f where f: "gs = ps @ [f]" "frame_ok f" "finished f" "list_all (\<lambda>w. frame_ok w \<and> \<not> finished w) ps"
      by (auto simp: reply_ok_def)
    have "lines peer (jf.framed ps @ frame_bytes f @ 10 # []) saw = (map (with_peer peer) gs, Inr Returned)"
      unfolding lines_framed [OF f(4)] lines_frame [OF f(2)] using f by simp
    then show ?thesis using ts t c q f(1) by simp
  next
    fix ws v us p s
    assume d: "gs = ws @ v # us" "buf @ c = jf.framed ws @ p" "frame_bytes v = p @ s" "concat cs = s @ 10 # jf.framed us"
    note r = reply_ok_split [OF Cons.prems(1) [unfolded d(1)]]
    have p: "10 \<notin> set p" using jf.enc_no_newline [OF r(2)] d(3) by simp
    have l: "lines peer (buf @ c) saw = (map (with_peer peer) ws, Inl (p, saw \<or> ws \<noteq> []))"
      unfolding d(2) lines_framed [OF r(1)] lines_no_newline [OF p] by simp
    show ?thesis
    proof (cases "s = []")
      case True
      with Cons.prems(4) d have us: "us = []"
        unfolding good_cut_def by (metis append.right_neutral concat.simps take0 take_Suc_Cons zero_less_Suc)
      with r have "legacy peer p = Some ([with_peer peer v], Returned)"
        using legacy_frame [OF r(2), of peer] finished_has_key [OF r(2), of peer] d(3) True by simp
      then show ?thesis using ts t c l d(1) us by simp
    next
      case False
      have "read_frames tx peer secs deadline (zip ts' (map Inr cs) @ later) p (saw \<or> ws \<noteq> []) =
          (map (with_peer peer) (v # us), Returned)"
        by (rule Cons.IH) (use r p d False ts Cons.prems(5,7) good_cut_step [OF Cons.prems(4) [unfolded d(1)] d(2)] in auto)
      then show ?thesis using ts t c l d(1) legacy_part [OF r(2) d(3) False, of peer] by simp
    qed
  qed
qed

section \<open>The result of a call\<close>

text \<open>The last value that is not \<^verbatim>\<open>None\<close>, starting from \<open>acc\<close>.\<close>

definition last_value :: "json \<Rightarrow> json list \<Rightarrow> json" where
  "last_value acc vs = foldl (\<lambda>a v. if v = JNull then a else v) acc vs"

text \<open>What the caller makes of the final frame.\<close>

lemma frame_ok_simps [simp]:
  "frame_ok (ok_frame v b) = wf_json v"
  "frame_ok (progress v) = wf_json v"
  "frame_ok (error_frame t m) = (list_all is_scalar t \<and> list_all is_scalar m)"
  by (auto simp: frame_ok_def ok_frame_def error_frame_def progress_def scalar_u)

lemma field_simps_frames [simp]:
  "field (ok_frame v b) (u ''ok'') = JBool True" "field (ok_frame v b) (u ''result'') = v"
  "field (ok_frame v b) (u ''done'') = JBool b"
  "field (error_frame t m) (u ''ok'') = JBool False" "field (error_frame t m) (u ''done'') = JBool True"
  by (simp_all add: field_def jget_def dict_get_def ok_frame_def error_frame_def)

lemma finished_simps [simp]: "finished (ok_frame v b) = b" "finished (progress v) = False" "finished (error_frame t m)"
  by (simp_all add: finished_def progress_def)

lemma reply_ok_frames:
  "list_all wf_json xs \<Longrightarrow> frame_ok f \<Longrightarrow> is_final f \<Longrightarrow> reply_ok (map progress xs @ [f])"
  by (auto simp: reply_ok_def is_final_def list_all_iff)

lemma last_result_progress:
  "list_all wf_json xs \<Longrightarrow>
   last_result node (map (with_peer peer) (map progress xs) @ fs) fin acc = last_result node fs fin (last_value acc xs)"
  by (induction xs arbitrary: acc) (simp_all add: last_value_def progress_def)

lemma last_result_ok:
  "wf_json v \<Longrightarrow> last_result node [with_peer peer (ok_frame v True)] fin acc = Some (Inr (last_value acc [v]))"
  by (simp add: last_value_def)

lemma frame_error_with_peer:
  assumes "frame_ok (error_frame t m)"
  shows "frame_error node (with_peer peer (error_frame t m)) =
    (case error_class (py_or (JStr t) (JStr (u ''remote_error''))) of Inl e \<Rightarrow> e
     | Inr c \<Rightarrow> PilotRemote c (py_or (JStr m) (JStr (u ''remote error''))) (Some peer) (Some node))"
proof -
  have "jget (with_peer peer (error_frame t m)) (u ''error'') = Inr (JStr m)"
    "jget (with_peer peer (error_frame t m)) (u ''error_type'') = Inr (JStr t)"
    by (simp_all add: jget_def with_peer_def error_frame_def dict_get_def dict_set_def)
  with assms show ?thesis
    by (simp add: frame_error_def from_reply_def rmap_def split: sum.splits)
qed

lemma last_result_error:
  assumes "frame_ok (error_frame t m)"
  shows "last_result node (with_peer peer (error_frame t m) # fs) fin acc =
    Some (Inl (frame_error node (with_peer peer (error_frame t m))))"
  using assms by (simp del: frame_ok_simps)

text \<open>What the caller gets for the frames of the worker.\<close>

definition reply_outcome :: "pystr \<Rightarrow> pystr \<Rightarrow> json list \<Rightarrow> json \<Rightarrow> json result" where
  "reply_outcome node peer xs f =
     (if field f (u ''ok'') = JBool False then Inl (frame_error node (with_peer peer f))
      else Inr (last_value JNull (xs @ [field f (u ''result'')])))"

lemma last_result_reply:
  assumes "list_all wf_json xs" "frame_ok f" "is_final f"
  shows "last_result node (map (with_peer peer) (map progress xs @ [f])) fin JNull = Some (reply_outcome node peer xs f)"
proof -
  have "last_result node (map (with_peer peer) (map progress xs) @ [with_peer peer f]) fin JNull =
      last_result node [with_peer peer f] fin (last_value JNull xs)"
    by (rule last_result_progress [OF assms(1)])
  also have "\<dots> = Some (reply_outcome node peer xs f)"
    using assms(2,3) unfolding is_final_def
    by (elim disjE exE) (simp_all add: reply_outcome_def last_result_error last_value_def)
  finally show ?thesis by simp
qed

text \<open>An attempt that reaches the peer at address \<open>a\<close> and in which every read is in time.\<close>

definition reaches :: "remote_runnable \<Rightarrow> attempt \<Rightarrow> addr \<Rightarrow> bool" where
  "reaches rr att a \<longleftrightarrow>
     a_connect att = None \<and> resolve_peer (rr_peer rr) (a_resolve att) = Inr a \<and> a_dial att = None \<and>
     a_write att = None"

definition reads_chunks :: "remote_runnable \<Rightarrow> attempt \<Rightarrow> bytes list \<Rightarrow> bool" where
  "reads_chunks rr att cs \<longleftrightarrow>
     (\<exists>ts later. a_reads att = zip ts (map Inr cs) @ later \<and> length ts = length cs \<and>
        (\<forall>t \<in> set ts. t < a_time att + rr_timeout_secs rr)) \<and> (\<forall>c \<in> set cs. c \<noteq> [])"

definition request_of :: "remote_runnable \<Rightarrow> attempt \<Rightarrow> json \<Rightarrow> json" where
  "request_of rr att input =
     JObj ([(u ''node'', JStr (rr_node rr)), (u ''payload'', input)] @
       (if a_traceparent att = [] then [] else [(u ''traceparent'', JObj (a_traceparent att))]))"

lemma call_text_request: "call_text (rr_node rr) input (a_traceparent att) = json_dumps (request_of rr att input)"
  by (simp add: call_text_def request_of_def)

lemma aframes_reaches:
  assumes "reaches rr att a" "wf_json (request_of rr att input)"
  shows "aframes tx rr att input =
    (Some (frame_bytes (request_of rr att input)),
     read_frames tx (addr_str a) (rr_timeout_secs rr) (a_time att + rr_timeout_secs rr) (a_reads att) [] False)"
  using assms by (simp add: aframes_def reaches_def call_text_request frame_bytes_encode)

lemma aframes_reply:
  assumes "reaches rr att a" "wf_json (request_of rr att input)"
    "reply_ok fs" "concat cs = jf.framed fs" "good_cut fs [] cs" "reads_chunks rr att cs"
  shows "aframes tx rr att input =
    (Some (frame_bytes (request_of rr att input)), map (with_peer (addr_str a)) fs, Returned)"
proof -
  from assms(6) obtain ts later where r: "a_reads att = zip ts (map Inr cs) @ later" "length ts = length cs"
      "\<forall>t \<in> set ts. t < a_time att + rr_timeout_secs rr" "\<forall>c \<in> set cs. c \<noteq> []"
    by (auto simp: reads_chunks_def)
  show ?thesis
    unfolding aframes_reaches [OF assms(1,2)] r(1)
    by (subst read_frames_chunks [where gs = fs]) (use r assms in simp_all)
qed

section \<open>Properties\<close>

text \<open>
  C2: a reply is read however the network cuts it. When the worker's frames arrive in any
  non-empty chunks before the deadline, the call returns the last result that is not null, or
  raises the typed exception of the error frame, provided no chunk ends right before the newline
  of a frame that is not the last; for a reply of one frame there is no such chunk.
\<close>

theorem reply_any_cutting:
  assumes "reaches rr att a" "wf_json (request_of rr att input)" "list_all wf_json xs" "frame_ok f" "is_final f"
    "concat cs = jf.framed (map progress xs @ [f])" "xs \<noteq> [] \<longrightarrow> good_cut (map progress xs @ [f]) [] cs"
    "reads_chunks rr att cs"
  shows "ainvoke_once tx rr input att = Some (reply_outcome (rr_node rr) (addr_str a) xs f)"
proof -
  have "good_cut (map progress xs @ [f]) [] cs" if "xs = []"
    using that by (auto simp: good_cut_def Cons_eq_append_conv)
  with assms(7) have g: "good_cut (map progress xs @ [f]) [] cs" by blast
  show ?thesis
    unfolding ainvoke_once_def aframes_reply [OF assms(1,2) reply_ok_frames [OF assms(3-5)] assms(6) g assms(8)]
    using last_result_reply [OF assms(3-5)] by simp
qed

text \<open>
  A stream of results can be cut short without an error. When a chunk ends right before the
  newline of the first progress frame, the frame is taken for a complete legacy reply: the call
  returns its value as the result and the rest of the stream, errors included, is never read.
\<close>

theorem cut_before_newline_truncates:
  assumes "reaches rr att a" "wf_json (request_of rr att input)" "wf_json x" "x \<noteq> JNull"
    "a_reads att = (t, Inr (frame_bytes (progress x))) # rest" "t < a_time att + rr_timeout_secs rr"
  shows "ainvoke_once tx rr input att = Some (Inr x)"
proof -
  have ok: "frame_ok (progress x)" using assms(3) by simp
  have n: "10 \<notin> set (frame_bytes (progress x))" by (rule jf.enc_no_newline [OF ok])
  have k: "has_key (with_peer (addr_str a) (progress x)) (u ''done'')"
    by (simp add: has_key_def with_peer_def progress_def ok_frame_def dict_get_def dict_set_def)
  have "read_frames tx (addr_str a) (rr_timeout_secs rr) (a_time att + rr_timeout_secs rr) (a_reads att) [] False =
      ([with_peer (addr_str a) (progress x)], Returned)"
    using assms(5,6) k jf.enc_nonempty [OF ok] by (simp add: lines_no_newline [OF n] legacy_frame [OF ok])
  then show ?thesis
    unfolding ainvoke_once_def aframes_reaches [OF assms(1,2)]
    using assms(3,4) by (simp add: progress_def)
qed

lemma retries_spec:
  assumes "0 < n"
  shows "\<exists>j < n. fst (retries once b k n) = once (k + j) \<and> snd (retries once b k n) = map (retry_delay b) [k..<k + j] \<and>
    list_all (\<lambda>i. \<exists>e. once i = Some (Inl e) \<and> transient e) [k..<k + j] \<and>
    (Suc j = n \<or> \<not> (\<exists>e. once (k + j) = Some (Inl e) \<and> transient e))"
  using assms
proof (induction n arbitrary: k)
  case (Suc n)
  show ?case
  proof (cases "0 < n \<and> (\<exists>e. once k = Some (Inl e) \<and> transient e)")
    case True
    then obtain e where e: "once k = Some (Inl e)" "transient e" "0 < n" by blast
    from Suc.IH [OF e(3), of "Suc k"] obtain j where j: "j < n" "fst (retries once b (Suc k) n) = once (Suc k + j)"
        "snd (retries once b (Suc k) n) = map (retry_delay b) [Suc k..<Suc k + j]"
        "list_all (\<lambda>i. \<exists>e. once i = Some (Inl e) \<and> transient e) [Suc k..<Suc k + j]"
        "Suc j = n \<or> \<not> (\<exists>e. once (Suc k + j) = Some (Inl e) \<and> transient e)" by blast
    have s: "[k..<k + Suc j] = k # [Suc k..<Suc k + j]" by (simp add: upt_conv_Cons)
    have "retries once b k (Suc n) = (once (Suc k + j), retry_delay b k # map (retry_delay b) [Suc k..<Suc k + j])"
      using e j(2,3) by (simp add: case_prod_beta)
    with j e s show ?thesis by (intro exI [of _ "Suc j"]) simp
  next
    case False
    then have "retries once b k (Suc n) = (once k, [])"
      by (auto split: option.splits sum.splits)
    with False show ?thesis by (intro exI [of _ 0]) auto
  qed
qed simp


text \<open>A caller whose peer never answers, and one that answers at once.\<close>

definition sample_runnable :: remote_runnable where
  "sample_runnable =
     \<lparr>rr_node = u ''echo'', rr_peer = Inl \<lparr>addr_network = 0, addr_node = 7\<rparr>, rr_port = RUNNABLE_PORT,
      rr_timeout_secs = 60, rr_input_model = None, rr_output_model = None, rr_max_retries = 2,
      rr_retry_backoff_secs = 3 / 2\<rparr>"

definition sample_texts :: texts where
  "sample_texts = \<lparr>t_repr = (\<lambda>_. u ''60.0''), t_exn = (\<lambda>_. [])\<rparr>"

definition sample_attempt :: "(rat \<times> bytes result) list \<Rightarrow> attempt" where
  "sample_attempt rs =
     \<lparr>a_connect = None, a_resolve = Inr JNull, a_traceparent = [], a_dial = None, a_write = None, a_time = 0, a_reads = rs\<rparr>"

lemma sample_reaches: "reaches sample_runnable (sample_attempt rs) \<lparr>addr_network = 0, addr_node = 7\<rparr>"
  by (simp add: reaches_def sample_runnable_def sample_attempt_def resolve_peer_def)

lemma sample_request:
  "request_of sample_runnable (sample_attempt rs) (JInt n) = call_request (u ''echo'') (JInt n)"
  "wf_json (call_request (u ''echo'') (JInt n))"
  by (simp_all add: request_of_def sample_attempt_def sample_runnable_def call_request_def scalar_u)


lemma sample_reads:
  "list_all (\<lambda>c. c \<noteq> []) cs \<Longrightarrow> reads_chunks sample_runnable (sample_attempt (zip (replicate (length cs) 1) (map Inr cs))) cs"
  by (auto simp: reads_chunks_def sample_attempt_def sample_runnable_def list_all_iff
      intro!: exI [of _ "replicate (length cs) 1"])

theorem reply_any_cutting_witness:
  "ainvoke_once sample_texts sample_runnable (JInt 1)
     (sample_attempt [(1, Inr (frame_bytes (ok_frame (JInt 1) True) @ [10]))]) = Some (Inr (JInt 1))"
proof -
  let ?c = "frame_bytes (ok_frame (JInt 1) True) @ [10]"
  have "ainvoke_once sample_texts sample_runnable (JInt 1) (sample_attempt [(1, Inr ?c)]) =
      Some (reply_outcome (rr_node sample_runnable) (addr_str \<lparr>addr_network = 0, addr_node = 7\<rparr>) [] (ok_frame (JInt 1) True))"
    using sample_reads [of "[?c]"]
    by (intro reply_any_cutting [OF sample_reaches, where cs = "[?c]"]) (auto simp: sample_request is_final_def)
  then show ?thesis by (simp add: reply_outcome_def last_value_def)
qed

theorem cut_before_newline_truncates_witness:
  "ainvoke_once sample_texts sample_runnable (JInt 1)
     (sample_attempt [(1, Inr (frame_bytes (progress (JInt 5)))), (2, Inr (10 # frame_bytes (ok_frame (JInt 6) True) @ [10]))]) =
   Some (Inr (JInt 5))"
  by (rule cut_before_newline_truncates [OF sample_reaches, where t = 1 and
        rest = "[(2, Inr (10 # frame_bytes (ok_frame (JInt 6) True) @ [10]))]"])
    (simp_all add: sample_request, simp_all add: sample_attempt_def sample_runnable_def)

lemma stream_retries_spec:
  "\<exists>j \<le> n. stream_retries once k (Suc n) = once (k + j) \<and>
     list_all (\<lambda>i. \<exists>e. once i = ([], Raised e) \<and> transient e) [k..<k + j]"
proof (induction n arbitrary: k)
  case 0
  show ?case by (auto split: prod.splits gen_end.splits)
next
  case (Suc n)
  show ?case
  proof (cases "\<exists>e. once k = ([], Raised e) \<and> transient e")
    case True
    from Suc [of "Suc k"] obtain j where j: "j \<le> n" "stream_retries once (Suc k) (Suc n) = once (Suc k + j)"
      "list_all (\<lambda>i. \<exists>e. once i = ([], Raised e) \<and> transient e) [Suc k..<Suc k + j]" by blast
    have "[k..<k + Suc j] = k # [Suc k..<Suc k + j]" by (simp add: upt_conv_Cons)
    with True j show ?thesis by (intro exI [of _ "Suc j"]) (auto simp del: upt_Suc)
  next
    case False
    then have "stream_retries once k (Suc (Suc n)) = once k"
      by (auto split: prod.splits gen_end.splits)
    then show ?thesis by (intro exI [of _ 0]) simp
  qed
qed

text \<open>
  C28: a stream is never replayed. The values that \<^verbatim>\<open>astream\<close> yields and its end are those of one of
  at most three attempts; every attempt before it failed transiently without yielding anything.
\<close>

theorem astream_single_attempt:
  "\<exists>j \<le> 2. (fst (astream tx rr input atts), fst (snd (astream tx rr input atts))) = attempt_stream tx rr input (atts j) \<and>
     list_all (\<lambda>i. \<exists>e. attempt_stream tx rr input (atts i) = ([], Raised e) \<and> transient e) [0..<j]"
  using stream_retries_spec [of 2 "\<lambda>k. attempt_stream tx rr input (atts k)" 0]
  by (auto simp: astream_def case_prod_beta numeral_3_eq_3 numeral_2_eq_2)

section \<open>The connection registry\<close>

definition registry_ok :: "registry \<Rightarrow> bool" where
  "registry_ok r \<longleftrightarrow> distinct (dict_keys (by_loop r)) \<and> list_all (\<lambda>(l, c). c < length (conns r)) (by_loop r)"

lemma registry_ok_get: "registry_ok r \<Longrightarrow> dict_get (by_loop r) lid = Some c \<Longrightarrow> c < length (conns r)"
  using dict_get_Some_in [of "by_loop r" lid c] by (auto simp: registry_ok_def list_all_iff)

lemma dict_set_all: "list_all P d \<Longrightarrow> P (k, v) \<Longrightarrow> list_all P (dict_set d k v)"
  by (induction d) (auto simp: dict_set_def)

lemma dict_del_all: "list_all P d \<Longrightarrow> list_all P (dict_del d k)"
  by (induction d) (auto simp: dict_del_def)

lemma is_alive_close [simp]: "\<not> is_alive (close st)" "\<not> is_alive (force_close_sync st)"
  by (simp_all add: is_alive_def close_def force_close_sync_def close_finish_def close_begin_def eof_all_def fail_all_def)

lemma at_conn_simps [simp]:
  "length (conns (at_conn f c r)) = length (conns r)" "by_loop (at_conn f c r) = by_loop r"
  "c < length (conns r) \<Longrightarrow> conns (at_conn f c r) ! c' = (if c' = c then f (conns r ! c) else conns r ! c')"
  by (simp_all add: at_conn_def)

lemma registry_get_ok: "registry_ok r \<Longrightarrow> registry_ok (fst (registry_get r lid fresh))"
  by (auto simp: registry_get_def registry_ok_def Let_def dict_set_all list_all_iff [symmetric]
      split: option.splits sum.splits elim!: list.pred_mono_strong intro!: dict_set_all)

lemma drop_current_ok: "registry_ok r \<Longrightarrow> registry_ok (drop_current r lid)"
  by (auto simp: drop_current_def registry_ok_def dict_del_all split: option.splits)

lemma aclose_fold:
  assumes "list_all (\<lambda>(l, c). c < length (conns s)) ls"
  shows "length (conns (foldl (\<lambda>s (lid, c). at_conn (if current = Some lid then close else force_close_sync) c s) s ls)) = length (conns s)
    \<and> by_loop (foldl (\<lambda>s (lid, c). at_conn (if current = Some lid then close else force_close_sync) c s) s ls) = by_loop s
    \<and> (\<forall>i < length (conns s). (i \<in> snd ` set ls \<or> \<not> is_alive (conns s ! i)) \<longrightarrow>
        \<not> is_alive (conns (foldl (\<lambda>s (lid, c). at_conn (if current = Some lid then close else force_close_sync) c s) s ls) ! i))"
  using assms
proof (induction ls arbitrary: s)
  case (Cons x ls)
  obtain l c where x: "x = (l, c)" by (cases x)
  let ?f = "if current = Some l then close else force_close_sync"
  have c: "c < length (conns s)" using Cons.prems x by simp
  have dead: "\<not> is_alive (?f st)" for st by simp
  show ?case
    using Cons.IH [of "at_conn ?f c s"] Cons.prems c dead unfolding x
    by (auto split: if_splits)
qed simp

text \<open>
  C29: the registry never harms a healthy connection. \<^verbatim>\<open>get\<close> and \<^verbatim>\<open>drop_current\<close> leave every live
  connection as it is, so a retrying caller cannot break the calls in flight of others; \<^verbatim>\<open>get\<close>
  hands out a live cached connection or a new one and caches what it hands out; after
  \<^verbatim>\<open>aclose_all\<close> nothing is cached and every connection that was is closed.
\<close>

theorem registry_keeps_live:
  assumes "registry_ok r"
  shows "(\<forall>i < length (conns r). is_alive (conns r ! i) \<longrightarrow>
      conns (fst (registry_get r lid fresh)) ! i = conns r ! i \<and> conns (drop_current r lid) ! i = conns r ! i) \<and>
    (case snd (registry_get r lid fresh) of
       Inr c \<Rightarrow> dict_get (by_loop (fst (registry_get r lid fresh))) lid = Some c \<and>
         (is_alive (conns (fst (registry_get r lid fresh)) ! c) \<or> fresh = Inr (conns (fst (registry_get r lid fresh)) ! c))
     | Inl e \<Rightarrow> fresh = Inl e) \<and>
    by_loop (aclose_all r current) = [] \<and>
    (\<forall>(l, c) \<in> set (by_loop r). \<not> is_alive (conns (aclose_all r current) ! c))"
proof (intro conjI)
  show "\<forall>i < length (conns r). is_alive (conns r ! i) \<longrightarrow>
      conns (fst (registry_get r lid fresh)) ! i = conns r ! i \<and> conns (drop_current r lid) ! i = conns r ! i"
    using registry_ok_get [OF assms, of lid]
    by (auto simp: registry_get_def drop_current_def Let_def nth_append split: option.splits sum.splits)
  show "case snd (registry_get r lid fresh) of
       Inr c \<Rightarrow> dict_get (by_loop (fst (registry_get r lid fresh))) lid = Some c \<and>
         (is_alive (conns (fst (registry_get r lid fresh)) ! c) \<or> fresh = Inr (conns (fst (registry_get r lid fresh)) ! c))
     | Inl e \<Rightarrow> fresh = Inl e"
    by (auto simp: registry_get_def Let_def nth_append split: option.splits sum.splits if_splits)
  have l: "list_all (\<lambda>(l, c). c < length (conns (r\<lparr>by_loop := []\<rparr>))) (by_loop r)"
    using assms by (simp add: registry_ok_def)
  note f = aclose_fold [OF l, of current]
  show "by_loop (aclose_all r current) = []" using f unfolding aclose_all_def by simp
  show "\<forall>(l, c) \<in> set (by_loop r). \<not> is_alive (conns (aclose_all r current) ! c)"
    using f l unfolding aclose_all_def by (force simp: list_all_iff)
qed

definition sample_registry :: registry where
  "sample_registry =
     \<lparr>by_loop = [(1, 0), (2, 1)], conns = [client_init, close client_init], sync_loop_id = None\<rparr>"

theorem registry_keeps_live_witness:
  "conns (drop_current sample_registry 2) ! 0 = client_init \<and>
   snd (registry_get sample_registry 2 (Inr client_init)) = Inr 2 \<and>
   \<not> is_alive (conns (aclose_all sample_registry (Some 1)) ! 0)"
proof -
  have ok: "registry_ok sample_registry" by (simp add: registry_ok_def sample_registry_def dict_keys_def)
  have alive: "is_alive client_init" by (simp add: is_alive_def client_init_def)
  have g: "snd (registry_get sample_registry 2 (Inr client_init)) = Inr 2"
    by (simp add: registry_get_def sample_registry_def dict_get_def)
  show ?thesis
    using registry_keeps_live [OF ok, of 2 "Inr client_init" "Some 1"] alive g
    by (simp add: sample_registry_def)
qed

section \<open>Fan-out, echo, synchronous streams\<close>

lemma dict_of_zip: "distinct (map fst d) \<Longrightarrow> dict_of_pairs (zip (map fst d) (map snd d)) = d"
  by (simp add: zip_map_fst_snd dict_of_pairs_distinct)



text \<open>
  The synchronous \<^verbatim>\<open>stream\<close> gives what \<^verbatim>\<open>astream\<close> gives, the exception included; only a
  cancellation of the asynchronous side is turned into an ordinary end.
\<close>

theorem stream_same_as_astream:
  "stream_consume (stream_queue (vs, fin, cbs)) =
     (vs, case fin of Raised e \<Rightarrow> if is_Exception e then Raised e else Returned | _ \<Rightarrow> fin)"
proof -
  have "stream_consume (map QVal vs @ q) = (vs @ fst (stream_consume q), snd (stream_consume q))" for q
    by (induction vs) (simp_all add: case_prod_beta)
  from this [of "[]"] this show ?thesis by (cases fin) (simp_all add: stream_queue_def)
qed

lemma decode_replace_ascii: "is_ascii s \<Longrightarrow> utf8_decode_replace (ascii_bytes s) = s"
  using utf8_decode_replace_encode utf8_encode_ascii ascii_scalar by blast

text \<open>
  The echo check compares the first chunk only. An echo that comes back in one chunk is
  reported as a round trip; when the same text comes back in two chunks the report is negative.
\<close>

theorem echo_first_chunk_only:
  assumes "wf_json v" "frame_bytes v = p @ s" "echo_ainvoke peer v None (Inr p) = Inr r"
  shows "field r (u ''round_trip_ok'') = JBool (s = [])"
proof -
  define t where "t = take (length p) (json_dumps v)"
  have pr: "list_all printable (json_dumps v)" by (rule json_dumps_printable [OF assms(1)])
  have "is_ascii t"
    using printable_ascii [OF pr] by (auto simp: t_def is_ascii_def list_all_iff dest: in_set_takeD)
  moreover have "p = ascii_bytes t"
    using arg_cong [OF assms(2), of "take (length p)"] by (simp add: frame_bytes_def ascii_bytes_def t_def take_map)
  ultimately have d: "utf8_decode_replace p = t" by (simp add: decode_replace_ascii)
  have "length (json_dumps v) = length p + length s"
    using arg_cong [OF assms(2), of length] by (simp add: frame_bytes_def ascii_bytes_def)
  then have "t = json_dumps v \<longleftrightarrow> s = []" by (auto simp: t_def)
  with assms(3) d show ?thesis
    by (auto simp: echo_ainvoke_def Let_def frame_bytes_encode [OF assms(1)] field_def jget_def dict_get_def)
qed

theorem echo_first_chunk_only_witness:
  "field (projr (echo_ainvoke \<lparr>addr_network = 0, addr_node = 7\<rparr> (JInt 12) None (Inr [49]))) (u ''round_trip_ok'') = JBool False"
proof -
  let ?r = "echo_ainvoke \<lparr>addr_network = 0, addr_node = 7\<rparr> (JInt 12) None (Inr [49])"
  have r: "?r = Inr (projr ?r)"
    by (simp add: echo_ainvoke_def Let_def frame_bytes_encode)
  have "frame_bytes (JInt 12) = [49] @ [50]" by code_simp
  from echo_first_chunk_only [OF _ this r] show ?thesis by simp
qed

end
