(* ===== verification/Remote_Call.thy ===== *)
theory Remote_Call
  imports Runnables_Props
begin

text \<open>
  Caller, wire and worker together: what the caller writes is what the worker reads, a plain handler
  is answered by one final frame, and one final frame gives the caller its outcome. The properties of
  remote calls are composed from these three facts.
\<close>

section \<open>The worker answers a plain call\<close>

lemma plain_admit:
  "dict_get (handlers srv) name = Some r \<Longrightarrow> r < length (regs srv) \<Longrightarrow> plain (regs srv ! r) \<Longrightarrow>
   admit srv env (JStr name) caller = (srv, Admit r)"
  by (simp add: admit_def admit_reg_def plain_def authorized_def semaphore_def Let_def)

definition local_frame :: "env \<Rightarrow> hval result \<Rightarrow> json" where
  "local_frame env out =
     (case out of
        Inr v \<Rightarrow> ok_frame (as_json v) True
      | Inl e \<Rightarrow> error_frame (u ''handler_error'') (exn_name e @ u '': '' @ exn_str env e))"

lemma handle_one_local:
  assumes w: "writes_ok env" and q: "read_request rds [] = Inr (Some (JObj ms, buf))"
    and n: "dict_get ms (u ''node'') = Some (JStr name)" "dict_get ms (u ''payload'') = Some payload"
    and r: "dict_get (handlers srv) name = Some r" "r < length (regs srv)" "plain (regs srv ! r)"
      "fn (regs srv ! r) = UserFn f" "input_model (regs srv ! r) = None" "output_model (regs srv ! r) = None"
    and m: "middlewares srv = []"
    and f: "\<And>c. fn_call f payload c = out" "\<And>vs x. out \<noteq> Inr (VGen vs x)" "\<And>e. out = Inl e \<Longrightarrow> is_Exception e"
      "\<And>s. out \<noteq> Inl (TimeoutError s)"
  shows "fst (snd (handle_one srv env peer rds)) = [local_frame env out]"
proof -
  have i: "invoke_handler srv env (regs srv ! r) payload c = out" for c
    using r f by (cases out) (simp_all add: invoke_handler_def validate_def call_fn_def as_json_def plain_def)
  have d: "drive srv env (regs srv ! r) [] payload c \<lparr>sent = [], tries = 0\<rparr> =
      (case out of Inl e \<Rightarrow> (\<lparr>sent = [], tries = 0\<rparr>, Some e)
       | Inr v \<Rightarrow> (\<lparr>sent = [ok_frame (as_json v) True], tries = 1\<rparr>, None))" for c
    using r(3) f(2) unfolding drive_def
    by (auto simp: plain_def Let_def i as_json_def send_chunk_ok [OF w] split: sum.splits hval.splits)
  show ?thesis
  proof (cases out)
    case (Inl e)
    with f(3,4) have e: "is_Exception e" "\<And>s. e \<noteq> TimeoutError s" by auto
    then have "(case e of TimeoutError _ \<Rightarrow> x | _ \<Rightarrow> y) = y" for x y :: pystr using e(2) by (cases e) auto
    with Inl e d q n m show ?thesis
      by (simp add: handle_one_def jget_def plain_admit [OF r(1-3)] str_json_def run_call_def Let_def local_frame_def
          send_chunk_ok [OF w])
  next
    case (Inr v)
    with d q n m show ?thesis
      by (simp add: handle_one_def jget_def plain_admit [OF r(1-3)] str_json_def run_call_def Let_def local_frame_def)
  qed
qed

text \<open>What the caller of a remote handler gets for what the handler does.\<close>

definition remote_outcome :: "env \<Rightarrow> pystr \<Rightarrow> pystr \<Rightarrow> hval result \<Rightarrow> json result" where
  "remote_outcome env node peer out =
     (case out of
        Inr v \<Rightarrow> Inr (as_json v)
      | Inl e \<Rightarrow> Inl (PilotRemote PilotHandlerError (JStr (exn_name e @ u '': '' @ exn_str env e)) (Some peer) (Some node)))"

lemma reply_outcome_local:
  assumes "frame_ok (local_frame env out)"
  shows "reply_outcome node peer [] (local_frame env out) = remote_outcome env node peer out"
proof (cases out)
  case (Inl e)
  have "error_class (py_or (JStr (u ''handler_error'')) (JStr (u ''remote_error''))) = Inr PilotHandlerError"
    by (simp add: error_class_def py_or_def ERROR_TYPE_MAP_def dict_get_def u_def)
  moreover have "exn_name e @ u '': '' @ exn_str env e \<noteq> []" by (simp add: u_def)
  ultimately show ?thesis
    using Inl assms frame_error_with_peer [of "u ''handler_error''" "exn_name e @ u '': '' @ exn_str env e" node peer]
    by (simp add: reply_outcome_def local_frame_def remote_outcome_def py_or_def)
next
  case (Inr v)
  then show ?thesis by (simp add: reply_outcome_def local_frame_def remote_outcome_def last_value_def)
qed

section \<open>The request and the reply on the wire\<close>

lemma request_read:
  assumes "reaches rr att a" "wf_json (request_of rr att input)" "fst (aframes tx rr att input) = Some (concat rcs)"
    "\<forall>c \<in> set rcs. c \<noteq> []"
  shows "read_request (map Inr rcs) [] = Inr (Some (request_of rr att input, frame_bytes (request_of rr att input)))"
proof -
  let ?rq = "request_of rr att input"
  have ok: "frame_ok ?rq" using assms(2) by (simp add: frame_ok_def request_of_def)
  have rb: "frame_bytes ?rq = [] @ concat rcs" using assms(3) by (simp add: aframes_reaches [OF assms(1,2)])
  moreover have "rcs \<noteq> []" using rb jf.enc_nonempty [OF ok] by auto
  ultimately show ?thesis using read_request_chunks [OF ok, of "[]" rcs "[]"] assms(4) by simp
qed

lemma request_arrives:
  assumes "reaches rr att a" "wf_json (request_of rr att input)" "fst (aframes tx rr att input) = Some (concat rcs)"
    "\<forall>c \<in> set rcs. c \<noteq> []"
  obtains ms where "read_request (map Inr rcs) [] = Inr (Some (JObj ms, frame_bytes (JObj ms)))"
    "dict_get ms (u ''node'') = Some (JStr (rr_node rr))" "dict_get ms (u ''payload'') = Some input"
  by (rule that [OF request_read [OF assms, unfolded request_of_def]]) (simp_all add: dict_get_def)

lemma single_reply:
  assumes "reaches rr att a" "wf_json (request_of rr att input)" "frame_ok f" "is_final f" "concat cs = jf.framed [f]"
    "reads_chunks rr att cs"
  shows "ainvoke_once tx rr input att = Some (reply_outcome (rr_node rr) (addr_str a) [] f)"
proof -
  have g: "good_cut [f] [] cs" by (auto simp: good_cut_def Cons_eq_append_conv)
  have r: "reply_ok [f]" using reply_ok_frames [of "[]" f] assms(3,4) by simp
  show ?thesis
    unfolding ainvoke_once_def aframes_reply [OF assms(1,2) r assms(5) g assms(6)]
    using last_result_reply [of "[]" f] assms(3,4) by simp
qed

end
