(* ===== verification/Checkpoint_Service.thy ===== *)
theory Checkpoint_Service
  imports Checkpoint_Backend Saver_Props Remote_Call
begin

text \<open>
  The checkpoint worker end to end: the operations of the chosen store behind the handlers of a worker
  (\<^verbatim>\<open>register\<close> of \<^verbatim>\<open>checkpoint_worker.py\<close>), called by the runnables of the saver over the wire. It
  justifies the network of \<^verbatim>\<open>Saver\<close>, where a delivered request is one step of the store.
\<close>

section \<open>Replies are well-formed\<close>

definition entry_wf :: "pystr \<times> ckpt \<Rightarrow> bool" where
  "entry_wf = (\<lambda>(cid, rec). list_all is_scalar cid \<and> wf_json (parent rec) \<and> wf_json (ck_blob rec) \<and> wf_json (ck_meta rec))"

definition pending_wf :: "(pystr \<times> pystr) \<times> json \<Rightarrow> bool" where
  "pending_wf = (\<lambda>((task, path), w). list_all is_scalar task \<and> wf_json w)"

definition spec_wf :: "spec_store \<Rightarrow> bool" where
  "spec_wf v \<longleftrightarrow> (\<forall>key. list_all entry_wf (hist v key)) \<and> (\<forall>key. list_all pending_wf (pend v key))"

lemma reply_wf:
  "wf_json ok_reply" "wf_json not_found"
  "list_all is_scalar task \<Longrightarrow> wf_json w \<Longrightarrow> wf_json (pending_item task w)"
  "list_all is_scalar cid \<Longrightarrow> wf_json par \<Longrightarrow> wf_json blob \<Longrightarrow> wf_json meta \<Longrightarrow> list_all wf_json ws \<Longrightarrow>
   wf_json (found_reply cid par blob meta ws)"
  "list_all wf_json xs \<Longrightarrow> wf_json (items_reply xs)"
  "list_all is_scalar (fst key) \<Longrightarrow> list_all is_scalar (snd key) \<Longrightarrow> list_all is_scalar cid \<Longrightarrow> wf_json par \<Longrightarrow> wf_json blob \<Longrightarrow>
   wf_json meta \<Longrightarrow> wf_json (list_item key cid par blob meta)"
  by (simp_all add: ok_reply_def not_found_def pending_item_def found_reply_def items_reply_def list_item_def scalar_u)

lemma spec_wfD:
  "spec_wf v \<Longrightarrow> x \<in> set (hist v key) \<Longrightarrow> entry_wf x"
  "spec_wf v \<Longrightarrow> y \<in> set (pend v at_ckpt) \<Longrightarrow> pending_wf y"
  unfolding spec_wf_def list_all_iff by blast+

lemma spec_wfI:
  "(\<And>key x. x \<in> set (hist v key) \<Longrightarrow> entry_wf x) \<Longrightarrow> (\<And>at_ckpt y. y \<in> set (pend v at_ckpt) \<Longrightarrow> pending_wf y) \<Longrightarrow> spec_wf v"
  unfolding spec_wf_def list_all_iff by blast

lemma spec_wf_put:
  assumes "spec_wf v" "put_wf key cid rec" shows "spec_wf (spec_put v key cid rec)"
proof (rule spec_wfI)
  have n: "entry_wf (cid, rec)" using assms(2) by (auto simp: put_wf_def entry_wf_def split: json.splits)
  show "entry_wf x" if "x \<in> set (hist (spec_put v key cid rec) k)" for k x
    using that n spec_wfD(1) [OF assms(1), of x k] by (simp add: spec_put_def split: if_splits) blast
  show "pending_wf y" if "y \<in> set (pend (spec_put v key cid rec) k)" for k y
    using that spec_wfD(2) [OF assms(1)] by (simp add: spec_put_def)
qed

lemma spec_wf_writes:
  assumes "spec_wf v" "writes_wf key ident w" shows "spec_wf (spec_writes v key ident w)"
proof (rule spec_wfI)
  have n: "pending_wf (ident, w)" using assms(2) by (auto simp: writes_wf_def pending_wf_def)
  show "entry_wf x" if "x \<in> set (hist (spec_writes v key ident w) k)" for k x
    using that spec_wfD(1) [OF assms(1), of x k] by (simp add: spec_writes_def split: if_splits)
  show "pending_wf y" if "y \<in> set (pend (spec_writes v key ident w) k)" for k y
    using that n spec_wfD(2) [OF assms(1), of y k] by (simp add: spec_writes_def split: if_splits) blast
qed

lemma entry_reply_wf:
  assumes "spec_wf v" "(cid, rec) \<in> set (hist v key)"
  shows "wf_json (found_reply cid (parent rec) (ck_blob rec) (ck_meta rec)
    (map (\<lambda>((task, path), w). pending_item task w) (pend v (key, cid))))"
proof (rule reply_wf)
  show "list_all wf_json (map (\<lambda>((task, path), w). pending_item task w) (pend v (key, cid)))"
    using spec_wfD(2) [OF assms(1), of _ "(key, cid)"] by (fastforce simp: list_all_iff pending_wf_def reply_wf)
qed (use spec_wfD(1) [OF assms] in \<open>simp_all add: entry_wf_def\<close>)

lemma spec_get_wf:
  assumes "spec_wf v" shows "wf_json (spec_get v key c)"
proof (cases c)
  case None
  then show ?thesis
    using entry_reply_wf [OF assms, of "fst (last (hist v key))" "snd (last (hist v key))" key] last_in_set [of "hist v key"]
    by (cases "hist v key = []") (simp_all add: spec_get_def reply_wf case_prod_beta)
next
  case (Some cid)
  then show ?thesis
    using entry_reply_wf [OF assms map_of_SomeD, of key cid]
    by (cases "map_of (hist v key) cid") (simp_all add: spec_get_def reply_wf)
qed

lemma spec_list_wf:
  assumes "spec_wf v" "list_all is_scalar (fst key)" "list_all is_scalar (snd key)"
  shows "wf_json (spec_list v key before limit)"
proof -
  have "x \<in> set (hist v key)" if "x \<in> set (limited limit (after_pair before (rev (hist v key))))" for x
    using that
    by (auto simp: limited_def after_pair_def split: option.splits if_splits dest!: in_set_takeD list.set_sel(2) [rotated] set_dropWhileD)
  then have "entry_wf x" if "x \<in> set (limited limit (after_pair before (rev (hist v key))))" for x
    using that spec_wfD(1) [OF assms(1)] by blast
  moreover have "wf_json (pair_item key x)" if "entry_wf x" for x
    using that assms(2,3) by (simp add: pair_item_def entry_wf_def reply_wf split: prod.splits)
  ultimately show ?thesis by (simp add: spec_list_def reply_wf list_all_iff)
qed

lemma spec_step_wf:
  assumes "spec_wf v" "op_ok op"
  shows "spec_wf (fst (spec_step v op)) \<and> (\<forall>x. snd (spec_step v op) = Inr x \<longrightarrow> wf_json x)"
proof (cases op)
  case (List p)
  then show ?thesis
    using assms spec_list_wf [OF assms(1)]
    by (auto simp: spec_step_def op_ok_def list_wf_def split: sum.splits option.splits)
qed (use assms in \<open>auto simp: spec_step_def op_ok_def reply_wf(1) spec_wf_put spec_wf_writes spec_get_wf split: sum.splits\<close>)

lemma spec_run_wf:
  "spec_wf v \<Longrightarrow> list_all op_ok ops \<Longrightarrow> spec_wf (fst (run_ops spec_step v ops)) \<and>
   (\<forall>x. Inr x \<in> set (snd (run_ops spec_step v ops)) \<longrightarrow> wf_json x)"
proof (induction ops arbitrary: v)
  case (Cons op ops)
  with Cons.IH [of "fst (spec_step v op)"] spec_step_wf [of v op] show ?case
    by (auto simp: case_prod_beta Let_def)
qed simp

lemma spec_wf_init: "spec_wf spec_init"
  by (simp add: spec_wf_def spec_init_def)

section \<open>The store behind a worker\<close>

text \<open>The bound method of the store, with the store as it is when the call arrives.\<close>

definition checkpoint_fn :: "(backend \<Rightarrow> json \<Rightarrow> backend \<times> json result) \<Rightarrow> backend \<Rightarrow> user_fn" where
  "checkpoint_fn op b =
     \<lparr>fn_kind = FSync, fn_signature = Some [PositionalOrKeyword], fn_call = (\<lambda>p _. rmap VJson (snd (op b p)))\<rparr>"

fun register_handlers :: "(pystr, backend \<Rightarrow> json \<Rightarrow> backend \<times> json result) dict \<Rightarrow> server \<Rightarrow> backend \<Rightarrow> server" where
  "register_handlers [] srv b = srv"
| "register_handlers ((name, op) # hs) srv b =
     register_handlers hs (register srv name (UserFn (checkpoint_fn op b)) default_options) b"

definition checkpoint_register :: "server \<Rightarrow> backend \<Rightarrow> server" where
  "checkpoint_register srv b = register_handlers checkpoint_handlers srv b"

text \<open>The handler of a request, the runnable of the saver that calls it, and the payload.\<close>

fun op_name :: "store_op \<Rightarrow> pystr" where
  "op_name (Put _) = u ''checkpoint_put''"
| "op_name (Get _) = u ''checkpoint_get_tuple''"
| "op_name (List _) = u ''checkpoint_list''"
| "op_name (PutWrites _) = u ''checkpoint_put_writes''"

fun op_runnable :: "saver \<Rightarrow> store_op \<Rightarrow> remote_runnable" where
  "op_runnable sv (Put _) = call_put sv"
| "op_runnable sv (Get _) = call_get sv"
| "op_runnable sv (List _) = call_list sv"
| "op_runnable sv (PutWrites _) = call_writes sv"

fun op_payload :: "store_op \<Rightarrow> json" where
  "op_payload (Put p) = p" | "op_payload (Get p) = p" | "op_payload (List p) = p" | "op_payload (PutWrites p) = p"

fun op_handler :: "store_op \<Rightarrow> backend \<Rightarrow> json \<Rightarrow> backend \<times> json result" where
  "op_handler (Put _) = backend_put"
| "op_handler (Get _) = backend_get_tuple"
| "op_handler (List _) = backend_list"
| "op_handler (PutWrites _) = backend_put_writes"

lemma op_handler_step: "op_handler op b (op_payload op) = backend_step b op"
  by (cases op) (simp_all add: backend_step_def store_step_def)

lemma saver_nodes: "saver_new peer port timeout = Inr sv \<Longrightarrow> rr_node (op_runnable sv op) = op_name op"
  by (cases op) (auto simp: saver_new_def remote_runnable_new_def Let_def rbind_def rmap_def split: sum.splits)

lemma checkpoint_plain: "plain (new_registration (UserFn (checkpoint_fn op b)) default_options)"
  by (simp add: plain_def new_registration_def default_options_def checkpoint_fn_def)

lemma checkpoint_registered:
  "\<exists>r. dict_get (handlers (checkpoint_register srv b)) (op_name op) = Some r \<and> r < length (regs (checkpoint_register srv b)) \<and>
    regs (checkpoint_register srv b) ! r = new_registration (UserFn (checkpoint_fn (op_handler op) b)) default_options"
  by (cases op) (simp_all add: checkpoint_register_def checkpoint_handlers_def register_def put_handler_def nth_append)

lemma checkpoint_register_middlewares: "middlewares (checkpoint_register srv b) = middlewares srv"
  by (simp add: checkpoint_register_def checkpoint_handlers_def register_def put_handler_def)

lemma checkpoint_answers:
  assumes "writes_ok env" "read_request rds [] = Inr (Some (JObj ms, buf))" "dict_get ms (u ''node'') = Some (JStr (op_name op))"
    "dict_get ms (u ''payload'') = Some p" "snd (op_handler op b p) = Inr v"
  shows "fst (snd (handle_one (checkpoint_register (server_new []) b) env caller rds)) = [local_frame env (Inr (VJson v))]"
proof -
  let ?srv = "checkpoint_register (server_new []) b"
  obtain i where i: "dict_get (handlers ?srv) (op_name op) = Some i" "i < length (regs ?srv)"
      "regs ?srv ! i = new_registration (UserFn (checkpoint_fn (op_handler op) b)) default_options"
    using checkpoint_registered by blast
  show ?thesis
    by (rule handle_one_local [OF assms(1-4) i(1,2), where f = "checkpoint_fn (op_handler op) b"])
      (simp_all add: i(3) checkpoint_plain checkpoint_register_middlewares assms(5),
        simp_all add: checkpoint_fn_def assms(5) new_registration_def default_options_def server_new_def register_introspection_def put_handler_def)
qed

section \<open>Properties\<close>




lemma sample_put_request:
  assumes "saver_new (Inl \<lparr>addr_network = 0, addr_node = 7\<rparr>) 5001 30 = Inr sv"
  shows "reaches (call_put sv) (sample_attempt rs) \<lparr>addr_network = 0, addr_node = 7\<rparr>"
    "request_of (call_put sv) (sample_attempt rs) p = JObj [(u ''node'', JStr (u ''checkpoint_put'')), (u ''payload'', p)]"
    "rr_timeout_secs (call_put sv) = 30"
  using assms by (auto simp: saver_new_def remote_runnable_new_def Let_def reaches_def sample_attempt_def resolve_peer_def
      parse_peer_def request_of_def)


end
