(* ===== verification/Remote_Outcomes.thy ===== *)
theory Remote_Outcomes
  imports Remote_Call
begin

text \<open>
  Rejections and streams end to end: a call that the worker turns away reaches the caller as the typed
  exception of its reason, after a single attempt; a streaming handler is iterated by the caller as
  if it were a local generator.
\<close>

section \<open>Rejections\<close>

text \<open>The exception class for the reason of a rejection.\<close>

definition rejection_class :: "server \<Rightarrow> pystr \<Rightarrow> int \<Rightarrow> remote_class" where
  "rejection_class srv name caller =
     (case dict_get (handlers srv) name of
        None \<Rightarrow> PilotHandlerNotFoundError
      | Some r \<Rightarrow> if authorized (regs srv ! r) caller then PilotRateLimitError else PilotUnauthorizedError)"

definition class_tag :: "remote_class \<Rightarrow> pystr" where
  "class_tag c =
     (case c of PilotHandlerNotFoundError \<Rightarrow> u ''handler_not_found'' | PilotUnauthorizedError \<Rightarrow> u ''unauthorized''
      | PilotRateLimitError \<Rightarrow> u ''rate_limited'' | PilotHandlerError \<Rightarrow> u ''handler_error'' | PilotRemoteError \<Rightarrow> u ''remote_error'')"

lemma class_tag_class: "error_class (py_or (JStr (class_tag c)) (JStr (u ''remote_error''))) = Inr c"
  by (cases c) (simp_all add: class_tag_def error_class_def py_or_def ERROR_TYPE_MAP_def dict_get_def u_def)

lemma typed_frame_error:
  assumes "frame_ok (error_frame (class_tag c) msg)" "msg \<noteq> []"
  shows "frame_error node (with_peer peer (error_frame (class_tag c) msg)) = PilotRemote c (JStr msg) (Some peer) (Some node)"
  unfolding frame_error_with_peer [OF assms(1)] class_tag_class sum.case using assms(2) by (simp add: py_or_def)

lemma admit_reject:
  assumes "admit srv env (JStr name) caller = (srv', Reject f)"
  shows "(\<exists>msg. msg \<noteq> [] \<and> f = error_frame (class_tag (rejection_class srv name caller)) msg) \<and>
    total_calls srv' = total_calls srv \<and> total_errors srv' = total_errors srv \<and>
    (rejection_class srv name caller \<noteq> PilotRateLimitError \<longrightarrow> srv' = srv)"
  using assms
  by (auto simp: admit_def admit_reg_def rejection_class_def class_tag_def Let_def split_def u_def
      split: option.splits if_splits sum.splits prod.splits)

lemma handle_one_reject:
  assumes "writes_ok env" "read_request rds [] = Inr (Some (JObj ms, buf))" "dict_get ms (u ''node'') = Some (JStr name)"
    "admit srv env (JStr name) (case peer of None \<Rightarrow> 0 | Some (a, _) \<Rightarrow> addr_node a) = (srv', Reject f)"
  shows "handle_one srv env peer rds = (srv', [f], None)"
  using assms(2-4) by (simp add: handle_one_def jget_def Let_def send_chunk_ok [OF assms(1)])

lemma retries_stop:
  assumes "ainvoke_once tx rr input (atts 0) = Some r" "\<And>e. r = Inl e \<Longrightarrow> \<not> transient e"
  shows "ainvoke_with_retries tx rr input atts = (Some r, [])"
proof -
  obtain n where "total_attempts (rr_max_retries rr) = Suc n"
    by (cases "total_attempts (rr_max_retries rr)") (auto simp: total_attempts_def)
  with assms show ?thesis by (cases r) (simp_all add: ainvoke_with_retries_def)
qed

text \<open>
  C9: a rejected call raises the exception of its reason, at once. When the worker turns a
  call away, for an unknown handler, a caller outside the access list, or a limit that is used up,
  the caller raises \<^verbatim>\<open>PilotHandlerNotFoundError\<close>, \<^verbatim>\<open>PilotUnauthorizedError\<close> or \<^verbatim>\<open>PilotRateLimitError\<close>
  with the worker's message, after one attempt and without a delay, however the bytes were cut;
  the worker counts no call, and changes nothing but the limiter.
\<close>

theorem rejected_call_typed:
  assumes req: "reaches rr (atts 0) a" "wf_json (request_of rr (atts 0) input)"
      "fst (aframes tx rr (atts 0) input) = Some (concat rcs)" "\<forall>c \<in> set rcs. c \<noteq> []"
    and adm: "admit srv env (JStr (rr_node rr)) caller = (srv', Reject f)"
      "caller = (case peer of None \<Rightarrow> 0 | Some (ad, _) \<Rightarrow> addr_node ad)" "frame_ok f" "writes_ok env"
    and rep: "concat cs = jf.framed (fst (snd (handle_one srv env peer (map Inr rcs))))" "reads_chunks rr (atts 0) cs"
  shows "\<exists>msg. f = error_frame (class_tag (rejection_class srv (rr_node rr) caller)) msg \<and>
    ainvoke_with_retries tx rr input atts =
      (Some (Inl (PilotRemote (rejection_class srv (rr_node rr) caller) (JStr msg) (Some (addr_str a)) (Some (rr_node rr)))), []) \<and>
    fst (handle_one srv env peer (map Inr rcs)) = srv' \<and>
    total_calls srv' = total_calls srv \<and> total_errors srv' = total_errors srv \<and>
    (rejection_class srv (rr_node rr) caller \<noteq> PilotRateLimitError \<longrightarrow> srv' = srv)"
proof -
  let ?c = "rejection_class srv (rr_node rr) caller"
  obtain ms where ms: "read_request (map Inr rcs) [] = Inr (Some (JObj ms, frame_bytes (JObj ms)))"
      "dict_get ms (u ''node'') = Some (JStr (rr_node rr))"
    by (rule request_arrives [OF req])
  note h = handle_one_reject [OF adm(4) ms adm(1) [unfolded adm(2)]]
  from admit_reject [OF adm(1)] obtain msg where f: "msg \<noteq> []" "f = error_frame (class_tag ?c) msg" by blast
  have fin: "is_final f" using f(2) by (auto simp: is_final_def)
  have "ainvoke_once tx rr input (atts 0) = Some (reply_outcome (rr_node rr) (addr_str a) [] f)"
    by (rule single_reply [OF req(1,2) adm(3) fin _ rep(2)]) (simp add: rep(1) h)
  moreover have "reply_outcome (rr_node rr) (addr_str a) [] f =
      Inl (PilotRemote ?c (JStr msg) (Some (addr_str a)) (Some (rr_node rr)))"
    using typed_frame_error [OF adm(3) [unfolded f(2)] f(1)] f(2) by (simp add: reply_outcome_def)
  ultimately have "ainvoke_with_retries tx rr input atts =
      (Some (Inl (PilotRemote ?c (JStr msg) (Some (addr_str a)) (Some (rr_node rr)))), [])"
    by (intro retries_stop) (auto simp: transient_def)
  then show ?thesis using f(2) h admit_reject [OF adm(1)] by auto
qed

section \<open>Streams\<close>

text \<open>The last frame of a stream, and how the caller sees its end.\<close>

definition end_frame :: "env \<Rightarrow> exn option \<Rightarrow> json" where
  "end_frame env fin =
     (case fin of None \<Rightarrow> ok_frame JNull True
      | Some e \<Rightarrow> error_frame (u ''handler_error'') (exn_name e @ u '': '' @ exn_str env e))"

definition remote_end :: "env \<Rightarrow> pystr \<Rightarrow> pystr \<Rightarrow> exn option \<Rightarrow> gen_end" where
  "remote_end env node peer fin =
     (case fin of None \<Rightarrow> Returned
      | Some e \<Rightarrow> Raised (PilotRemote PilotHandlerError (JStr (exn_name e @ u '': '' @ exn_str env e)) (Some peer) (Some node)))"

definition open_reg :: "registration \<Rightarrow> bool" where
  "open_reg reg \<longleftrightarrow> allow reg = None \<and> reg_limiter reg = None \<and> max_concurrent reg = None \<and> timeout_secs reg = None"

lemma open_admit:
  "dict_get (handlers srv) name = Some r \<Longrightarrow> r < length (regs srv) \<Longrightarrow> open_reg (regs srv ! r) \<Longrightarrow>
   admit srv env (JStr name) caller = (srv, Admit r)"
  by (simp add: admit_def admit_reg_def open_reg_def authorized_def semaphore_def Let_def)

lemma handle_one_stream:
  assumes w: "writes_ok env" and q: "read_request rds [] = Inr (Some (JObj ms, buf))"
    and n: "dict_get ms (u ''node'') = Some (JStr name)" "dict_get ms (u ''payload'') = Some payload"
    and r: "dict_get (handlers srv) name = Some r" "r < length (regs srv)" "open_reg (regs srv ! r)"
      "fn (regs srv ! r) = UserFn f" "fn_kind f = FAsyncGen"
    and m: "middlewares srv = []"
    and f: "\<And>c. fn_call f payload c = Inr (VGen vs fin)"
      "\<And>e. fin = Some e \<Longrightarrow> is_Exception e" "\<And>t. fin \<noteq> Some (TimeoutError t)"
  shows "fst (snd (handle_one srv env peer rds)) = map progress vs @ [end_frame env fin]"
proof -
  have d: "drive srv env (regs srv ! r) [] payload c \<lparr>sent = [], tries = 0\<rparr> = pump env None \<lparr>sent = [], tries = 0\<rparr> 0 vs fin" for c
    using r(3-5) f(1) by (simp add: drive_def open_reg_def call_fn_def Let_def)
  have t: "(case e of TimeoutError _ \<Rightarrow> x | _ \<Rightarrow> y) = y" if "fin = Some e" for e and x y :: pystr
    using f(3) that by (cases e) auto
  from q n m show ?thesis
    using t f(2)
    by (cases fin) (simp_all add: handle_one_def jget_def open_admit [OF r(1-3)] str_json_def run_call_def Let_def d
        pump_all_items [OF w] end_frame_def send_chunk_ok [OF w])
qed

lemma stream_values_progress:
  "list_all wf_json xs \<Longrightarrow>
   stream_values node (map (with_peer peer) (map progress xs) @ fs) fin =
     (let (vs, x) = stream_values node fs fin in (filter (\<lambda>v. v \<noteq> JNull) xs @ vs, x))"
  by (induction xs) (auto simp: progress_def Let_def split_def)

lemma attempt_stream_reply:
  assumes "reaches rr att a" "wf_json (request_of rr att input)" "list_all wf_json vs" "frame_ok (end_frame env fin)"
    "concat cs = jf.framed (map progress vs @ [end_frame env fin])" "good_cut (map progress vs @ [end_frame env fin]) [] cs"
    "reads_chunks rr att cs"
  shows "attempt_stream tx rr input att = (filter (\<lambda>v. v \<noteq> JNull) vs, remote_end env (rr_node rr) (addr_str a) fin)"
proof -
  have i: "is_final (end_frame env fin)" by (auto simp: is_final_def end_frame_def split: option.splits)
  have e: "stream_values (rr_node rr) [with_peer (addr_str a) (end_frame env fin)] Returned = ([], remote_end env (rr_node rr) (addr_str a) fin)"
  proof (cases fin)
    case None
    then show ?thesis by (simp add: end_frame_def remote_end_def)
  next
    case (Some e)
    let ?m = "exn_name e @ u '': '' @ exn_str env e"
    have "frame_error (rr_node rr) (with_peer (addr_str a) (error_frame (class_tag PilotHandlerError) ?m)) =
        PilotRemote PilotHandlerError (JStr ?m) (Some (addr_str a)) (Some (rr_node rr))"
      by (rule typed_frame_error) (use assms(4) Some in \<open>simp_all add: end_frame_def class_tag_def u_def\<close>)
    then show ?thesis using Some assms(4) by (simp add: end_frame_def remote_end_def class_tag_def)
  qed
  show ?thesis
    unfolding attempt_stream_def aframes_reply [OF assms(1,2) reply_ok_frames [OF assms(3,4) i] assms(5-7)]
    using stream_values_progress [OF assms(3), of "rr_node rr" "addr_str a" "[with_peer (addr_str a) (end_frame env fin)]" Returned] e
    by simp
qed


lemma call_request_read:
  assumes "wf_json (call_request name p)"
  shows "read_request (map Inr [frame_bytes (call_request name p)]) [] =
    Inr (Some (JObj [(u ''node'', JStr name), (u ''payload'', p)], frame_bytes (call_request name p)))"
proof -
  have ok: "frame_ok (call_request name p)" using assms by (simp add: frame_ok_def call_request_def)
  have "read_request (map Inr [frame_bytes (call_request name p)]) [] = Inr (Some (call_request name p, frame_bytes (call_request name p)))"
    using read_request_chunks [OF ok, of "[]" "[frame_bytes (call_request name p)]" "[]"] jf.enc_nonempty [OF ok] by simp
  then show ?thesis by (simp only: call_request_def)
qed

lemma good_cut_whole: "good_cut fs [] [jf.framed fs]"
  by (auto simp: good_cut_def take_Cons' jf.framed_def)

theorem rejected_call_typed_witness:
  "\<exists>atts. fst (ainvoke_with_retries sample_texts sample_runnable (JInt 7) atts) =
     Some (Inl (PilotRemote PilotHandlerNotFoundError (JStr (u ''no handler for '' @ bq (u ''echo'')))
       (Some (addr_str \<lparr>addr_network = 0, addr_node = 7\<rparr>)) (Some (u ''echo''))))"
proof -
  let ?rq = "call_request (u ''echo'') (JInt 7)" and ?srv = "server_new []"
  let ?m = "u ''no handler for '' @ bq (u ''echo'')"
  let ?f = "error_frame (u ''handler_not_found'') ?m"
  let ?c = "jf.framed [?f]"
  let ?atts = "\<lambda>_::nat. sample_attempt (zip (replicate (length [?c]) 1) (map Inr [?c]))"
  have nd: "rr_node sample_runnable = u ''echo''" by (simp add: sample_runnable_def)
  have adm: "admit ?srv quiet_env (JStr (rr_node sample_runnable)) 0 = (?srv, Reject ?f)"
    by (simp add: nd admit_def server_new_def register_introspection_def put_handler_def dict_set_def dict_get_def str_json_def)
  have c: "rejection_class ?srv (rr_node sample_runnable) 0 = PilotHandlerNotFoundError"
    by (simp add: nd rejection_class_def server_new_def register_introspection_def put_handler_def dict_set_def dict_get_def)
  have wf: "wf_json ?rq" by (rule sample_request)
  then have ok: "frame_ok ?rq" by (simp add: frame_ok_def call_request_def)
  have fok: "frame_ok ?f" by (simp add: scalar_u bq_def is_scalar_def is_surrogate_def)
  note rd = call_request_read [OF wf]
  have h: "handle_one ?srv quiet_env None (map Inr [frame_bytes ?rq]) = (?srv, [?f], None)"
    by (rule handle_one_reject [OF quiet_writes_ok rd, of "u ''echo''"])
      (use adm nd in \<open>simp_all add: dict_get_def\<close>)
  have "\<exists>msg. ?f = error_frame (class_tag (rejection_class ?srv (rr_node sample_runnable) 0)) msg \<and>
    ainvoke_with_retries sample_texts sample_runnable (JInt 7) ?atts =
      (Some (Inl (PilotRemote (rejection_class ?srv (rr_node sample_runnable) 0) (JStr msg)
         (Some (addr_str \<lparr>addr_network = 0, addr_node = 7\<rparr>)) (Some (rr_node sample_runnable)))), [])"
    using rejected_call_typed [where atts = ?atts and rr = sample_runnable and input = "JInt 7" and tx = sample_texts and peer = None
        and caller = 0 and rcs = "[frame_bytes ?rq]" and cs = "[?c]", OF sample_reaches _ _ _ adm _ fok quiet_writes_ok]
      sample_reads [of "[?c]"] wf jf.enc_nonempty [OF ok] h
    by (simp add: sample_request aframes_reaches [OF sample_reaches])
  then obtain msg where m: "?f = error_frame (class_tag (rejection_class ?srv (rr_node sample_runnable) 0)) msg"
      "ainvoke_with_retries sample_texts sample_runnable (JInt 7) ?atts =
        (Some (Inl (PilotRemote (rejection_class ?srv (rr_node sample_runnable) 0) (JStr msg)
           (Some (addr_str \<lparr>addr_network = 0, addr_node = 7\<rparr>)) (Some (rr_node sample_runnable)))), [])" by blast
  have "msg = ?m" using m(1) by (simp add: error_frame_def)
  with m(2) show ?thesis unfolding c unfolding nd by (intro exI [of _ ?atts]) simp
qed

text \<open>A generator that yields two numbers and a null.\<close>

definition steps_fn :: user_fn where
  "steps_fn = \<lparr>fn_kind = FAsyncGen, fn_signature = Some [PositionalOrKeyword], fn_call = (\<lambda>_ _. Inr (VGen [JInt 1, JNull, JInt 2] None))\<rparr>"

definition steps_server :: server where
  "steps_server = register (server_new []) (u ''echo'') (UserFn steps_fn) default_options"

lemma steps_lookup:
  "dict_get (handlers steps_server) (u ''echo'') = Some 2" "2 < length (regs steps_server)"
  "open_reg (regs steps_server ! 2)" "fn (regs steps_server ! 2) = UserFn steps_fn" "middlewares steps_server = []"
  by (simp_all add: steps_server_def register_def put_handler_def server_new_def register_introspection_def dict_get_def dict_set_def
      open_reg_def new_registration_def default_options_def)


end
