(* ===== verification/Tracing.thy ===== *)
theory Tracing
  imports Remote_Call
begin

text \<open>
  \<^verbatim>\<open>_otel.py\<close> and the two places that use it: the client span of \<^verbatim>\<open>PilotRemoteRunnable.ainvoke\<close> and the
  server span of \<^verbatim>\<open>WorkerServer._handle_one\<close>. The package \<^verbatim>\<open>opentelemetry\<close> is a parameter: what
  \<^verbatim>\<open>extract\<close> returns for a carrier and what \<^verbatim>\<open>inject\<close> adds to one. Starting and ending spans, attaching and
  detaching contexts are events of a trace; as its API promises, these calls do not raise. A body that
  runs inside a span is a function of the trace, with the outcome and the trace that follows.
\<close>

section \<open>The hooks\<close>

datatype span_kind = CLIENT | SERVER

datatype 'c otel_event =
    Attach 'c
  | Detach
  | SpanStart pystr span_kind "(pystr, json) dict"
  | SetError pystr
  | RecordException exn
  | SpanEnd

text \<open>The package: \<open>ctx_true\<close> is the truth value of a context object.\<close>

record 'c otel =
  otel_extract :: "json \<Rightarrow> 'c result"
  otel_inject :: "(pystr, json) dict \<Rightarrow> (pystr, json) dict"
  ctx_true :: "'c \<Rightarrow> bool"

text \<open>\<open>None\<close> when the import failed.\<close>

definition is_available :: "'c otel option \<Rightarrow> bool" where
  "is_available ot \<longleftrightarrow> ot \<noteq> None"

definition inject_traceparent :: "'c otel option \<Rightarrow> (pystr, json) dict \<Rightarrow> (pystr, json) dict" where
  "inject_traceparent ot carrier = (case ot of None \<Rightarrow> carrier | Some p \<Rightarrow> otel_inject p carrier)"

definition extract_context :: "'c otel option \<Rightarrow> json \<Rightarrow> 'c option result" where
  "extract_context ot carrier = (case ot of None \<Rightarrow> Inr None | Some p \<Rightarrow> rmap Some (otel_extract p carrier))"

text \<open>The \<^verbatim>\<open>with\<close> block of both spans; \<open>raised\<close> is the exception that leaves the body.\<close>

definition in_span ::
    "(exn \<Rightarrow> pystr) \<Rightarrow> ('r \<Rightarrow> exn option) \<Rightarrow> pystr \<Rightarrow> span_kind \<Rightarrow> (pystr, json) dict \<Rightarrow> ('c otel_event list \<Rightarrow> 'r \<times> 'c otel_event list) \<Rightarrow>
     'c otel_event list \<Rightarrow> 'r \<times> 'c otel_event list" where
  "in_span str raised name kind attrs body tr =
     (let (r, tr1) = body (tr @ [SpanStart name kind attrs])
      in (r, tr1 @ (case raised r of None \<Rightarrow> [] | Some e \<Rightarrow> [SetError (str e), RecordException e]) @ [SpanEnd]))"

definition span_attrs :: "pystr \<Rightarrow> pystr \<Rightarrow> json \<Rightarrow> (pystr, json) dict" where
  "span_attrs node key who =
     [(u ''pilot.node'', JStr node), (key, who), (u ''rpc.system'', JStr (u ''pilot'')),
      (u ''rpc.service'', JStr (u ''pilot_langgraph'')), (u ''rpc.method'', JStr node)]"

definition client_span ::
    "'c otel option \<Rightarrow> (exn \<Rightarrow> pystr) \<Rightarrow> ('r \<Rightarrow> exn option) \<Rightarrow> pystr \<Rightarrow> pystr \<Rightarrow> (pystr, json) dict \<Rightarrow>
     ('c otel_event list \<Rightarrow> 'r \<times> 'c otel_event list) \<Rightarrow> 'c otel_event list \<Rightarrow> 'r \<times> 'c otel_event list" where
  "client_span ot str raised node peer attributes body tr =
     (if \<not> is_available ot then body tr
      else in_span str raised (u ''pilot.call '' @ node) CLIENT
             (foldl (\<lambda>d (k, v). dict_set d k v) (span_attrs node (u ''pilot.peer'') (JStr peer)) attributes) body tr)"

definition server_span ::
    "'c otel option \<Rightarrow> (exn \<Rightarrow> pystr) \<Rightarrow> ('r \<Rightarrow> exn option) \<Rightarrow> (exn \<Rightarrow> 'r) \<Rightarrow> pystr \<Rightarrow> int \<Rightarrow> json \<Rightarrow>
     ('c otel_event list \<Rightarrow> 'r \<times> 'c otel_event list) \<Rightarrow> 'c otel_event list \<Rightarrow> 'r \<times> 'c otel_event list" where
  "server_span ot str raised fail node caller carrier body tr =
     (case ot of
        None \<Rightarrow> body tr
      | Some p \<Rightarrow>
          (case (if truthy carrier then rmap Some (otel_extract p carrier) else Inr None) of
             Inl e \<Rightarrow> (fail e, tr)
           | Inr parent \<Rightarrow>
               (let run = in_span str raised (u ''pilot.handle '' @ node) SERVER
                            (span_attrs node (u ''pilot.caller_node_id'') (JInt caller)) body
                in case parent of
                     Some c \<Rightarrow>
                       if ctx_true p c then (let (r, tr1) = run (tr @ [Attach c]) in (r, tr1 @ [Detach])) else run tr
                   | None \<Rightarrow> run tr)))"

section \<open>The traced call\<close>

text \<open>\<^verbatim>\<open>ainvoke\<close> with its span: what runs inside is the retry loop and the output validation.\<close>

definition in_client_span :: "texts \<Rightarrow> remote_runnable \<Rightarrow> json \<Rightarrow> (nat \<Rightarrow> attempt) \<Rightarrow> json result option \<times> callback list" where
  "in_client_span tx rr wire_input atts =
     (case fst (ainvoke_with_retries tx rr wire_input atts) of
        None \<Rightarrow> (None, [ChainStart])
      | Some (Inl e) \<Rightarrow> (Some (Inl e), [ChainStart, ChainError e])
      | Some (Inr v) \<Rightarrow>
          (case client_validate tx (u ''output'') (rr_output_model rr) v of
             Inl e \<Rightarrow> (Some (Inl e), ChainStart # (if is_Exception e then [ChainError e] else []))
           | Inr w \<Rightarrow> (Some (Inr w), [ChainStart, ChainEnd w])))"

definition call_raised :: "json result option \<times> callback list \<Rightarrow> exn option" where
  "call_raised r = (case fst r of Some (Inl e) \<Rightarrow> Some e | _ \<Rightarrow> None)"

text \<open>\<open>inner\<close> are the events of spans that run inside the call.\<close>

definition traced_ainvoke ::
    "'c otel option \<Rightarrow> (exn \<Rightarrow> pystr) \<Rightarrow> pystr \<Rightarrow> texts \<Rightarrow> remote_runnable \<Rightarrow> json \<Rightarrow> (nat \<Rightarrow> attempt) \<Rightarrow> 'c otel_event list \<Rightarrow>
     'c otel_event list \<Rightarrow> (json result option \<times> callback list) \<times> 'c otel_event list" where
  "traced_ainvoke ot str peer tx rr input atts inner tr =
     (case client_validate tx (u ''input'') (rr_input_model rr) input of
        Inl e \<Rightarrow> ((Some (Inl e), ChainStart # (if is_Exception e then [ChainError e] else [])), tr)
      | Inr wire_input \<Rightarrow>
          client_span ot str call_raised (rr_node rr) peer [] (\<lambda>t. (in_client_span tx rr wire_input atts, t @ inner)) tr)"

text \<open>
  The end of \<^verbatim>\<open>_handle_one\<close>: the handler runs inside the server span, in the concurrency window, and
  the outcome is counted and answered after it.
\<close>

definition finish_call :: "server \<Rightarrow> env \<Rightarrow> nat \<Rightarrow> wire \<times> exn option \<Rightarrow> server \<times> json list \<times> exn option" where
  "finish_call srv env r = (\<lambda>(w, x).
     (let srv1 = release srv r;
          lat = (e_t_end env - e_t_start env) * 1000
      in case x of
           None \<Rightarrow> (count_call srv1 r False lat, sent w, None)
         | Some e \<Rightarrow>
             if \<not> is_Exception e then (srv1, sent w, Some e)
             else (let msg = (case e of
                        TimeoutError _ \<Rightarrow>
                          u ''timeout after '' @
                          (case timeout_secs (regs srv ! r) of None \<Rightarrow> u ''None'' | Some t \<Rightarrow> e_repr env t) @ u ''s''
                      | _ \<Rightarrow> exn_name e @ u '': '' @ exn_str env e);
                       (w', y) = send_chunk env w (error_frame (u ''handler_error'') msg)
                   in (count_call srv1 r True lat, sent w', y))))"

definition traced_run_call ::
    "'c otel option \<Rightarrow> server \<Rightarrow> env \<Rightarrow> nat \<Rightarrow> pystr \<Rightarrow> json \<Rightarrow> Context \<Rightarrow> json \<Rightarrow> 'c otel_event list \<Rightarrow> 'c otel_event list \<Rightarrow>
     (server \<times> json list \<times> exn option) \<times> 'c otel_event list" where
  "traced_run_call ot srv env r name payload c traceparent inner tr =
     (let mws = (if starts_with_cp UNDERSCORE name then [] else middlewares srv);
          w = \<lparr>sent = [], tries = 0\<rparr>;
          (out, tr1) = server_span ot (exn_str env) snd (\<lambda>e. (w, Some e)) name (caller_node_id c) traceparent
            (\<lambda>t. (drive srv env (regs srv ! r) mws payload c w, t @ inner)) tr
      in (finish_call srv env r out, tr1))"

text \<open>\<^verbatim>\<open>req.get("traceparent") if isinstance(req, dict) else None\<close>.\<close>

definition request_carrier :: "json \<Rightarrow> json" where
  "request_carrier req =
     (case req of JObj ms \<Rightarrow> (case dict_get ms (u ''traceparent'') of None \<Rightarrow> JNull | Some v \<Rightarrow> v) | _ \<Rightarrow> JNull)"

section \<open>Nesting\<close>

text \<open>
  Spans and attached contexts are brackets; an error is reported while its span is the innermost open bracket.
  The stack holds True for a span and False for an attached context.
\<close>

fun nest :: "'c otel_event list \<Rightarrow> bool list \<Rightarrow> bool list option" where
  "nest [] st = Some st"
| "nest (Attach _ # es) st = nest es (False # st)"
| "nest (SpanStart _ _ _ # es) st = nest es (True # st)"
| "nest (Detach # es) (False # st) = nest es st"
| "nest (SpanEnd # es) (True # st) = nest es st"
| "nest (SetError _ # es) (True # st) = nest es (True # st)"
| "nest (RecordException _ # es) (True # st) = nest es (True # st)"
| "nest _ _ = None"

definition well_nested :: "'c otel_event list \<Rightarrow> bool" where
  "well_nested es \<longleftrightarrow> nest es [] = Some []"

definition recorded :: "'c otel_event list \<Rightarrow> exn list" where
  "recorded es = concat (map (\<lambda>ev. case ev of RecordException e \<Rightarrow> [e] | _ \<Rightarrow> []) es)"

lemma nest_append: "nest (a @ b) st = Option.bind (nest a st) (nest b)"
  by (induction a st rule: nest.induct) auto

lemma nest_deeper: "nest a st = Some st' \<Longrightarrow> nest a (st @ rest) = Some (st' @ rest)"
  by (induction a st arbitrary: st' rule: nest.induct) auto

lemma well_nested_inside: "well_nested es \<Longrightarrow> nest (es @ b) st = nest b st"
  using nest_deeper [of es "[]" "[]" st] by (simp add: well_nested_def nest_append)

lemma recorded_simps [simp]:
  "recorded [] = []" "recorded (a @ b) = recorded a @ recorded b"
  "recorded (ev # es) = (case ev of RecordException e \<Rightarrow> [e] | _ \<Rightarrow> []) @ recorded es"
  by (simp_all add: recorded_def)

text \<open>What a span adds to the trace: it is nested, and reports exactly the exception that leaves the body.\<close>

definition closes :: "exn option \<Rightarrow> 'c otel_event list \<Rightarrow> 'c otel_event list \<Rightarrow> bool" where
  "closes x inner es \<longleftrightarrow> well_nested es \<and> recorded es = recorded inner @ (case x of None \<Rightarrow> [] | Some e \<Rightarrow> [e])"

lemma in_span_closes:
  assumes "well_nested inner"
  shows "\<exists>es. in_span str raised name kind attrs (\<lambda>t. (r, t @ inner)) tr = (r, tr @ es) \<and> closes (raised r) inner es"
  using assms
  by (auto simp: in_span_def closes_def well_nested_def [of "_ # _"] well_nested_inside split: option.splits)

lemma client_span_closes:
  assumes "well_nested inner"
  shows "\<exists>es. client_span ot str raised node peer attributes (\<lambda>t. (r, t @ inner)) tr = (r, tr @ es) \<and>
    closes (if is_available ot then raised r else None) inner es"
proof (cases "is_available ot")
  case True
  then show ?thesis unfolding client_span_def by simp (rule in_span_closes [OF assms])
next
  case False
  with assms show ?thesis by (simp add: client_span_def closes_def)
qed

text \<open>What the package promises of \<^verbatim>\<open>extract\<close>: it returns a context for every carrier it is given.\<close>

definition extracts :: "'c otel option \<Rightarrow> json \<Rightarrow> bool" where
  "extracts ot carrier \<longleftrightarrow> (case ot of None \<Rightarrow> True | Some p \<Rightarrow> \<exists>c. otel_extract p carrier = Inr c)"

lemma server_span_closes:
  assumes "well_nested inner" "extracts ot carrier"
  shows "\<exists>es. server_span ot str raised fail node caller carrier (\<lambda>t. (r, t @ inner)) tr = (r, tr @ es) \<and>
    closes (if is_available ot then raised r else None) inner es"
proof (cases ot)
  case None
  then show ?thesis using assms by (simp add: server_span_def closes_def is_available_def)
next
  case (Some p)
  let ?run = "in_span str raised (u ''pilot.handle '' @ node) SERVER (span_attrs node (u ''pilot.caller_node_id'') (JInt caller)) (\<lambda>t. (r, t @ inner))"
  obtain c where c: "otel_extract p carrier = Inr c" using assms(2) Some by (auto simp: extracts_def)
  show ?thesis
  proof (cases "truthy carrier \<and> ctx_true p c")
    case True
    obtain es where "?run (tr @ [Attach c]) = (r, (tr @ [Attach c]) @ es)" "closes (raised r) inner es"
      by (rule exE [OF in_span_closes [OF assms(1), of str raised "u ''pilot.handle '' @ node" SERVER
            "span_attrs node (u ''pilot.caller_node_id'') (JInt caller)" r "tr @ [Attach c]"]]) blast
    moreover have "closes (raised r) inner (Attach c # es @ [Detach])" if "closes (raised r) inner es" for es
      using that by (auto simp: closes_def well_nested_inside, simp add: well_nested_def well_nested_inside)
    ultimately show ?thesis using True Some c by (simp add: server_span_def is_available_def Let_def)
  next
    case False
    with in_span_closes [OF assms(1), of str raised "u ''pilot.handle '' @ node" SERVER] Some c show ?thesis
      by (auto simp: server_span_def is_available_def)
  qed
qed

section \<open>Properties\<close>

lemma run_call_finish:
  "run_call srv env r name payload c =
   finish_call srv env r (drive srv env (regs srv ! r) (if starts_with_cp UNDERSCORE name then [] else middlewares srv)
     payload c \<lparr>sent = [], tries = 0\<rparr>)"
  by (simp add: run_call_def finish_call_def Let_def split_def)

lemma ainvoke_in_span:
  "ainvoke tx rr input atts =
   (case client_validate tx (u ''input'') (rr_input_model rr) input of
      Inl e \<Rightarrow> (Some (Inl e), ChainStart # (if is_Exception e then [ChainError e] else []))
    | Inr w \<Rightarrow> in_client_span tx rr w atts)"
  by (simp add: ainvoke_def in_client_span_def cong: sum.case_cong)


text \<open>
  The spans of a call form one trace. When the caller's package injects a carrier into the
  request, the worker reads the same carrier, however the request was cut on the way, and runs the handler in
  a span started under the context that its package extracts from it.
\<close>

theorem trace_propagates:
  assumes "reaches rr att a" "wf_json (request_of rr att input)" "fst (aframes tx rr att input) = Some (concat rcs)"
    "\<forall>ch \<in> set rcs. ch \<noteq> []" "a_traceparent att = inject_traceparent ot []" "inject_traceparent ot [] \<noteq> []"
    "otel_extract q (JObj (inject_traceparent ot [])) = Inr c" "ctx_true q c"
  shows "\<exists>req buf rest. read_request (map Inr rcs) [] = Inr (Some (req, buf)) \<and>
    snd (traced_run_call (Some q) srv env r name payload cx (request_carrier req) inner tr) =
      tr @ Attach c # SpanStart (u ''pilot.handle '' @ name) SERVER
        (span_attrs name (u ''pilot.caller_node_id'') (JInt (caller_node_id cx))) # inner @ rest"
proof -
  let ?rq = "request_of rr att input"
  note rd = request_read [OF assms(1-4)]
  have cr: "request_carrier ?rq = JObj (inject_traceparent ot [])"
    using assms(5,6) by (simp add: request_carrier_def request_of_def dict_get_def)
  moreover have "truthy (JObj (inject_traceparent ot []))" using assms(6) by simp
  ultimately have "\<exists>rest. snd (traced_run_call (Some q) srv env r name payload cx (request_carrier ?rq) inner tr) =
      tr @ Attach c # SpanStart (u ''pilot.handle '' @ name) SERVER
        (span_attrs name (u ''pilot.caller_node_id'') (JInt (caller_node_id cx))) # inner @ rest"
    using assms(7,8) by (simp add: traced_run_call_def server_span_def in_span_def Let_def split_def)
  with rd show ?thesis by blast
qed

text \<open>A package whose context is the carrier itself.\<close>

definition sample_otel :: "(pystr, json) dict otel" where
  "sample_otel =
     \<lparr>otel_extract = (\<lambda>v. Inr (case v of JObj d \<Rightarrow> d | _ \<Rightarrow> [])),
      otel_inject = (\<lambda>d. dict_set d (u ''traceparent'') (JStr (u ''00-1''))), ctx_true = (\<lambda>d. d \<noteq> [])\<rparr>"


theorem trace_propagates_witness:
  "\<exists>req buf rest. read_request (map Inr [frame_bytes (request_of sample_runnable
       (sample_attempt []\<lparr>a_traceparent := inject_traceparent (Some sample_otel) []\<rparr>) (JInt 7))]) [] = Inr (Some (req, buf)) \<and>
    snd (traced_run_call (Some sample_otel) (echo_server default_options) quiet_env 2 (u ''echo'') (JInt 7)
      (Context.make 4 \<lparr>addr_network = 0, addr_node = 4\<rparr> 0 [] 0 []) (request_carrier req) [] []) =
    Attach [(u ''traceparent'', JStr (u ''00-1''))] #
      SpanStart (u ''pilot.handle '' @ u ''echo'') SERVER (span_attrs (u ''echo'') (u ''pilot.caller_node_id'') (JInt 4)) # rest"
proof -
  let ?att = "sample_attempt []\<lparr>a_traceparent := inject_traceparent (Some sample_otel) []\<rparr>"
  let ?rq = "request_of sample_runnable ?att (JInt 7)"
  have i: "inject_traceparent (Some sample_otel) [] = [(u ''traceparent'', JStr (u ''00-1''))]"
    by (simp add: inject_traceparent_def sample_otel_def dict_set_def)
  have r: "reaches sample_runnable ?att \<lparr>addr_network = 0, addr_node = 7\<rparr>"
    by (simp add: reaches_def sample_runnable_def sample_attempt_def resolve_peer_def)
  have wf: "wf_json ?rq" by (simp add: request_of_def i sample_runnable_def scalar_u)
  have ne: "frame_bytes ?rq \<noteq> []" by (rule jf.enc_nonempty) (use wf in \<open>simp add: frame_ok_def request_of_def\<close>)
  have f: "fst (aframes sample_texts sample_runnable ?att (JInt 7)) = Some (concat [frame_bytes ?rq])"
    by (simp only: aframes_reaches [OF r wf] fst_conv concat.simps append_Nil2)
  have h: "\<forall>ch \<in> set [frame_bytes ?rq]. ch \<noteq> []"
      "a_traceparent ?att = inject_traceparent (Some sample_otel) []" "inject_traceparent (Some sample_otel) [] \<noteq> []"
      "otel_extract sample_otel (JObj (inject_traceparent (Some sample_otel) [])) = Inr [(u ''traceparent'', JStr (u ''00-1''))]"
      "ctx_true sample_otel [(u ''traceparent'', JStr (u ''00-1''))]"
    using ne i by (simp_all, simp_all add: sample_otel_def)
  show ?thesis
    using trace_propagates [OF r wf f h, of "echo_server default_options" quiet_env 2 "u ''echo''" "JInt 7"
        "Context.make 4 \<lparr>addr_network = 0, addr_node = 4\<rparr> 0 [] 0 []" "[]" "[]"]
    by (simp only: append_Nil Context.defs Context.select_convs)
qed

end
