(* ===== verification/Trust.thy ===== *)
theory Trust
  imports Client Runnables
begin

text \<open>
  \<^verbatim>\<open>trust.py\<close>: reaching mutual trust with a peer. The daemon's answers and the clock are inputs, one
  entry per query. \<^verbatim>\<open>int(x)\<close> is modelled for JSON integers and booleans; for a string or a float in
  place of a node id the model stops with \<open>UnmodelledType\<close>.
\<close>

section \<open>Entries of the trust list\<close>

definition py_int :: "json \<Rightarrow> int result" where
  "py_int v =
     (case v of
        JInt n \<Rightarrow> Inr n
      | JBool b \<Rightarrow> Inr (if b then 1 else 0)
      | JStr _ \<Rightarrow> Inl UnmodelledType
      | JFloat _ \<Rightarrow> Inl UnmodelledType
      | _ \<Rightarrow> Inl (TypeError (u ''int() argument must be a string, a bytes-like object or a real number'')))"

text \<open>Iterating over a parsed value.\<close>

definition iterate :: "json \<Rightarrow> json list result" where
  "iterate v =
     (case v of
        JArr xs \<Rightarrow> Inr xs
      | JObj ms \<Rightarrow> Inr (map (JStr \<circ> fst) ms)
      | JStr s \<Rightarrow> Inr (map (\<lambda>c. JStr [c]) s)
      | _ \<Rightarrow> Inl (TypeError (u ''object is not iterable'')))"

text \<open>\<^verbatim>\<open>int(entry.get("node_id", -1))\<close>.\<close>

definition entry_node :: "json \<Rightarrow> int result" where
  "entry_node e =
     (case e of
        JObj ms \<Rightarrow> py_int (case dict_get ms (u ''node_id'') of None \<Rightarrow> JInt (- 1) | Some v \<Rightarrow> v)
      | _ \<Rightarrow> Inl AttributeError)"

definition is_node :: "int \<Rightarrow> json \<Rightarrow> bool result" where
  "is_node node e = rmap (\<lambda>n. n = node) (entry_node e)"

definition is_mutual_entry :: "int \<Rightarrow> json \<Rightarrow> bool result" where
  "is_mutual_entry node e =
     rbind (is_node node e) (\<lambda>b. if b then rmap (\<lambda>m. m = JBool True) (jget e (u ''mutual'')) else Inr False)"

fun find_entry :: "(json \<Rightarrow> bool result) \<Rightarrow> json list \<Rightarrow> json option result" where
  "find_entry p [] = Inr None"
| "find_entry p (e # es) = rbind (p e) (\<lambda>b. if b then Inr (Some e) else find_entry p es)"

definition find_in :: "(json \<Rightarrow> bool result) \<Rightarrow> json result \<Rightarrow> json option result" where
  "find_in p reply = rbind reply (\<lambda>l. rbind (iterate l) (find_entry p))"

definition is_mutual :: "json result \<Rightarrow> int \<Rightarrow> bool result" where
  "is_mutual reply node = rmap (\<lambda>e. e \<noteq> None) (find_in (is_mutual_entry node) reply)"

section \<open>ensure_trust\<close>

definition trust_timeout :: "texts \<Rightarrow> int \<Rightarrow> rat \<Rightarrow> exn" where
  "trust_timeout tx node timeout =
     TimeoutError (u ''trust with node_id='' @ str_int node @ u '' did not become mutual within '' @ t_repr tx timeout @ u ''s '' @
       [8212] @ u '' is the remote daemon running with --trust-auto-approve, or has the remote operator approved the pending handshake?'')"

text \<open>
  The polling loop: for every turn the clock when it starts and the answer to its query. \<open>None\<close>
  while it goes on.
\<close>

fun poll :: "texts \<Rightarrow> int \<Rightarrow> rat \<Rightarrow> rat \<Rightarrow> (rat \<times> json result) list \<Rightarrow> json result option" where
  "poll tx node timeout deadline [] = None"
| "poll tx node timeout deadline ((now, reply) # turns) =
     (if now < deadline then
        (case find_in (is_mutual_entry node) reply of
           Inl e \<Rightarrow> Some (Inl e)
         | Inr (Some entry) \<Rightarrow> Some (Inr entry)
         | Inr None \<Rightarrow> poll tx node timeout deadline turns)
      else Some (Inl (trust_timeout tx node timeout)))"

text \<open>
  What the daemon answers: to connecting, to the first query and to the second one (made when the
  first shows mutual trust), to the handshake, the clock after it, and to the polls.
\<close>

record trust_io =
  t_connect :: "exn option"
  t_first :: "json result"
  t_second :: "json result"
  t_handshake :: "json result"
  t_start :: rat
  t_polls :: "(rat \<times> json result) list"

text \<open>The result, \<open>None\<close> while the call goes on, and whether the handshake was sent.\<close>

definition ensure_trust :: "texts \<Rightarrow> int \<Rightarrow> rat \<Rightarrow> trust_io \<Rightarrow> json result option \<times> bool" where
  "ensure_trust tx node timeout io =
     (case t_connect io of
        Some e \<Rightarrow> (Some (Inl e), False)
      | None \<Rightarrow>
          (case rbind (is_mutual (t_first io) node) (\<lambda>b. if b then find_in (is_node node) (t_second io) else Inr None) of
             Inl e \<Rightarrow> (Some (Inl e), False)
           | Inr (Some entry) \<Rightarrow> (Some (Inr entry), False)
           | Inr None \<Rightarrow>
               (case t_handshake io of
                  Inl e \<Rightarrow> (Some (Inl e), True)
                | Inr _ \<Rightarrow> (poll tx node timeout (t_start io + timeout) (t_polls io), True))))"

text \<open>The exit code of the command line tool.\<close>

definition trust_main :: "json result \<Rightarrow> int result" where
  "trust_main r =
     (case r of
        Inl (TimeoutError _) \<Rightarrow> Inr 2
      | Inl e \<Rightarrow> Inl e
      | Inr entry \<Rightarrow> rbind (jindex entry (u ''node_id'')) (\<lambda>_. rmap (\<lambda>_. 0) (jget entry (u ''public_key''))))"

section \<open>Properties\<close>

lemma find_entry_sound: "find_entry p es = Inr (Some e) \<Longrightarrow> e \<in> set es \<and> p e = Inr True"
  by (induction es) (auto simp: rbind_eq_Inr split: if_splits)

lemma find_in_sound: "find_in p reply = Inr (Some e) \<Longrightarrow> p e = Inr True"
  by (auto simp: find_in_def rbind_eq_Inr dest: find_entry_sound)

lemma is_mutual_entry_True:
  "is_mutual_entry node e = Inr True \<longleftrightarrow> entry_node e = Inr node \<and> jget e (u ''mutual'') = Inr (JBool True)"
  by (cases "entry_node e"; cases "jget e (u ''mutual'')") (auto simp: is_mutual_entry_def is_node_def)

lemma poll_found:
  "poll tx node timeout deadline turns = Some (Inr entry) \<Longrightarrow>
     \<exists>(now, reply) \<in> set turns. now < deadline \<and> find_in (is_mutual_entry node) reply = Inr (Some entry)"
  by (induction tx node timeout deadline turns rule: poll.induct) (auto split: sum.splits option.splits if_splits)

text \<open>
  C37: what \<^verbatim>\<open>ensure_trust\<close> returns is an entry of the peer asked for; if it had to send the handshake,
  the entry says that the trust is mutual and was read before the deadline.
\<close>

theorem ensure_trust_sound:
  assumes "ensure_trust tx node timeout io = (Some (Inr entry), handshaken)"
  shows "entry_node entry = Inr node \<and>
    (handshaken \<longrightarrow> jget entry (u ''mutual'') = Inr (JBool True) \<and>
       (\<exists>(now, reply) \<in> set (t_polls io). now < t_start io + timeout \<and> find_in (is_mutual_entry node) reply = Inr (Some entry)))"
proof -
  let ?early = "rbind (is_mutual (t_first io) node) (\<lambda>b. if b then find_in (is_node node) (t_second io) else Inr None)"
  from assms have c: "t_connect io = None" by (auto simp: ensure_trust_def split: option.splits)
  show ?thesis
  proof (cases ?early)
    case (Inr x)
    show ?thesis
    proof (cases x)
      case None
      with assms c Inr have h: "handshaken" "poll tx node timeout (t_start io + timeout) (t_polls io) = Some (Inr entry)"
        by (auto simp: ensure_trust_def split: sum.splits)
      from poll_found [OF h(2)] obtain now reply where f: "(now, reply) \<in> set (t_polls io)" "now < t_start io + timeout"
          "find_in (is_mutual_entry node) reply = Inr (Some entry)" by blast
      from find_in_sound [OF f(3)] have "entry_node entry = Inr node" "jget entry (u ''mutual'') = Inr (JBool True)"
        by (simp_all add: is_mutual_entry_True)
      moreover from f have "\<exists>(now, reply) \<in> set (t_polls io). now < t_start io + timeout \<and>
          find_in (is_mutual_entry node) reply = Inr (Some entry)" by blast
      ultimately show ?thesis by blast
    next
      case (Some e)
      with assms c Inr have "e = entry" "\<not> handshaken" by (auto simp: ensure_trust_def)
      moreover from Inr Some have "find_in (is_node node) (t_second io) = Inr (Some e)" by (auto simp: rbind_eq_Inr split: if_splits)
      from find_in_sound [OF this] have "entry_node e = Inr node" by (auto simp: is_node_def rmap_eq_Inr)
      ultimately show ?thesis by simp
    qed
  qed (use assms c in \<open>auto simp: ensure_trust_def\<close>)
qed

lemma poll_bounded:
  assumes "turns \<noteq> []" "deadline \<le> fst (last turns)"
  shows "poll tx node timeout deadline turns \<noteq> None"
  using assms
proof (induction turns)
  case (Cons t ts)
  obtain now reply where "t = (now, reply)" by (cases t)
  with Cons show ?case by (cases "ts = []") (auto split: sum.splits option.splits)
qed simp

text \<open>
  \<^verbatim>\<open>ensure_trust\<close> ends. If the polls are at least \<^verbatim>\<open>poll_interval\<close> apart, the call has returned or
  raised after at most \<^verbatim>\<open>timeout_secs / poll_interval + 1\<close> of them, whatever the daemon answers.
\<close>

theorem ensure_trust_ends:
  assumes "0 < interval" "t_polls io \<noteq> []" "timeout \<le> of_nat (length (t_polls io) - 1) * interval"
    "\<forall>i < length (t_polls io). t_start io + of_nat i * interval \<le> fst (t_polls io ! i)"
  shows "fst (ensure_trust tx node timeout io) \<noteq> None"
proof -
  have "t_start io + of_nat (length (t_polls io) - 1) * interval \<le> fst (last (t_polls io))"
    using assms(2,4) by (simp add: last_conv_nth)
  with assms(3) have "t_start io + timeout \<le> fst (last (t_polls io))" by linarith
  from poll_bounded [OF assms(2) this] show ?thesis
    by (auto simp: ensure_trust_def split: option.splits sum.splits)
qed

definition sample_io :: trust_io where
  "sample_io = \<lparr>t_connect = None, t_first = Inr (JArr []), t_second = Inr (JArr []), t_handshake = Inr (JObj []), t_start = 0,
     t_polls = [(0, Inr (JArr [])), (1, Inr (JArr [JObj [(u ''node_id'', JInt 7), (u ''mutual'', JBool True)]]))]\<rparr>"

lemmas trust_simps = ensure_trust_def is_mutual_def find_in_def iterate_def is_mutual_entry_def is_node_def entry_node_def py_int_def jget_def dict_get_def

theorem ensure_trust_sound_witness:
  "ensure_trust \<lparr>t_repr = (\<lambda>_. []), t_exn = (\<lambda>_. [])\<rparr> 7 30 sample_io =
     (Some (Inr (JObj [(u ''node_id'', JInt 7), (u ''mutual'', JBool True)])), True) \<and>
   entry_node (JObj [(u ''node_id'', JInt 7), (u ''mutual'', JBool True)]) = Inr 7"
proof -
  have "ensure_trust \<lparr>t_repr = (\<lambda>_. []), t_exn = (\<lambda>_. [])\<rparr> 7 30 sample_io =
     (Some (Inr (JObj [(u ''node_id'', JInt 7), (u ''mutual'', JBool True)])), True)"
    by (simp add: trust_simps sample_io_def)
  with ensure_trust_sound [OF this] show ?thesis by blast
qed

theorem ensure_trust_ends_witness:
  "fst (ensure_trust \<lparr>t_repr = (\<lambda>_. []), t_exn = (\<lambda>_. [])\<rparr> 7 1 sample_io) \<noteq> None"
  by (rule ensure_trust_ends [of 1]) (auto simp: sample_io_def less_Suc_eq)

end
