(* ===== verification/Discover.thy ===== *)
theory Discover
  imports Saver Trust Server_Props
begin

text \<open>
  \<^verbatim>\<open>src/tools/discover.py\<close>: the report on a remote worker, printed from the replies of its \<^verbatim>\<open>_health\<close> and
  \<^verbatim>\<open>_handlers\<close> handlers. The texts of floats are parameters.
\<close>

section \<open>Formatting\<close>

record formats =
  f_float :: "pystr \<Rightarrow> pystr"
  f_repr :: "json \<Rightarrow> pystr"
  f_g :: "json \<Rightarrow> pystr"
  f_0f :: "json \<Rightarrow> pystr"

definition ljust :: "nat \<Rightarrow> pystr \<Rightarrow> pystr" where
  "ljust n s = s @ replicate (n - length s) 32"

definition rjust :: "nat \<Rightarrow> pystr \<Rightarrow> pystr" where
  "rjust n s = replicate (n - length s) 32 @ s"

text \<open>\<^verbatim>\<open>f"{v}"\<close>, \<^verbatim>\<open>f"{v:<n}"\<close> and \<^verbatim>\<open>f"{v:>n}"\<close>, and a number format such as \<^verbatim>\<open>f"{v:g}"\<close>.\<close>

definition text_of :: "formats \<Rightarrow> json \<Rightarrow> pystr" where
  "text_of fm v =
     (case v of
        JNull \<Rightarrow> u ''None'' | JBool b \<Rightarrow> if b then u ''True'' else u ''False'' | JInt n \<Rightarrow> str_int n
      | JFloat l \<Rightarrow> f_float fm l | JStr s \<Rightarrow> s | _ \<Rightarrow> f_repr fm v)"

definition padded :: "formats \<Rightarrow> (pystr \<Rightarrow> pystr) \<Rightarrow> json \<Rightarrow> pystr result" where
  "padded fm pad v =
     (case v of
        JStr s \<Rightarrow> Inr (pad s) | JInt n \<Rightarrow> Inr (pad (str_int n)) | JFloat l \<Rightarrow> Inr (pad (f_float fm l))
      | JBool b \<Rightarrow> Inr (pad (str_int (if b then 1 else 0)))
      | _ \<Rightarrow> Inl (TypeError (u ''unsupported format string'')))"

definition num_format :: "(json \<Rightarrow> pystr) \<Rightarrow> json \<Rightarrow> pystr result" where
  "num_format f v =
     (case v of
        JInt _ \<Rightarrow> Inr (f v) | JFloat _ \<Rightarrow> Inr (f v) | JBool _ \<Rightarrow> Inr (f v)
      | JStr _ \<Rightarrow> Inl (ValueError (u ''Unknown format code''))
      | _ \<Rightarrow> Inl (TypeError (u ''unsupported format string'')))"

definition py_len :: "json \<Rightarrow> nat result" where
  "py_len v =
     (case v of JStr s \<Rightarrow> Inr (length s) | JArr xs \<Rightarrow> Inr (length xs) | JObj ms \<Rightarrow> Inr (length ms)
      | _ \<Rightarrow> Inl (TypeError (u ''object has no len()'')))"

definition fmt_handler_row :: "formats \<Rightarrow> json \<Rightarrow> pystr result" where
  "fmt_handler_row fm h =
     rbind (jindex h (u ''name'')) (\<lambda>name.
     rbind (jindex h (u ''allow'')) (\<lambda>al.
     rbind (if al = JNull then Inr (u ''open'') else rmap (\<lambda>n. str_int (int n) @ u '' peers'') (py_len al)) (\<lambda>allow.
     rbind (jindex h (u ''timeout_secs'')) (\<lambda>t.
     rbind (if t = JNull then Inr (u ''-'') else rmap (\<lambda>s. s @ u ''s'') (num_format (f_g fm) t)) (\<lambda>timeout.
     rbind (jindex h (u ''max_concurrent'')) (\<lambda>m.
     let concur = (if m = JNull then u ''-'' else text_of fm m) in
     rbind (padded fm (ljust 25) name) (\<lambda>name'.
     rbind (rbind (jindex h (u ''calls'')) (padded fm (ljust 5))) (\<lambda>calls'.
     rbind (rbind (jindex h (u ''errors'')) (padded fm (ljust 3))) (\<lambda>errors'.
     rbind (rbind (jindex h (u ''p50_ms'')) (padded fm (rjust 5))) (\<lambda>p50.
     rmap (\<lambda>p95.
       u ''  '' @ name' @ u '' acl='' @ ljust 10 allow @ u '' timeout='' @ ljust 6 timeout @ u '' concurrent='' @ ljust 4 concur @
       u '' calls='' @ calls' @ u '' errors='' @ errors' @ u '' p50='' @ p50 @ u ''ms p95='' @ p95 @ u ''ms'')
       (rbind (jindex h (u ''p95_ms'')) (padded fm (rjust 5)))))))))))))"

text \<open>\<^verbatim>\<open>json.dumps(v, indent=n)\<close> at nesting level \<open>l\<close>.\<close>

definition newline_at :: "nat \<Rightarrow> nat \<Rightarrow> pystr" where
  "newline_at n l = 10 # replicate (n * l) 32"

fun dumps_indent :: "nat \<Rightarrow> nat \<Rightarrow> json \<Rightarrow> pystr" where
  "dumps_indent n l (JArr xs) =
     (if xs = [] then [91, 93]
      else [91] @ newline_at n (Suc l) @ join (44 # newline_at n (Suc l)) (map (dumps_indent n (Suc l)) xs) @ newline_at n l @ [93])"
| "dumps_indent n l (JObj ms) =
     (if ms = [] then [123, 125]
      else [123] @ newline_at n (Suc l) @
        join (44 # newline_at n (Suc l)) (map (\<lambda>(k, v). dump_str k @ [58, 32] @ dumps_indent n (Suc l) v) ms) @
        newline_at n l @ [125])"
| "dumps_indent n l v = json_dumps v"

section \<open>The report\<close>

text \<open>Statements that print some lines or raise, run one after the other.\<close>

fun prints :: "pystr list result list \<Rightarrow> pystr list \<times> exn option" where
  "prints [] = ([], None)"
| "prints (Inl e # ss) = ([], Some e)"
| "prints (Inr ls # ss) = (let (out, x) = prints ss in (ls @ out, x))"

definition is_intro :: "json \<Rightarrow> bool result" where
  "is_intro h =
     rbind (jindex h (u ''name'')) (\<lambda>n. case n of JStr s \<Rightarrow> Inr (starts_with_cp UNDERSCORE s) | _ \<Rightarrow> Inl AttributeError)"

fun filter_result :: "('a \<Rightarrow> bool result) \<Rightarrow> 'a list \<Rightarrow> 'a list result" where
  "filter_result p [] = Inr []"
| "filter_result p (x # xs) = rbind (p x) (\<lambda>b. rmap (\<lambda>ys. if b then x # ys else ys) (filter_result p xs))"

definition listed :: "bool \<Rightarrow> json \<Rightarrow> json list result" where
  "listed intro listing =
     rbind (jindex listing (u ''handlers'')) (\<lambda>hs.
     rbind (iterate hs) (filter_result (\<lambda>h. rmap (\<lambda>b. b = intro) (is_intro h))))"

definition is_typed :: "json \<Rightarrow> bool result" where
  "is_typed h =
     rbind (jget h (u ''input_schema'')) (\<lambda>i. if truthy i then Inr True else rmap truthy (jget h (u ''output_schema'')))"

definition schema_lines :: "formats \<Rightarrow> string \<Rightarrow> json \<Rightarrow> pystr list result list" where
  "schema_lines fm key h =
     (case jget h (u key) of
        Inl e \<Rightarrow> [Inl e]
      | Inr v \<Rightarrow>
          if truthy v
          then [rmap (\<lambda>n. [10 # u ''  '' @ text_of fm n @ u ''.'' @ u key @ u '':'']) (jindex h (u ''name'')), Inr [dumps_indent 4 0 v]]
          else [])"

definition health_lines :: "formats \<Rightarrow> json \<Rightarrow> pystr list result list" where
  "health_lines fm hl =
     (let get = jget_default hl in
      [rmap (\<lambda>v. [u ''  version:     '' @ text_of fm v]) (get (u ''version'') (JStr (u ''?''))),
       rbind (get (u ''uptime_secs'') (JInt 0)) (\<lambda>v. rmap (\<lambda>s. [u ''  uptime:      '' @ s @ u ''s'']) (num_format (f_0f fm) v)),
       rmap (\<lambda>v. [u ''  in-flight:   '' @ text_of fm v]) (get (u ''in_flight'') (JInt 0)),
       rbind (get (u ''total_calls'') (JInt 0)) (\<lambda>c. rmap (\<lambda>e.
         [u ''  total calls: '' @ text_of fm c @ u '' (errors '' @ text_of fm e @ u '')'']) (get (u ''total_errors'') (JInt 0))),
       rmap (\<lambda>v. [u ''  handlers:    '' @ text_of fm v @ [10]]) (get (u ''n_handlers'') (JInt 0))])"

definition rows :: "formats \<Rightarrow> json list \<Rightarrow> pystr list result list" where
  "rows fm hs = map (\<lambda>h. rmap (\<lambda>s. [s]) (fmt_handler_row fm h)) hs"

definition schemas_report :: "formats \<Rightarrow> json list \<Rightarrow> pystr list result list" where
  "schemas_report fm users =
     (case filter_result is_typed users of
        Inl e \<Rightarrow> [Inl e]
      | Inr typed \<Rightarrow>
          if typed = [] then [Inr [10 # u ''(no typed handlers '' @ [8212] @ u '' nothing to show with --schemas)'']]
          else Inr [10 # u ''Schemas:''] #
            concat (map (\<lambda>h. schema_lines fm ''input_schema'' h @ schema_lines fm ''output_schema'' h) typed))"

text \<open>\<^verbatim>\<open>main\<close> after the arguments are parsed; the two replies are the results of the remote calls.\<close>

definition discover_main ::
    "formats \<Rightarrow> pystr \<Rightarrow> bool \<Rightarrow> bool \<Rightarrow> json result \<Rightarrow> json result \<Rightarrow> pystr list \<times> exn option" where
  "discover_main fm peer raw schemas health_reply handlers_reply =
     (case health_reply of Inl e \<Rightarrow> ([], Some e)
      | Inr hl \<Rightarrow>
     (case handlers_reply of Inl e \<Rightarrow> ([], Some e)
      | Inr listing \<Rightarrow>
          if raw then ([dumps_indent 2 0 (JObj [(u ''health'', hl), (u ''handlers'', listing)])], None)
          else prints ([Inr [10 # u ''Worker: '' @ peer]] @ health_lines fm hl @ [Inr [u ''Handlers:'']] @
            (case listed False listing of Inl e \<Rightarrow> [Inl e]
             | Inr users \<Rightarrow>
            (case listed True listing of Inl e \<Rightarrow> [Inl e]
             | Inr intros \<Rightarrow>
                 rows fm users @ (if intros = [] then [] else Inr [10 # u ''Introspection:''] # rows fm intros) @
                 (if schemas then schemas_report fm users else []))))))"

section \<open>The report on a worker\<close>

text \<open>The line of a handler, from its registration.\<close>

definition row_of :: "formats \<Rightarrow> env \<Rightarrow> pystr \<times> registration \<Rightarrow> pystr" where
  "row_of fm env = (\<lambda>(name, reg).
     u ''  '' @ ljust 25 name @
     u '' acl='' @ ljust 10 (case allow reg of None \<Rightarrow> u ''open'' | Some s \<Rightarrow> str_int (int (card s)) @ u '' peers'') @
     u '' timeout='' @ ljust 6 (case timeout_secs reg of None \<Rightarrow> u ''-'' | Some t \<Rightarrow> f_g fm (JFloat (e_repr env t)) @ u ''s'') @
     u '' concurrent='' @ ljust 4 (case max_concurrent reg of None \<Rightarrow> u ''-'' | Some m \<Rightarrow> str_int m) @
     u '' calls='' @ ljust 5 (str_int (int (calls (reg_stats reg)))) @
     u '' errors='' @ ljust 3 (str_int (int (errors (reg_stats reg)))) @
     u '' p50='' @ rjust 5 (f_float fm (e_repr env (percentile (reg_stats reg) (1 / 2)))) @
     u ''ms p95='' @ rjust 5 (f_float fm (e_repr env (percentile (reg_stats reg) (19 / 20)))) @ u ''ms'')"

definition head_of :: "formats \<Rightarrow> pystr \<Rightarrow> server \<Rightarrow> env \<Rightarrow> pystr list" where
  "head_of fm peer srv env =
     [10 # u ''Worker: '' @ peer,
      u ''  version:     '' @ e_version env,
      u ''  uptime:      '' @ f_0f fm (JFloat (e_repr env
         (py_round_to 1 (case started_at srv of None \<Rightarrow> 0 | Some t \<Rightarrow> if t = 0 then 0 else e_monotonic env - t)))) @ u ''s'',
      u ''  in-flight:   '' @ str_int (int (e_in_flight env)),
      u ''  total calls: '' @ str_int (int (total_calls srv)) @ u '' (errors '' @ str_int (int (total_errors srv)) @ u '')'',
      u ''  handlers:    '' @ str_int (int (length (handlers srv))) @ [10],
      u ''Handlers:'']"

text \<open>The registrations in the order of their names.\<close>

definition by_name :: "server \<Rightarrow> (pystr \<times> registration) list" where
  "by_name srv = map (\<lambda>(name, r). (name, regs srv ! r)) (sort_key fst (handlers srv))"

lemma describe_fields:
  "jindex (describe env name reg) (u ''name'') = Inr (JStr name)"
  "jindex (describe env name reg) (u ''allow'') = Inr (case allow reg of None \<Rightarrow> JNull | Some s \<Rightarrow> JArr (map JInt (sorted_list_of_set s)))"
  "jindex (describe env name reg) (u ''calls'') = Inr (JInt (int (calls (reg_stats reg))))"
  "jindex (describe env name reg) (u ''errors'') = Inr (JInt (int (errors (reg_stats reg))))"
  "jindex (describe env name reg) (u ''p50_ms'') = Inr (JFloat (e_repr env (percentile (reg_stats reg) (1 / 2))))"
  "jindex (describe env name reg) (u ''p95_ms'') = Inr (JFloat (e_repr env (percentile (reg_stats reg) (19 / 20))))"
  "jindex (describe env name reg) (u ''timeout_secs'') = Inr (case timeout_secs reg of None \<Rightarrow> JNull | Some t \<Rightarrow> JFloat (e_repr env t))"
  "jindex (describe env name reg) (u ''max_concurrent'') = Inr (case max_concurrent reg of None \<Rightarrow> JNull | Some m \<Rightarrow> JInt m)"
  by (simp_all add: jindex_def describe_def dict_get_def)

lemma describe_row: "fmt_handler_row fm (describe env name reg) = Inr (row_of fm env (name, reg))"
  by (simp add: fmt_handler_row_def describe_fields row_of_def padded_def num_format_def py_len_def text_of_def Let_def split: option.split)

lemma describe_is_intro: "is_intro (describe env name reg) = Inr (starts_with_cp UNDERSCORE name)"
  by (simp add: is_intro_def describe_fields)

lemma listed_worker:
  "listed b (handlers_introspect srv env) =
   Inr (map (\<lambda>(name, reg). describe env name reg) (filter (\<lambda>(name, _). starts_with_cp UNDERSCORE name = b) (by_name srv)))"
proof -
  let ?d = "\<lambda>(name, reg). describe env name reg"
  have hs: "jindex (handlers_introspect srv env) (u ''handlers'') = Inr (JArr (map ?d (by_name srv)))"
    by (simp add: handlers_introspect_def jindex_def dict_get_def by_name_def split_def o_def)
  have "filter_result p (map f xs) = Inr (map f (filter q xs))" if "\<And>x. p (f x) = Inr (q x)"
    for p :: "json \<Rightarrow> bool result" and f q and xs :: "(pystr \<times> registration) list"
    using that by (induction xs) auto
  then show ?thesis
    by (simp add: listed_def hs iterate_def describe_is_intro split_def)
qed

lemma prints_lines: "prints (map (\<lambda>x. Inr [f x]) xs @ ss) = (map f xs @ fst (prints ss), snd (prints ss))"
  by (induction xs) (auto simp: Let_def split_def)

lemma rows_worker:
  "rows fm (map (\<lambda>(name, reg). describe env name reg) hs) = map (\<lambda>h. Inr [row_of fm env h]) hs"
  by (auto simp: rows_def describe_row)

lemma health_worker:
  "[Inr [10 # u ''Worker: '' @ peer]] @ health_lines fm (health srv env) @ [Inr [u ''Handlers:'']] @ ss =
   map (\<lambda>l. Inr [l]) (head_of fm peer srv env) @ ss"
  by (simp add: health_lines_def head_of_def jget_default_def health_def dict_get_def text_of_def num_format_def Let_def)

text \<open>
  C35: the report shows the worker. For every worker the tool prints, without an error, its
  totals, then one line for each registered handler with its access list, limits and statistics,
  the user's handlers before those whose name starts with an underscore, each group in the order of the names.
\<close>

theorem discover_reports_worker:
  "discover_main fm peer False False (Inr (health srv env)) (Inr (handlers_introspect srv env)) =
     (let users = filter (\<lambda>(name, _). \<not> starts_with_cp UNDERSCORE name) (by_name srv);
          intros = filter (\<lambda>(name, _). starts_with_cp UNDERSCORE name) (by_name srv)
      in (head_of fm peer srv env @ map (row_of fm env) users @
          (if intros = [] then [] else (10 # u ''Introspection:'') # map (row_of fm env) intros), None))"
  unfolding discover_main_def sum.case listed_worker rows_worker health_worker if_False prints_lines Let_def
  by (simp add: prints_lines [where ss = "[]", simplified])

end
