(* ===== verification/Channel.thy ===== *)
theory Channel
  imports Runnables
begin

text \<open>
  \<^verbatim>\<open>channel.py\<close>: publishing and subscribing through a peer's event broker. A subscription keeps the
  bytes it has not yet split into events; \<^verbatim>\<open>recv\<close> takes the first event and writes the others back
  into the buffer, the background task of an \<^verbatim>\<open>auto_reconnect\<close> channel puts all of them on a queue.
\<close>

section \<open>Opening\<close>

definition channel_peer :: "addr + pystr \<Rightarrow> json result \<Rightarrow> addr result" where
  "channel_peer peer reply = rbind (parse_peer peer) (\<lambda>p. resolve_peer p reply)"

record channel =
  ch_topic :: pystr
  ch_peer :: addr
  ch_buf :: bytes
  ch_closed :: bool
  ch_queue :: "event list option"

text \<open>
  What the daemon does while a channel is opened: what connecting, dialling and writing raise, and
  its answer to the host name query.
\<close>

record opened =
  o_connect :: "exn option"
  o_reply :: "json result"
  o_dial :: "exn option"
  o_write :: "exn option"

definition attempted :: "exn option \<Rightarrow> unit result" where
  "attempted r = (case r of Some e \<Rightarrow> Inl e | None \<Rightarrow> Inr ())"

text \<open>\<^verbatim>\<open>subscribe\<close>: the channel and the bytes written.\<close>

definition subscribe ::
    "pystr \<Rightarrow> addr + pystr \<Rightarrow> bool \<Rightarrow> opened \<Rightarrow> (channel \<times> bytes) result" where
  "subscribe topic peer auto_reconnect opn =
     rbind (attempted (o_connect opn)) (\<lambda>_.
     rbind (channel_peer peer (o_reply opn)) (\<lambda>a.
     rbind (attempted (o_dial opn)) (\<lambda>_.
     rbind (encode_event topic []) (\<lambda>req.
     rmap (\<lambda>_. (\<lparr>ch_topic = topic, ch_peer = a, ch_buf = [], ch_closed = False,
                 ch_queue = (if auto_reconnect then Some [] else None)\<rparr>, req))
       (attempted (o_write opn))))))"

definition publisher :: "addr + pystr \<Rightarrow> opened \<Rightarrow> (addr \<times> bytes) result" where
  "publisher peer opn =
     rbind (attempted (o_connect opn)) (\<lambda>_.
     rbind (channel_peer peer (o_reply opn)) (\<lambda>a.
     rbind (attempted (o_dial opn)) (\<lambda>_.
     rbind (encode_event (u ''*'') []) (\<lambda>req.
     rmap (\<lambda>_. (a, req)) (attempted (o_write opn))))))"

text \<open>\<^verbatim>\<open>PilotPublisher.publish\<close>: the bytes handed to the stream.\<close>

definition publish :: "pystr \<Rightarrow> bytes + pystr \<Rightarrow> bytes result" where
  "publish topic payload =
     rbind (case payload of Inl b \<Rightarrow> Inr b | Inr s \<Rightarrow> utf8_encode s) (encode_event topic)"

text \<open>\<^verbatim>\<open>publish_one\<close>: all that is written to the broker.\<close>

definition publish_one :: "pystr \<Rightarrow> bytes + pystr \<Rightarrow> addr + pystr \<Rightarrow> opened \<Rightarrow> bytes result" where
  "publish_one topic payload peer opn =
     rbind (publisher peer opn) (\<lambda>(_, hello). rmap (\<lambda>b. hello @ b) (publish topic payload))"

section \<open>Receiving\<close>

text \<open>\<^verbatim>\<open>b"".join(encode_event(e.topic, e.payload) for e in events[1:])\<close>.\<close>

definition join_events :: "event list \<Rightarrow> bytes result" where
  "join_events evs = rmap concat (rmap_list (\<lambda>e. encode_event (ev_topic e) (ev_payload e)) evs)"

text \<open>
  The loop of \<^verbatim>\<open>recv\<close> on a channel without a queue. Every turn has the loop time and what the read
  gives; the timeout is its value and the deadline. The result is \<open>None\<close> while the call waits;
  then the buffer and the turns that are left.
\<close>

fun recv_loop ::
    "texts \<Rightarrow> pystr \<Rightarrow> (rat \<times> rat) option \<Rightarrow> (rat \<times> bytes result) list \<Rightarrow> bytes \<Rightarrow>
     event result option \<times> bytes \<times> (rat \<times> bytes result) list" where
  "recv_loop tx topic timeout turns buf =
     (case split_events buf of
        Inl e \<Rightarrow> (Some (Inl e), buf, turns)
      | Inr (ev # evs, rest) \<Rightarrow>
          (if evs = [] then (Some (Inr ev), rest, turns)
           else (case join_events evs of
                   Inl e \<Rightarrow> (Some (Inl e), rest, turns)
                 | Inr b \<Rightarrow> (Some (Inr ev), b @ rest, turns)))
      | Inr ([], rest) \<Rightarrow>
          (case turns of
             [] \<Rightarrow> (None, rest, [])
           | (now, r) # turns' \<Rightarrow>
               (case timeout of
                  Some (secs, deadline) \<Rightarrow>
                    if deadline - now \<le> 0 then
                      (Some (Inl (TimeoutError (u ''no event on `'' @ topic @ u ''` within '' @ t_repr tx secs @ u ''s''))),
                       rest, turns')
                    else (case r of
                            Inl e \<Rightarrow> (Some (Inl e), rest, turns')
                          | Inr chunk \<Rightarrow>
                              if chunk = [] then (Some (Inl (EOFError (u ''event stream closed by broker''))), rest, turns')
                              else recv_loop tx topic timeout turns' (rest @ chunk))
                | None \<Rightarrow>
                    (case r of
                       Inl e \<Rightarrow> (Some (Inl e), rest, turns')
                     | Inr chunk \<Rightarrow>
                         if chunk = [] then (Some (Inl (EOFError (u ''event stream closed by broker''))), rest, turns')
                         else recv_loop tx topic timeout turns' (rest @ chunk)))))"

declare recv_loop.simps [simp del]

text \<open>
  \<^verbatim>\<open>recv\<close>: with a queue its head; while it is empty what the background task puts there during the
  wait, if it does. \<^verbatim>\<open>asyncio.wait_for\<close> with a timeout that is not positive gives up at once.
\<close>

definition recv ::
    "texts \<Rightarrow> (rat \<times> rat) option \<Rightarrow> event option \<Rightarrow> (rat \<times> bytes result) list \<Rightarrow> channel \<Rightarrow>
     event result option \<times> channel \<times> (rat \<times> bytes result) list" where
  "recv tx timeout arrival turns ch =
     (case ch_queue ch of
        Some q \<Rightarrow>
          if (case timeout of Some (secs, _) \<Rightarrow> secs \<le> 0 | None \<Rightarrow> False) then (Some (Inl (TimeoutError [])), ch, turns)
          else (case q of
                  ev # q' \<Rightarrow> (Some (Inr ev), ch\<lparr>ch_queue := Some q'\<rparr>, turns)
                | [] \<Rightarrow>
                    (case arrival of
                       Some ev \<Rightarrow> (Some (Inr ev), ch, turns)
                     | None \<Rightarrow> (if timeout = None then None else Some (Inl (TimeoutError [])), ch, turns)))
      | None \<Rightarrow>
          (let (r, buf, turns') = recv_loop tx (ch_topic ch) timeout turns (ch_buf ch)
           in (r, ch\<lparr>ch_buf := buf\<rparr>, turns')))"

text \<open>\<^verbatim>\<open>__anext__\<close>: \<open>None\<close> for \<^verbatim>\<open>StopAsyncIteration\<close>.\<close>

definition anext :: "event result \<Rightarrow> event option result" where
  "anext r =
     (case r of
        Inr ev \<Rightarrow> Inr (Some ev)
      | Inl e \<Rightarrow> (case e of EOFError _ \<Rightarrow> Inr None | CancelledError \<Rightarrow> Inr None | _ \<Rightarrow> Inl e))"

section \<open>Reconnecting\<close>

text \<open>
  \<^verbatim>\<open>_iterate_current_stream\<close>: every turn says whether the channel was closed meanwhile and what the
  read gives. The result is the events yielded, how the generator ends (\<open>Inr ()\<close> when the channel
  was closed) and the buffer; \<open>None\<close> while it waits.
\<close>

fun iterate_stream :: "(bool \<times> bytes result) list \<Rightarrow> bytes \<Rightarrow> event list \<times> unit result option \<times> bytes" where
  "iterate_stream turns buf =
     (case split_events buf of
        Inl e \<Rightarrow> ([], Some (Inl e), buf)
      | Inr (evs, rest) \<Rightarrow>
          (case turns of
             [] \<Rightarrow> (evs, None, rest)
           | (stopped, r) # turns' \<Rightarrow>
               if stopped then (evs, Some (Inr ()), rest)
               else (case r of
                       Inl e \<Rightarrow> (evs, Some (Inl e), rest)
                     | Inr chunk \<Rightarrow>
                         if chunk = [] then (evs, Some (Inl (EOFError (u ''event stream closed by broker''))), rest)
                         else (let (evs', fin, buf') = iterate_stream turns' (rest @ chunk) in (evs @ evs', fin, buf')))))"

declare iterate_stream.simps [simp del]

text \<open>
  \<^verbatim>\<open>_reconnect_loop\<close>: one entry per pass of the loop: whether the channel is closed when it starts,
  the turns of the connection, whether it is closed when the connection has ended, and what closing,
  sleeping and connecting again raise. Reconnecting empties the buffer; a failed attempt keeps it. The
  result is the queue, the buffer and whether the task has ended.
\<close>

record pass =
  p_closed :: bool
  p_turns :: "(bool \<times> bytes result) list"
  p_closed_after :: bool
  p_again :: "exn option"

fun reconnect_loop :: "pass list \<Rightarrow> bytes \<Rightarrow> event list \<Rightarrow> event list \<times> bytes \<times> bool" where
  "reconnect_loop [] buf q = (q, buf, False)"
| "reconnect_loop (p # ps) buf q =
     (if p_closed p then (q, buf, True)
      else let (evs, fin, buf') = iterate_stream (p_turns p) buf; q' = q @ evs
           in if fin = None then (q', buf', False)
              else if fin = Some (Inl CancelledError) \<or> p_closed_after p then (q', buf', True)
              else if p_again p = Some CancelledError then (q', buf', True)
              else reconnect_loop ps (if p_again p = None then [] else buf') q')"

text \<open>
  \<^verbatim>\<open>close\<close>: what is closed, in order. A second call does nothing.
\<close>

datatype closing = CancelTask | CloseStream | CloseConn

definition channel_close :: "bool \<Rightarrow> channel \<Rightarrow> closing list \<times> channel" where
  "channel_close owns_conn ch =
     (if ch_closed ch then ([], ch)
      else ((if ch_queue ch \<noteq> None then [CancelTask] else []) @ CloseStream # (if owns_conn then [CloseConn] else []),
            ch\<lparr>ch_closed := True\<rparr>))"

text \<open>\<^verbatim>\<open>PilotPublisher.close\<close>: the flag, what closing the connection raises is raised.\<close>

definition publisher_close :: "exn option \<Rightarrow> bool \<Rightarrow> closing list \<times> unit result \<times> bool" where
  "publisher_close conn_close was_closed =
     (if was_closed then ([], Inr (), True) else ([CloseStream, CloseConn], attempted conn_close, True))"

section \<open>The event source\<close>

definition source_item :: "event \<Rightarrow> json" where
  "source_item ev =
     JObj [(u ''topic'', JStr (ev_topic ev)), (u ''payload'', JStr (utf8_decode_replace (ev_payload ev)))]"

text \<open>\<^verbatim>\<open>PilotEventSource.ainvoke\<close>: subscribe, then one \<^verbatim>\<open>recv\<close>; \<open>None\<close> while it waits.\<close>

definition source_ainvoke ::
    "texts \<Rightarrow> pystr \<Rightarrow> addr + pystr \<Rightarrow> (rat \<times> rat) option \<Rightarrow> opened \<Rightarrow> (rat \<times> bytes result) list \<Rightarrow> json result option" where
  "source_ainvoke tx topic peer timeout opn turns =
     (case subscribe topic peer False opn of
        Inl e \<Rightarrow> Some (Inl e)
      | Inr (ch, _) \<Rightarrow> map_option (rmap source_item) (fst (recv tx timeout None turns ch)))"

text \<open>\<^verbatim>\<open>PilotEventSource.astream\<close> over the results of \<^verbatim>\<open>recv\<close>: what it yields and what it raises.\<close>

fun source_astream :: "int option \<Rightarrow> nat \<Rightarrow> event result list \<Rightarrow> json list \<times> exn option" where
  "source_astream max_events n [] = ([], None)"
| "source_astream max_events n (r # rs) =
     (case anext r of
        Inl e \<Rightarrow> ([], Some e)
      | Inr None \<Rightarrow> ([], None)
      | Inr (Some ev) \<Rightarrow>
          if (case max_events of None \<Rightarrow> False | Some m \<Rightarrow> m \<le> int (Suc n)) then ([source_item ev], None)
          else (let (ys, x) = source_astream max_events (Suc n) rs in (source_item ev # ys, x)))"

section \<open>Lemmas\<close>

lemma events_prefix:
  assumes "list_all valid_event es" "b @ t = concat (map event_bytes es)"
  shows "\<exists>xs p ys. es = xs @ ys \<and> b = concat (map event_bytes xs) @ p \<and> split_events b = Inr (xs, p) \<and>
    p @ t = concat (map event_bytes ys)"
  using assms
proof (induction es arbitrary: b)
  case Nil
  have "split_events [] = Inr ([], [])"
    by (simp add: split_events_ref split_ref.simps event_head_def be_nat_def)
  with Nil show ?case by auto
next
  case (Cons e es)
  show ?case
  proof (cases "length b < length (event_bytes e)")
    case True
    have "b = take (length b) (event_bytes e @ concat (map event_bytes es))"
      using arg_cong [OF Cons.prems(2), of "take (length b)"] by simp
    with True have q: "event_bytes e = b @ drop (length b) (event_bytes e)" "drop (length b) (event_bytes e) \<noteq> []"
      using append_take_drop_id [of "length b" "event_bytes e"] by simp_all
    then have "split_events b = Inr ([], b)"
      using split_ref_prefix [OF _ q] Cons.prems(1) by (simp add: split_events_ref)
    then show ?thesis using Cons.prems(2) by (intro exI [of _ "[]"] exI [of _ b] exI [of _ "e # es"]) simp
  next
    case False
    then have "event_bytes e = take (length (event_bytes e)) b"
      using arg_cong [OF Cons.prems(2), of "take (length (event_bytes e))"] by simp
    then obtain b' where b: "b = event_bytes e @ b'" by (metis append_take_drop_id)
    with Cons.prems(2) have b': "b' @ t = concat (map event_bytes es)" by simp
    from Cons.IH [OF _ b'] Cons.prems(1) obtain xs p ys where x: "es = xs @ ys" "b' = concat (map event_bytes xs) @ p"
        "split_events b' = Inr (xs, p)" "p @ t = concat (map event_bytes ys)" by auto
    have "split_events b = Inr (e # xs, p)"
      using split_ref_bytes [of e b'] Cons.prems(1) x(3) b by (simp add: split_events_ref)
    then show ?thesis using x b by (intro exI [of _ "e # xs"] exI [of _ p] exI [of _ ys]) simp
  qed
qed

lemma join_events_valid: "list_all valid_event es \<Longrightarrow> join_events es = Inr (concat (map event_bytes es))"
  unfolding join_events_def by (subst rmap_list_ok [where g = event_bytes]) (auto simp: list_all_iff encode_event_valid)

text \<open>One \<^verbatim>\<open>recv\<close> on a stream that carries the events \<open>e # es\<close>.\<close>

lemma recv_loop_next:
  assumes "list_all valid_event (e # es)" "buf @ concat cs = concat (map event_bytes (e # es))" "\<forall>c \<in> set cs. c \<noteq> []"
    "length ts = length cs"
  shows "\<exists>k buf'. k \<le> length cs \<and>
    recv_loop tx topic None (zip ts (map Inr cs)) buf = (Some (Inr e), buf', zip (drop k ts) (map Inr (drop k cs))) \<and>
    buf' @ concat (drop k cs) = concat (map event_bytes es)"
  using assms
proof (induction cs arbitrary: buf ts)
  case Nil
  from events_prefix [OF Nil.prems(1), of buf "[]"] Nil.prems(2) obtain xs p ys where x: "e # es = xs @ ys"
      "buf = concat (map event_bytes xs) @ p" "split_events buf = Inr (xs, p)" "p = concat (map event_bytes ys)" by auto
  have "split_events buf = Inr (e # es, [])"
    using Nil.prems split_ref_events [of "e # es" "[]"]
    by (simp add: split_events_ref split_ref.simps [of "[]"] event_head_def)
  with Nil.prems show ?case
    by (subst recv_loop.simps) (auto simp: join_events_valid)
next
  case (Cons c cs)
  then obtain t ts' where ts: "ts = t # ts'" "length ts' = length cs" by (cases ts) auto
  from events_prefix [OF Cons.prems(1,2)] obtain xs p ys where x: "e # es = xs @ ys"
      "buf = concat (map event_bytes xs) @ p" "split_events buf = Inr (xs, p)" "p @ concat (c # cs) = concat (map event_bytes ys)"
    by blast
  show ?case
  proof (cases xs)
    case Nil
    from x Nil have "(p @ c) @ concat cs = concat (map event_bytes (e # es))" by simp
    from Cons.IH [OF Cons.prems(1) this _ ts(2)] Cons.prems(3) obtain k buf' where k: "k \<le> length cs"
        "recv_loop tx topic None (zip ts' (map Inr cs)) (p @ c) = (Some (Inr e), buf', zip (drop k ts') (map Inr (drop k cs)))"
        "buf' @ concat (drop k cs) = concat (map event_bytes es)" by auto
    have "recv_loop tx topic None (zip ts (map Inr (c # cs))) buf = recv_loop tx topic None (zip ts' (map Inr cs)) (p @ c)"
      using x(3) Nil ts Cons.prems(3) by (subst recv_loop.simps) simp
    with k ts show ?thesis by (intro exI [of _ "Suc k"] exI [of _ buf']) simp
  next
    case (Cons e' zs)
    with x(1) have z: "e' = e" "es = zs @ ys" by simp_all
    have "list_all valid_event zs" using \<open>list_all valid_event (e # es)\<close> z by simp
    then have "recv_loop tx topic None (zip ts (map Inr (c # cs))) buf =
        (Some (Inr e), concat (map event_bytes zs) @ p, zip ts (map Inr (c # cs)))"
      using x(3) Cons z by (subst recv_loop.simps) (auto simp: join_events_valid)
    then show ?thesis using x(4) z by (intro exI [of _ 0] exI [of _ "concat (map event_bytes zs) @ p"]) simp
  qed
qed

text \<open>
  What one connection of the broker carries: the events \<open>es\<close> and perhaps the start of one more, cut
  into the chunks \<open>cs\<close>; the end of the stream follows.
\<close>

definition carries :: "event list \<Rightarrow> bytes list \<Rightarrow> bool" where
  "carries es cs \<longleftrightarrow> list_all valid_event es \<and> (\<forall>c \<in> set cs. c \<noteq> []) \<and>
     (\<exists>e p q. valid_event e \<and> event_bytes e = p @ q \<and> q \<noteq> [] \<and> concat cs = concat (map event_bytes es) @ p)"

definition broker_pass :: "bytes list \<Rightarrow> pass" where
  "broker_pass cs =
     \<lparr>p_closed = False, p_turns = map (\<lambda>c. (False, Inr c)) cs @ [(False, Inr [])], p_closed_after = False, p_again = None\<rparr>"

lemma iterate_stream_events:
  assumes "list_all valid_event es" "\<forall>c \<in> set cs. c \<noteq> []" "valid_event e" "event_bytes e = p @ q" "q \<noteq> []"
    "buf @ concat cs = concat (map event_bytes es) @ p"
  shows "iterate_stream (map (\<lambda>c. (False, Inr c)) cs @ [(False, Inr [])]) buf =
    (es, Some (Inl (EOFError (u ''event stream closed by broker''))), p)"
  using assms(1,2,6)
proof (induction cs arbitrary: buf es)
  case Nil
  then have "split_events buf = Inr (es, p)"
    using split_ref_events split_ref_prefix [OF assms(3-5)] by (simp add: split_events_ref)
  then show ?case by (subst iterate_stream.simps) simp
next
  case (Cons c cs)
  have "buf @ (concat (c # cs) @ q) = concat (map event_bytes (es @ [e]))" using Cons.prems(3) assms(4) by simp
  moreover have "list_all valid_event (es @ [e])" using Cons.prems(1) assms(3) by simp
  ultimately obtain xs p' ys where x: "es @ [e] = xs @ ys"
      "buf = concat (map event_bytes xs) @ p'" "split_events buf = Inr (xs, p')"
      "p' @ concat (c # cs) @ q = concat (map event_bytes ys)" using events_prefix by blast
  from x(4) assms(5) have "ys \<noteq> []" by auto
  with x(1) obtain es' where es: "es = xs @ es'" by (metis butlast_append butlast_snoc)
  with x(2) Cons.prems(3) have "(p' @ c) @ concat cs = concat (map event_bytes es') @ p" by simp
  with Cons.IH [of es' "p' @ c"] Cons.prems(1,2) es have
    "iterate_stream (map (\<lambda>c. (False, Inr c)) cs @ [(False, Inr [])]) (p' @ c) =
      (es', Some (Inl (EOFError (u ''event stream closed by broker''))), p)" by simp
  with x(3) Cons.prems(2) es show ?case by (subst iterate_stream.simps) simp
qed

lemma reconnect_loop_pass:
  "carries es cs \<Longrightarrow> reconnect_loop (broker_pass cs # ps) [] q = reconnect_loop ps [] (q @ es)"
  unfolding carries_def broker_pass_def using iterate_stream_events [of es cs _ _ _ "[]"] by fastforce

text \<open>Calling \<^verbatim>\<open>recv\<close> again and again.\<close>

fun recv_many :: "texts \<Rightarrow> nat \<Rightarrow> (rat \<times> bytes result) list \<Rightarrow> channel \<Rightarrow> event result option list" where
  "recv_many tx 0 turns ch = []"
| "recv_many tx (Suc n) turns ch =
     (let (r, ch', turns') = recv tx None None turns ch in r # recv_many tx n turns' ch')"

lemma recv_many_events:
  assumes "list_all valid_event es" "ch_buf ch @ concat cs = concat (map event_bytes es)" "\<forall>c \<in> set cs. c \<noteq> []"
    "length ts = length cs" "ch_queue ch = None"
  shows "recv_many tx (length es) (zip ts (map Inr cs)) ch = map (\<lambda>e. Some (Inr e)) es"
  using assms
proof (induction es arbitrary: ch cs ts)
  case (Cons e es)
  from recv_loop_next [OF Cons.prems(1-4), of tx "ch_topic ch"] obtain k buf' where k: "k \<le> length cs"
      "recv_loop tx (ch_topic ch) None (zip ts (map Inr cs)) (ch_buf ch) = (Some (Inr e), buf', zip (drop k ts) (map Inr (drop k cs)))"
      "buf' @ concat (drop k cs) = concat (map event_bytes es)" by blast
  have "recv_many tx (length es) (zip (drop k ts) (map Inr (drop k cs))) (ch\<lparr>ch_buf := buf'\<rparr>) = map (\<lambda>e. Some (Inr e)) es"
    by (rule Cons.IH) (use Cons.prems k in \<open>auto dest: in_set_dropD\<close>)
  then show ?case using k(2) Cons.prems(5) by (simp add: recv_def)
qed simp

section \<open>Properties\<close>

text \<open>
  C15: a subscriber gets every event once and in order. For any valid events that the broker sends
  and any cutting of their bytes into chunks, calling \<^verbatim>\<open>recv\<close> repeatedly returns exactly these
  events: writing the events that came together back into the buffer loses and reorders nothing.
\<close>

theorem recv_in_order:
  assumes "list_all valid_event es" "concat cs = concat (map event_bytes es)" "\<forall>c \<in> set cs. c \<noteq> []"
    "length ts = length cs" "ch_queue ch = None" "ch_buf ch = []"
  shows "recv_many tx (length es) (zip ts (map Inr cs)) ch = map (\<lambda>e. Some (Inr e)) es"
  by (rule recv_many_events) (use assms in simp_all)

theorem recv_in_order_witness:
  "recv_many \<lparr>t_repr = (\<lambda>_. []), t_exn = (\<lambda>_. [])\<rparr> 2
     [(0, Inr (event_bytes \<lparr>ev_topic = u ''a'', ev_payload = [1]\<rparr> @ event_bytes \<lparr>ev_topic = u ''b'', ev_payload = [2]\<rparr>))]
     \<lparr>ch_topic = u ''*'', ch_peer = \<lparr>addr_network = 0, addr_node = 1\<rparr>, ch_buf = [], ch_closed = False, ch_queue = None\<rparr> =
   [Some (Inr \<lparr>ev_topic = u ''a'', ev_payload = [1]\<rparr>), Some (Inr \<lparr>ev_topic = u ''b'', ev_payload = [2]\<rparr>)]"
proof -
  let ?a = "\<lparr>ev_topic = u ''a'', ev_payload = [1]\<rparr>" and ?b = "\<lparr>ev_topic = u ''b'', ev_payload = [2]\<rparr>"
  have v: "valid_event ?a" "valid_event ?b"
    by (simp_all add: valid_event_def u_def is_scalar_def is_surrogate_def encode_cp_def)
  have "event_bytes ?a \<noteq> []" by (simp add: event_bytes_def be_bytes_2 Let_def)
  then show ?thesis
    using v recv_in_order [of "[?a, ?b]" "[event_bytes ?a @ event_bytes ?b]" "[0]"
      "\<lparr>ch_topic = u ''*'', ch_peer = \<lparr>addr_network = 0, addr_node = 1\<rparr>, ch_buf = [], ch_closed = False, ch_queue = None\<rparr>"
      "\<lparr>t_repr = (\<lambda>_. []), t_exn = (\<lambda>_. [])\<rparr>"] by (simp add: numeral_2_eq_2 del: recv_many.simps)
qed

text \<open>
  C16: an \<^verbatim>\<open>auto_reconnect\<close> channel delivers, over any number of broker restarts, exactly the events
  that each connection carried completely, in order and once. The partial event at the end of a
  broken connection is dropped with the buffer and corrupts nothing after it.
\<close>

theorem reconnect_delivers:
  assumes "list_all2 carries ess css"
  shows "reconnect_loop (map broker_pass css) [] q = (q @ concat ess, [], False)"
  using assms by (induction arbitrary: q rule: list_all2_induct) (simp_all add: reconnect_loop_pass del: reconnect_loop.simps(2))

theorem reconnect_delivers_witness:
  "reconnect_loop (map broker_pass [[event_bytes \<lparr>ev_topic = u ''a'', ev_payload = [1]\<rparr>, [0]],
       [event_bytes \<lparr>ev_topic = u ''b'', ev_payload = [2]\<rparr>]]) [] [] =
     ([\<lparr>ev_topic = u ''a'', ev_payload = [1]\<rparr>, \<lparr>ev_topic = u ''b'', ev_payload = [2]\<rparr>], [], False)"
proof -
  let ?a = "\<lparr>ev_topic = u ''a'', ev_payload = [1]\<rparr>" and ?b = "\<lparr>ev_topic = u ''b'', ev_payload = [2]\<rparr>"
  have v: "valid_event ?a" "valid_event ?b"
    by (simp_all add: valid_event_def u_def is_scalar_def is_surrogate_def encode_cp_def)
  have ne: "event_bytes ?a \<noteq> []" "event_bytes ?b \<noteq> []" by (simp_all add: event_bytes_def be_bytes_2 Let_def)
  have head: "event_bytes ?a = [0] @ tl (event_bytes ?a)" "tl (event_bytes ?a) \<noteq> []"
    by (simp_all add: event_bytes_def be_bytes_2 Let_def u_def encode_cp_def)
  have "carries [?a] [event_bytes ?a, [0]]"
    unfolding carries_def using v ne head by (intro conjI exI [of _ ?a] exI [of _ "[0]"] exI [of _ "tl (event_bytes ?a)"]) auto
  moreover have "carries [?b] [event_bytes ?b]"
    unfolding carries_def using v ne by (auto intro!: exI [of _ ?a] exI [of _ "[]"])
  ultimately have "list_all2 carries [[?a], [?b]] [[event_bytes ?a, [0]], [event_bytes ?b]]" by simp
  from reconnect_delivers [OF this, of "[]"] show ?thesis by simp
qed

text \<open>
  One malformed event blocks a subscription for good. Once the buffer starts with an event
  that the splitter rejects, every \<^verbatim>\<open>recv\<close>, whatever arrives later, raises the same error: the
  buffer is never advanced past it.
\<close>

theorem recv_poisoned:
  assumes "ch_queue ch = None" "split_events (ch_buf ch) = Inl e"
  shows "recv_many tx n turns ch = replicate n (Some (Inl e))"
proof (induction n)
  case (Suc n)
  have "ch\<lparr>ch_buf := ch_buf ch\<rparr> = ch" by simp
  moreover have "recv_loop tx (ch_topic ch) None turns (ch_buf ch) = (Some (Inl e), ch_buf ch, turns)"
    using assms(2) by (subst recv_loop.simps) simp
  ultimately show ?case using Suc assms(1) by (simp add: recv_def)
qed simp

theorem recv_poisoned_witness:
  "recv_many \<lparr>t_repr = (\<lambda>_. []), t_exn = (\<lambda>_. [])\<rparr> 2 [(0, Inr [0])]
     \<lparr>ch_topic = u ''*'', ch_peer = \<lparr>addr_network = 0, addr_node = 1\<rparr>, ch_buf = [255, 255], ch_closed = False, ch_queue = None\<rparr> =
   [Some (Inl (ValueError (u ''topic too long: '' @ str_nat 65535))), Some (Inl (ValueError (u ''topic too long: '' @ str_nat 65535)))]"
proof -
  have "split_events [255, 255] = Inl (ValueError (u ''topic too long: '' @ str_nat 65535))"
    by (simp add: split_events_ref split_ref.simps event_head_def be_nat_def)
  then show ?thesis
    using recv_poisoned [of "\<lparr>ch_topic = u ''*'', ch_peer = \<lparr>addr_network = 0, addr_node = 1\<rparr>, ch_buf = [255, 255], ch_closed = False, ch_queue = None\<rparr>"
        "ValueError (u ''topic too long: '' @ str_nat 65535)" "\<lparr>t_repr = (\<lambda>_. []), t_exn = (\<lambda>_. [])\<rparr>" 2 "[(0, Inr [0])]"]
    by (simp add: numeral_2_eq_2 del: recv_many.simps)
qed

end
