(* ===== verification/Lifecycle.thy ===== *)
theory Lifecycle
  imports Server Client_Steps
begin

text \<open>
  The life of a worker: \<^verbatim>\<open>WorkerServer.serve_forever\<close>, \<^verbatim>\<open>_run_periodic\<close> and \<^verbatim>\<open>_drain_inflight\<close>
  (\<^verbatim>\<open>server.py\<close>) on top of the daemon connection. The coroutine, the read loop of the connection, the
  tasks of the calls, the periodic tasks and the signal handler interleave, so the worker is a
  partial step function on events; the model is run on a list of events.
\<close>

section \<open>States and events\<close>

text \<open>
  \<open>Accepting\<close> is the loop, \<open>Stopping\<close> the wait for the cancelled periodic tasks, \<open>Draining\<close> the
  wait for the calls under the drain timeout, \<open>Cancelling\<close> the wait after it ran out, \<open>Served\<close> the
  end of \<^verbatim>\<open>serve_forever\<close>.
\<close>

datatype phase = Accepting | Stopping | Draining | Cancelling | Served

text \<open>
  The task of the i-th accepted stream has the number i; \<open>sv_inflight\<close> are the tasks that have not
  ended, \<open>sv_cancelled\<close> those the drain timeout cancelled, \<open>sv_periodic\<close> the periodic tasks that run.
\<close>

record service =
  sv_conn :: client
  sv_listener :: listener
  sv_srv :: server
  sv_phase :: phase
  sv_streams :: "stream list"
  sv_inflight :: "nat list"
  sv_cancelled :: "nat list"
  sv_periodic :: "nat list"

datatype sevent =
    Frame byte bytes
  | ConnLost
  | StopSignal
  | AcceptReady
  | StopSeen
  | CallRead nat
  | CallWrite nat bytes "nat \<Rightarrow> exn option"
  | CallClose nat "exn option"
  | CallDone nat
  | PeriodicDone nat
  | PeriodicGathered
  | DrainTimer
  | Drained

section \<open>Starting and stopping\<close>

text \<open>Leaving the loop: the listener is closed and the periodic tasks are cancelled.\<close>

definition leave_loop :: "service \<Rightarrow> service" where
  "leave_loop sv =
     (let (st, l) = listener_close (sv_conn sv) (sv_listener sv)
      in sv\<lparr>sv_conn := st, sv_listener := l, sv_phase := Stopping\<rparr>)"

text \<open>
  Up to the loop: what \<^verbatim>\<open>info()\<close> raises, and the body of the daemon's answer to the bind request. An
  exception there leaves the connection open.
\<close>

definition serve_start :: "server \<Rightarrow> rat \<Rightarrow> client \<Rightarrow> exn option \<Rightarrow> bytes result \<Rightarrow> service result" where
  "serve_start srv now st info bound =
     (case info of
        Some e \<Rightarrow> Inl e
      | None \<Rightarrow>
          rbind bound (\<lambda>body. let (st', r) = listen_finish st body in
            rmap (\<lambda>l. let sv = \<lparr>sv_conn = st', sv_listener = l, sv_srv = srv\<lparr>started_at := Some now\<rparr>,
                           sv_phase = Accepting, sv_streams = [], sv_inflight = [], sv_cancelled = [],
                           sv_periodic = [0..<length (periodic srv)]\<rparr>
                       in if stopping srv then leave_loop sv else sv) r))"

section \<open>Steps\<close>

text \<open>One turn of the loop when the accept task has ended, also when stopping was signalled meanwhile.\<close>

definition accept_turn :: "service \<Rightarrow> service option" where
  "accept_turn sv =
     map_option (\<lambda>(st, s).
       (let sv' = sv\<lparr>sv_conn := st, sv_streams := sv_streams sv @ [s],
                     sv_inflight := sv_inflight sv @ [length (sv_streams sv)]\<rparr>
        in if stopping (sv_srv sv) then leave_loop sv' else sv'))
       (listener_accept (sv_conn sv) (sv_listener sv))"

text \<open>The end of the drain: the connection is closed.\<close>

definition serve_end :: "service \<Rightarrow> service" where
  "serve_end sv = sv\<lparr>sv_conn := close (sv_conn sv), sv_phase := Served\<rparr>"

text \<open>\<^verbatim>\<open>_drain_inflight\<close> after the periodic tasks have ended; the timer cancels what still runs.\<close>

definition drain_begin :: "service \<Rightarrow> service" where
  "drain_begin sv = (if sv_inflight sv = [] then serve_end sv else sv\<lparr>sv_phase := Draining\<rparr>)"

definition drain_timeout :: "service \<Rightarrow> service" where
  "drain_timeout sv = sv\<lparr>sv_phase := Cancelling, sv_cancelled := sv_inflight sv\<rparr>"

fun service_step :: "sevent \<Rightarrow> service \<Rightarrow> service option" where
  "service_step (Frame cmd payload) sv =
     (if conn_closed (sv_conn sv) then None
      else Some (sv\<lparr>sv_conn := (case dispatch (sv_conn sv) cmd payload of Inl _ \<Rightarrow> close (sv_conn sv) | Inr st \<Rightarrow> st)\<rparr>))"
| "service_step ConnLost sv = Some (sv\<lparr>sv_conn := read_loop_eof (sv_conn sv)\<rparr>)"
| "service_step StopSignal sv = Some (sv\<lparr>sv_srv := request_stop (sv_srv sv)\<rparr>)"
| "service_step AcceptReady sv = (if sv_phase sv = Accepting then accept_turn sv else None)"
| "service_step StopSeen sv = (if sv_phase sv = Accepting \<and> stopping (sv_srv sv) then Some (leave_loop sv) else None)"
| "service_step (CallRead i) sv =
     (if i \<in> set (sv_inflight sv)
      then map_option (\<lambda>(_, st). sv\<lparr>sv_conn := st\<rparr>) (stream_read (sv_conn sv) (sv_streams sv ! i)) else None)"
| "service_step (CallWrite i data dr) sv =
     (if i \<in> set (sv_inflight sv)
      then Some (sv\<lparr>sv_conn := fst (stream_write (sv_conn sv) (sv_streams sv ! i) data dr)\<rparr>) else None)"
| "service_step (CallClose i dr) sv =
     (if i \<in> set (sv_inflight sv)
      then (let (st, s) = stream_close (sv_conn sv) (sv_streams sv ! i) dr
            in Some (sv\<lparr>sv_conn := st, sv_streams := (sv_streams sv)[i := s]\<rparr>)) else None)"
| "service_step (CallDone i) sv =
     (if i \<in> set (sv_inflight sv) then Some (sv\<lparr>sv_inflight := remove1 i (sv_inflight sv)\<rparr>) else None)"
| "service_step (PeriodicDone i) sv =
     (if i \<in> set (sv_periodic sv) then Some (sv\<lparr>sv_periodic := remove1 i (sv_periodic sv)\<rparr>) else None)"
| "service_step PeriodicGathered sv =
     (if sv_phase sv = Stopping \<and> sv_periodic sv = [] then Some (drain_begin sv) else None)"
| "service_step DrainTimer sv =
     (if sv_phase sv = Draining \<and> sv_inflight sv \<noteq> [] then Some (drain_timeout sv) else None)"
| "service_step Drained sv =
     (if (sv_phase sv = Draining \<or> sv_phase sv = Cancelling) \<and> sv_inflight sv = [] then Some (serve_end sv) else None)"

primrec service_run :: "sevent list \<Rightarrow> service \<Rightarrow> service option" where
  "service_run [] sv = Some sv"
| "service_run (e # es) sv = (case service_step e sv of None \<Rightarrow> None | Some sv' \<Rightarrow> service_run es sv')"

section \<open>Periodic tasks\<close>

text \<open>
  \<^verbatim>\<open>_run_periodic\<close>: one entry per turn of the loop, what ends the wait (the stop signal, the interval,
  or a cancellation) and what the user function does. The result is how often it was called and
  whether the task has ended.
\<close>

datatype wakeup = StopSet | Elapsed "exn option" | Cancelled

fun run_periodic :: "bool \<Rightarrow> wakeup list \<Rightarrow> nat \<times> bool" where
  "run_periodic is_set [] = (0, is_set)"
| "run_periodic is_set (w # ws) =
     (if is_set then (0, True)
      else (case w of
              StopSet \<Rightarrow> (0, True)
            | Cancelled \<Rightarrow> (0, True)
            | Elapsed r \<Rightarrow>
                if r = Some CancelledError then (1, True)
                else (let (n, fin) = run_periodic False ws in (Suc n, fin))))"

section \<open>Lemmas\<close>

text \<open>What the worker's part of the connection is: the queue of its listener.\<close>

definition same_accepts :: "client \<Rightarrow> client \<Rightarrow> bool" where
  "same_accepts st st' \<longleftrightarrow> accept_qs st' = accept_qs st \<and> listener_accept_queues st' = listener_accept_queues st"

lemma same_accepts_simps [simp]:
  "same_accepts st st" "same_accepts st (close st)" "same_accepts st (read_loop_eof st)"
  "same_accepts st (st\<lparr>written := w\<rparr>)" "same_accepts st (st\<lparr>recv_qs := r\<rparr>)"
  by (simp_all add: same_accepts_def close_def close_begin_def close_finish_def read_loop_eof_def fail_all_def eof_all_def)

lemma conn_closed_close [simp]: "conn_closed (close st)" "conn_closed (read_loop_eof st)"
  by (simp_all add: close_def close_begin_def close_finish_def read_loop_eof_def fail_all_def eof_all_def)

text \<open>The operations of the calls on their streams leave the listener's queue alone.\<close>

lemma written_same:
  assumes "st' = st\<lparr>written := w\<rparr>"
  shows "same_accepts st st'" "conn_closed st' = conn_closed st"
  using assms by simp_all

lemma same_accepts_io:
  "stream_read st s = Some (b, st1) \<Longrightarrow> same_accepts st st1 \<and> conn_closed st1 = conn_closed st"
  "same_accepts st (fst (stream_write st s data dr)) \<and> conn_closed (fst (stream_write st s data dr)) = conn_closed st"
  "same_accepts st (fst (stream_close st s d)) \<and> conn_closed (fst (stream_close st s d)) = conn_closed st"
  "conn_id (snd (stream_close st s d)) = conn_id s"
proof -
  show "stream_read st s = Some (b, st1) \<Longrightarrow> same_accepts st st1 \<and> conn_closed st1 = conn_closed st"
    by (auto simp: stream_read_def same_accepts_def split: list.splits)
  obtain st1 r where w: "stream_write st s data dr = (st1, r)" by (cases "stream_write st s data dr")
  show "same_accepts st (fst (stream_write st s data dr)) \<and> conn_closed (fst (stream_write st s data dr)) = conn_closed st"
    using written_same [OF stream_write_written [OF w]] by (simp add: w)
  have p: "same_accepts st (fst (send_raw st p d)) \<and> conn_closed (fst (send_raw st p d)) = conn_closed st" for p
    using written_same [OF send_raw_written [OF prod.collapse [symmetric]]] by blast
  show "same_accepts st (fst (stream_close st s d)) \<and> conn_closed (fst (stream_close st s d)) = conn_closed st"
    using p by (auto simp: stream_close_def Let_def same_accepts_def split: sum.splits)
  show "conn_id (snd (stream_close st s d)) = conn_id s" by (simp add: stream_close_def Let_def)
qed

definition queued :: "service \<Rightarrow> accepted_conn list" where
  "queued sv = accept_qs (sv_conn sv) ! accept_q (sv_listener sv)"

text \<open>The connections that a message of the daemon announces to the worker.\<close>

definition announces :: "service \<Rightarrow> sevent \<Rightarrow> int list" where
  "announces sv ev =
     (case ev of
        Frame cmd payload \<Rightarrow>
          (if cmd = CMD_ACCEPT
           then (case parse_accept payload of
                   Inr (Some a) \<Rightarrow>
                     if local_port a = listener_port (sv_listener sv) \<and> \<not> listener_closed (sv_listener sv)
                     then [acc_conn_id a] else []
                 | _ \<Rightarrow> [])
           else [])
      | _ \<Rightarrow> [])"

primrec announced :: "service \<Rightarrow> sevent list \<Rightarrow> int list" where
  "announced sv [] = []"
| "announced sv (e # es) =
     announces sv e @ (case service_step e sv of None \<Rightarrow> [] | Some sv' \<Rightarrow> announced sv' es)"

text \<open>The invariant of a running worker.\<close>

definition service_inv :: "service \<Rightarrow> bool" where
  "service_inv sv \<longleftrightarrow>
     accept_q (sv_listener sv) < length (accept_qs (sv_conn sv)) \<and>
     dict_get (listener_accept_queues (sv_conn sv)) (listener_port (sv_listener sv)) =
       (if listener_closed (sv_listener sv) then None else Some (accept_q (sv_listener sv))) \<and>
     (\<forall>p. p \<noteq> listener_port (sv_listener sv) \<longrightarrow>
        dict_get (listener_accept_queues (sv_conn sv)) p \<noteq> Some (accept_q (sv_listener sv))) \<and>
     distinct (sv_inflight sv) \<and> (\<forall>i \<in> set (sv_inflight sv). i < length (sv_streams sv)) \<and>
     (sv_phase sv = Accepting \<longleftrightarrow> \<not> listener_closed (sv_listener sv)) \<and>
     (sv_phase sv \<in> {Draining, Cancelling, Served} \<longrightarrow> sv_periodic sv = []) \<and>
     (sv_phase sv = Served \<longrightarrow> sv_inflight sv = [] \<and> conn_closed (sv_conn sv)) \<and>
     (sv_phase sv \<notin> {Cancelling, Served} \<longrightarrow> sv_cancelled sv = [])"

lemma service_inv_conn:
  assumes "service_inv sv" "same_accepts (sv_conn sv) st" "conn_closed (sv_conn sv) \<Longrightarrow> conn_closed st"
  shows "service_inv (sv\<lparr>sv_conn := st\<rparr>)" "queued (sv\<lparr>sv_conn := st\<rparr>) = queued sv"
  using assms by (auto simp: service_inv_def same_accepts_def queued_def)

lemma deliver_same_accepts [simp]:
  "same_accepts st (deliver_to_waiter st' c p) = same_accepts st st'" "conn_closed (deliver_to_waiter st' c p) = conn_closed st'"
  by (auto simp: deliver_to_waiter_def same_accepts_def split: option.splits list.splits)

lemma fail_oldest_same_accepts [simp]:
  "same_accepts st (fail_oldest_waiter st e)" "conn_closed (fail_oldest_waiter st e) = conn_closed st"
  by (auto simp: fail_oldest_waiter_def same_accepts_def split: list.splits)

lemma on_push_same_accepts [simp]:
  "same_accepts st (on_recv st p)" "same_accepts st (on_close_ok st p)"
  by (auto simp: on_recv_def on_close_ok_def pend_item_def same_accepts_def split: option.splits)

lemma dispatch_same_accepts:
  "cmd \<noteq> CMD_ACCEPT \<Longrightarrow> dispatch st cmd payload = Inr st' \<Longrightarrow> same_accepts st st'"
  by (auto simp: dispatch_def on_recv_from_def same_accepts_def [of st "st\<lparr>dgram_qs := x\<rparr>" for x] rmap_eq_Inr
    split: if_splits option.splits)

lemma dispatch_accept:
  assumes "service_inv sv" "dispatch (sv_conn sv) CMD_ACCEPT payload = Inr st" "\<not> conn_closed (sv_conn sv)"
  shows "service_inv (sv\<lparr>sv_conn := st\<rparr>)"
    "map acc_conn_id (queued (sv\<lparr>sv_conn := st\<rparr>)) = map acc_conn_id (queued sv) @ announces sv (Frame CMD_ACCEPT payload)"
proof -
  let ?l = "sv_listener sv" and ?c = "sv_conn sv"
  from assms(2) obtain r where r: "parse_accept payload = Inr r" and st: "st = (case r of None \<Rightarrow> ?c
      | Some a \<Rightarrow> (case dict_get (listener_accept_queues ?c) (local_port a) of
           Some q \<Rightarrow> ?c\<lparr>accept_qs := put q a (accept_qs ?c)\<rparr> | None \<Rightarrow> ?c))"
    by (auto simp: dispatch_def on_accept_def rmap_eq_Inr CMD_RECV_def CMD_ACCEPT_def)
  show "service_inv (sv\<lparr>sv_conn := st\<rparr>)"
    using assms(1,3) by (auto simp: st service_inv_def put_def split: option.splits)
  show "map acc_conn_id (queued (sv\<lparr>sv_conn := st\<rparr>)) = map acc_conn_id (queued sv) @ announces sv (Frame CMD_ACCEPT payload)"
  proof (cases r)
    case None
    then show ?thesis by (simp add: st queued_def announces_def r)
  next
    case (Some a)
    show ?thesis
    proof (cases "local_port a = listener_port ?l \<and> \<not> listener_closed ?l")
      case True
      then have "dict_get (listener_accept_queues ?c) (local_port a) = Some (accept_q ?l)"
        using assms(1) by (simp add: service_inv_def)
      with True show ?thesis using assms(1) by (simp add: st Some queued_def put_def announces_def r service_inv_def)
    next
      case False
      then have "dict_get (listener_accept_queues ?c) (local_port a) \<noteq> Some (accept_q ?l)"
        using assms(1) unfolding service_inv_def by (cases "local_port a = listener_port ?l") simp_all
      then have "accept_qs st ! accept_q ?l = accept_qs ?c ! accept_q ?l"
        by (auto simp: st Some put_def split: option.splits)
      moreover from False have "announces sv (Frame CMD_ACCEPT payload) = []" by (auto simp: announces_def r Some)
      ultimately show ?thesis by (simp add: queued_def)
    qed
  qed
qed

definition handed :: "service \<Rightarrow> int list" where
  "handed sv = map conn_id (sv_streams sv) @ map acc_conn_id (queued sv)"

lemma frame_step:
  assumes "service_inv sv" "service_step (Frame cmd payload) sv = Some sv'"
  shows "service_inv sv'" "handed sv' = handed sv @ announces sv (Frame cmd payload)"
proof -
  from assms(2) have c: "\<not> conn_closed (sv_conn sv)"
    and sv': "sv' = sv\<lparr>sv_conn := (case dispatch (sv_conn sv) cmd payload of Inl _ \<Rightarrow> close (sv_conn sv) | Inr st \<Rightarrow> st)\<rparr>"
    by (auto split: if_splits)
  have "service_inv sv' \<and> handed sv' = handed sv @ announces sv (Frame cmd payload)"
  proof (cases "dispatch (sv_conn sv) cmd payload")
    case (Inl e)
    then have "announces sv (Frame cmd payload) = []"
      by (auto simp: announces_def dispatch_def on_accept_def CMD_RECV_def CMD_ACCEPT_def split: if_splits sum.splits)
    with Inl service_inv_conn [OF assms(1), of "close (sv_conn sv)"] c show ?thesis by (simp add: sv' handed_def)
  next
    case (Inr st)
    show ?thesis
    proof (cases "cmd = CMD_ACCEPT")
      case True
      with dispatch_accept [OF assms(1) _ c, of payload st] Inr show ?thesis by (simp add: sv' handed_def)
    next
      case False
      with service_inv_conn [OF assms(1) dispatch_same_accepts [OF False Inr]] c Inr show ?thesis
        by (simp add: sv' handed_def announces_def)
    qed
  qed
  then show "service_inv sv'" "handed sv' = handed sv @ announces sv (Frame cmd payload)" by auto
qed

lemma leave_loop_facts:
  assumes "service_inv sv" "sv_phase sv = Accepting"
  shows "service_inv (leave_loop sv)" "handed (leave_loop sv) = handed sv"
  using assms by (auto simp: leave_loop_def listener_close_def service_inv_def handed_def queued_def)

lemma accept_turn_facts:
  assumes "service_inv sv" "sv_phase sv = Accepting" "accept_turn sv = Some sv'"
  shows "service_inv sv'" "handed sv' = handed sv"
proof -
  from assms(3) obtain st s where a: "listener_accept (sv_conn sv) (sv_listener sv) = Some (st, s)"
    by (auto simp: accept_turn_def)
  define sv1 where "sv1 = sv\<lparr>sv_conn := st, sv_streams := sv_streams sv @ [s], sv_inflight := sv_inflight sv @ [length (sv_streams sv)]\<rparr>"
  have sv': "sv' = (if stopping (sv_srv sv) then leave_loop sv1 else sv1)"
    using assms(3) a by (auto simp: accept_turn_def sv1_def Let_def)
  obtain x xs where q: "accept_qs (sv_conn sv) ! accept_q (sv_listener sv) = x # xs"
    and st: "accept_qs st = (accept_qs (sv_conn sv))[accept_q (sv_listener sv) := xs]"
      "listener_accept_queues st = listener_accept_queues (sv_conn sv)" "conn_closed st = conn_closed (sv_conn sv)"
    and s: "conn_id s = acc_conn_id x"
    using a by (auto simp: listener_accept_def register_recv_queue_def Let_def split: list.splits)
  have "service_inv sv1" "handed sv1 = handed sv" "sv_phase sv1 = Accepting"
    using assms(1,2) q st s by (auto simp: sv1_def service_inv_def handed_def queued_def less_Suc_eq)
  with leave_loop_facts [of sv1] show "service_inv sv'" "handed sv' = handed sv" by (simp_all add: sv')
qed

lemma serve_end_facts:
  assumes "service_inv sv" "sv_phase sv \<noteq> Accepting" "sv_inflight sv = []" "sv_periodic sv = []"
  shows "service_inv (serve_end sv)" "handed (serve_end sv) = handed sv"
  using service_inv_conn [OF assms(1), of "close (sv_conn sv)"] assms(2-4)
  by (simp_all add: serve_end_def service_inv_def handed_def queued_def)

lemma service_step_facts:
  assumes "service_inv sv" "service_step ev sv = Some sv'"
  shows "service_inv sv' \<and> handed sv' = handed sv @ announces sv ev"
proof (cases ev)
  case (Frame cmd payload)
  with frame_step assms show ?thesis by blast
next
  case ConnLost
  with assms service_inv_conn [OF assms(1), of "read_loop_eof (sv_conn sv)"] show ?thesis
    by (auto simp: handed_def announces_def)
next
  case StopSignal
  with assms(2) have "sv' = sv\<lparr>sv_srv := request_stop (sv_srv sv)\<rparr>" by simp
  with assms(1) StopSignal show ?thesis by (simp add: service_inv_def handed_def queued_def announces_def)
next
  case AcceptReady
  with assms accept_turn_facts [OF assms(1)] show ?thesis by (auto simp: announces_def split: if_splits)
next
  case StopSeen
  with assms leave_loop_facts [OF assms(1)] show ?thesis by (auto simp: announces_def split: if_splits)
next
  case (CallRead i)
  with assms(2) obtain b st where r: "stream_read (sv_conn sv) (sv_streams sv ! i) = Some (b, st)" "sv' = sv\<lparr>sv_conn := st\<rparr>"
    by (auto split: if_splits)
  from same_accepts_io(1) [OF r(1)] service_inv_conn [OF assms(1), of st] r CallRead show ?thesis
    by (simp add: handed_def announces_def)
next
  case (CallWrite i data dr)
  let ?st = "fst (stream_write (sv_conn sv) (sv_streams sv ! i) data dr)"
  from CallWrite assms(2) have "sv' = sv\<lparr>sv_conn := ?st\<rparr>" by (simp split: if_splits)
  with same_accepts_io(2) [of "sv_conn sv" "sv_streams sv ! i" data dr] service_inv_conn [OF assms(1), of ?st] CallWrite
  show ?thesis by (simp add: handed_def announces_def)
next
  case (CallClose i dr)
  let ?st = "fst (stream_close (sv_conn sv) (sv_streams sv ! i) dr)" and ?s = "snd (stream_close (sv_conn sv) (sv_streams sv ! i) dr)"
  from CallClose assms(2) have i: "i \<in> set (sv_inflight sv)"
    and sv': "sv' = sv\<lparr>sv_conn := ?st\<rparr>\<lparr>sv_streams := (sv_streams sv)[i := ?s]\<rparr>"
    by (auto simp: Let_def split: if_splits prod.splits)
  have m: "map conn_id ((sv_streams sv)[i := ?s]) = map conn_id (sv_streams sv)"
    using assms(1) i by (simp add: map_update same_accepts_io(4) service_inv_def)
      (metis list_update_id nth_map)
  from same_accepts_io(3) [of "sv_conn sv" "sv_streams sv ! i" dr] service_inv_conn [OF assms(1), of ?st]
  have "service_inv (sv\<lparr>sv_conn := ?st\<rparr>)" "queued (sv\<lparr>sv_conn := ?st\<rparr>) = queued sv" by auto
  then show ?thesis using m CallClose by (simp add: sv' service_inv_def handed_def queued_def announces_def)
next
  case (CallDone i)
  with assms(2) have "sv' = sv\<lparr>sv_inflight := remove1 i (sv_inflight sv)\<rparr>" by (simp split: if_splits)
  with assms(1) CallDone show ?thesis
    by (simp add: service_inv_def handed_def queued_def announces_def)
next
  case (PeriodicDone i)
  with assms(2) have "sv' = sv\<lparr>sv_periodic := remove1 i (sv_periodic sv)\<rparr>" by (simp split: if_splits)
  with assms(1) PeriodicDone show ?thesis by (simp add: service_inv_def handed_def queued_def announces_def)
next
  case PeriodicGathered
  with assms(2) have p: "sv_phase sv = Stopping" "sv_periodic sv = []" "sv' = drain_begin sv" by (simp_all split: if_splits)
  then show ?thesis using serve_end_facts [OF assms(1)] assms(1) PeriodicGathered
    by (cases "sv_inflight sv = []") (simp_all add: drain_begin_def announces_def service_inv_def handed_def queued_def)
next
  case DrainTimer
  with assms(2) have "sv_phase sv = Draining" "sv' = drain_timeout sv" by (simp_all split: if_splits)
  with assms(1) DrainTimer show ?thesis by (simp add: drain_timeout_def service_inv_def handed_def queued_def announces_def)
next
  case Drained
  with assms(2) have "sv_phase sv = Draining \<or> sv_phase sv = Cancelling" "sv_inflight sv = []" "sv' = serve_end sv"
    by (simp_all split: if_splits)
  moreover from this(1) assms(1) have "sv_periodic sv = []" by (auto simp: service_inv_def)
  ultimately show ?thesis using serve_end_facts [OF assms(1)] Drained by (auto simp: announces_def)
qed

lemma service_run_append:
  "service_run (xs @ ys) sv = (case service_run xs sv of None \<Rightarrow> None | Some sv' \<Rightarrow> service_run ys sv')"
  by (induction xs arbitrary: sv) (auto split: option.splits)

lemma service_run_facts:
  "service_inv sv \<Longrightarrow> service_run evs sv = Some sv' \<Longrightarrow> service_inv sv' \<and> handed sv' = handed sv @ announced sv evs"
proof (induction evs arbitrary: sv)
  case (Cons e evs)
  then obtain sv1 where "service_step e sv = Some sv1" "service_run evs sv1 = Some sv'" by (auto split: option.splits)
  with Cons.IH [of sv1] Cons.prems(1) service_step_facts [of sv e sv1] show ?case by simp
qed (simp add: handed_def)

lemma serve_start_inv:
  assumes "serve_start srv now st info bound = Inr sv" "listener_accept_queues st = []"
  shows "service_inv sv" "handed sv = []" "sv_cancelled sv = []" "sv_streams sv = []"
proof -
  from assms(1) obtain body where b: "bound = Inr body" "info = None" by (auto simp: serve_start_def result_simps split: option.splits)
  from assms(1) b obtain p where p: "parse_bind_ok body = Some p"
    by (auto simp: serve_start_def listen_finish_def split: option.splits)
  define sv0 where "sv0 = \<lparr>sv_conn = st\<lparr>accept_qs := accept_qs st @ [[]], listener_accept_queues := dict_set (listener_accept_queues st) p (length (accept_qs st))\<rparr>,
      sv_listener = \<lparr>listener_port = p, accept_q = length (accept_qs st), listener_closed = False\<rparr>, sv_srv = srv\<lparr>started_at := Some now\<rparr>,
      sv_phase = Accepting, sv_streams = [], sv_inflight = [], sv_cancelled = [], sv_periodic = [0..<length (periodic srv)]\<rparr>"
  have sv: "sv = (if stopping srv then leave_loop sv0 else sv0)"
    using assms(1) b p by (auto simp: serve_start_def listen_finish_def Let_def sv0_def)
  have "service_inv sv0" "handed sv0 = []"
    using assms(2) by (simp_all add: sv0_def service_inv_def handed_def queued_def)
  with leave_loop_facts [of sv0] show "service_inv sv" "handed sv = []" by (simp_all add: sv sv0_def)
  show "sv_cancelled sv = []" "sv_streams sv = []" by (simp_all add: sv sv0_def leave_loop_def split_def Let_def)
qed

text \<open>Stopping is final, and lets at most one accepted call through.\<close>

definition may_accept :: "service \<Rightarrow> nat" where
  "may_accept sv = (if sv_phase sv = Accepting then 1 else 0)"

lemma leave_loop_fields [simp]:
  "sv_phase (leave_loop sv) = Stopping" "sv_srv (leave_loop sv) = sv_srv sv" "sv_streams (leave_loop sv) = sv_streams sv"
  "sv_inflight (leave_loop sv) = sv_inflight sv" "sv_cancelled (leave_loop sv) = sv_cancelled sv"
  "sv_periodic (leave_loop sv) = sv_periodic sv"
  by (simp_all add: leave_loop_def split_def Let_def)

lemma stopping_step:
  assumes "service_step ev sv = Some sv'" "stopping (sv_srv sv)"
  shows "stopping (sv_srv sv') \<and> length (sv_streams sv') + may_accept sv' \<le> length (sv_streams sv) + may_accept sv"
  using assms
  by (cases ev) (auto simp: may_accept_def request_stop_def accept_turn_def drain_begin_def serve_end_def
      drain_timeout_def Let_def split: if_splits prod.splits)

lemma stopping_run:
  "service_run evs sv = Some sv' \<Longrightarrow> stopping (sv_srv sv) \<Longrightarrow>
     length (sv_streams sv') + may_accept sv' \<le> length (sv_streams sv) + may_accept sv"
proof (induction evs arbitrary: sv)
  case (Cons e evs)
  then obtain sv1 where "service_step e sv = Some sv1" "service_run evs sv1 = Some sv'" by (auto split: option.splits)
  with Cons.IH [of sv1] Cons.prems(2) stopping_step [of e sv sv1] show ?case by simp
qed simp

lemma cancelled_step:
  assumes "service_step ev sv = Some sv'" "ev \<noteq> DrainTimer"
  shows "sv_cancelled sv' = sv_cancelled sv"
  using assms
  by (cases ev) (auto simp: accept_turn_def drain_begin_def serve_end_def Let_def split: if_splits prod.splits)

lemma cancelled_run:
  "service_run evs sv = Some sv' \<Longrightarrow> DrainTimer \<notin> set evs \<Longrightarrow> sv_cancelled sv' = sv_cancelled sv"
proof (induction evs arbitrary: sv)
  case (Cons e evs)
  then obtain sv1 where "service_step e sv = Some sv1" "service_run evs sv1 = Some sv'" by (auto split: option.splits)
  with Cons.IH [of sv1] Cons.prems(2) cancelled_step [of e sv sv1] show ?case by (cases "e = DrainTimer") simp_all
qed simp

text \<open>The tasks end one after the other.\<close>

lemma run_call_done:
  "distinct is \<Longrightarrow> sv_inflight sv = is \<Longrightarrow> service_run (map CallDone is) sv = Some (sv\<lparr>sv_inflight := []\<rparr>)"
proof (induction "is" arbitrary: sv)
  case (Cons i js)
  then show ?case using Cons.IH [of "sv\<lparr>sv_inflight := js\<rparr>"] by simp
qed simp

lemma run_periodic_done:
  "sv_periodic sv = is \<Longrightarrow> service_run (map PeriodicDone is) sv = Some (sv\<lparr>sv_periodic := []\<rparr>)"
proof (induction "is" arbitrary: sv)
  case (Cons i js)
  then show ?case using Cons.IH [of "sv\<lparr>sv_periodic := js\<rparr>"] by simp
qed simp

section \<open>Properties\<close>

text \<open>A worker on port 5000 with no periodic task, and one call that is announced to it.\<close>

definition sample_call :: accepted_conn where
  "sample_call = \<lparr>local_port = 5000, acc_conn_id = 7, remote_addr = \<lparr>addr_network = 0, addr_node = 255\<rparr>, remote_port = 49000\<rparr>"

definition sample_listener :: listener where
  "sample_listener = \<lparr>listener_port = 5000, accept_q = 0, listener_closed = False\<rparr>"

definition sample_service :: "accepted_conn list \<Rightarrow> bool \<Rightarrow> service" where
  "sample_service q stop =
     \<lparr>sv_conn = client_init\<lparr>accept_qs := [q], listener_accept_queues := [(5000, 0)]\<rparr>, sv_listener = sample_listener,
      sv_srv = (server_new [])\<lparr>started_at := Some 0, stopping := stop\<rparr>, sv_phase = Accepting, sv_streams = [],
      sv_inflight = [], sv_cancelled = [], sv_periodic = []\<rparr>"

lemma server_new_fields [simp]: "stopping (server_new mws) = False" "periodic (server_new mws) = []"
  by (simp_all add: server_new_def register_introspection_def put_handler_def)

lemma sample_start:
  "serve_start (server_new []) 0 client_init None (Inr [19, 136]) = Inr (sample_service [] False)"
  by (simp add: serve_start_def listen_finish_def parse_bind_ok_def be_nat_def sample_service_def sample_listener_def client_init_def
    dict_set_def server_new_def register_introspection_def put_handler_def)

lemma sample_frame:
  "service_step (Frame CMD_ACCEPT (accept_bytes sample_call)) (sample_service [] False) = Some (sample_service [sample_call] False)"
  "announces (sample_service [] False) (Frame CMD_ACCEPT (accept_bytes sample_call)) = [7]"
proof -
  have p: "parse_accept (accept_bytes sample_call) = Inr (Some sample_call)"
    using parse_accept_bytes [of sample_call "[]"] by (simp add: wf_accepted_def wf_addr_def sample_call_def)
  then show "announces (sample_service [] False) (Frame CMD_ACCEPT (accept_bytes sample_call)) = [7]"
    by (simp add: announces_def sample_service_def sample_listener_def sample_call_def)
  have "dispatch (sv_conn (sample_service [] False)) CMD_ACCEPT (accept_bytes sample_call) = Inr (sv_conn (sample_service [sample_call] False))"
    using p by (simp add: dispatch_def CMD_RECV_def CMD_ACCEPT_def on_accept_def sample_service_def put_def dict_get_def sample_call_def)
  then show "service_step (Frame CMD_ACCEPT (accept_bytes sample_call)) (sample_service [] False) = Some (sample_service [sample_call] False)"
    by (simp add: sample_service_def client_init_def)
qed

lemma sample_stop: "service_step StopSignal (sample_service q b) = Some (sample_service q True)"
  by (simp add: sample_service_def request_stop_def)

definition sample_stopped :: service where
  "sample_stopped = the (service_run [AcceptReady, PeriodicGathered, CallDone 0, Drained] (sample_service [sample_call] True))"

lemma sample_end:
  "service_run [AcceptReady, PeriodicGathered, CallDone 0, Drained] (sample_service [sample_call] True) = Some sample_stopped"
  "sv_phase sample_stopped = Served" "map conn_id (sv_streams sample_stopped) = [7]" "queued sample_stopped = []"
  by (simp_all add: sample_stopped_def sample_service_def sample_listener_def accept_turn_def listener_accept_def register_recv_queue_def client_init_def
      Let_def leave_loop_def listener_close_def drain_begin_def serve_end_def sample_call_def queued_def close_def close_begin_def close_finish_def
      fail_all_def eof_all_def)

lemma sample_run:
  "service_run [Frame CMD_ACCEPT (accept_bytes sample_call)] (sample_service [] False) = Some (sample_service [sample_call] False)"
  "service_run ([Frame CMD_ACCEPT (accept_bytes sample_call)] @ StopSignal # [AcceptReady, PeriodicGathered, CallDone 0, Drained])
     (sample_service [] False) = Some sample_stopped"
  by (simp_all add: sample_frame sample_stop sample_end(1) service_run.simps(2) [of "Frame c p" for c p]
      service_run.simps(2) [of StopSignal] del: service_step.simps service_run.simps(2))

text \<open>
  C5: no call is lost. However the worker, the daemon, the calls in flight and a shutdown interleave,
  the calls that were given a task, followed by those that wait in the accept queue, are exactly
  the connections the daemon announced for the worker's port while its listener was open: each
  once and in order.
\<close>

theorem no_call_lost:
  assumes "serve_start srv now st info bound = Inr sv" "listener_accept_queues st = []" "service_run evs sv = Some sv'"
  shows "map conn_id (sv_streams sv') @ map acc_conn_id (queued sv') = announced sv evs"
  using service_run_facts [OF serve_start_inv(1) [OF assms(1,2)] assms(3)] serve_start_inv(2) [OF assms(1,2)]
  by (simp add: handed_def)

theorem no_call_lost_witness:
  "map conn_id (sv_streams sample_stopped) @ map acc_conn_id (queued sample_stopped) =
     announced (sample_service [] False)
       ([Frame CMD_ACCEPT (accept_bytes sample_call)] @ StopSignal # [AcceptReady, PeriodicGathered, CallDone 0, Drained])"
  by (rule no_call_lost [OF sample_start _ sample_run(2)]) (simp add: client_init_def)

text \<open>
  C6: the shutdown is graceful. When \<^verbatim>\<open>serve_forever\<close> returns, no call and no periodic task runs, the
  listener and the connection are closed, a call was cancelled only if the drain timeout ran out;
  and after the stop signal at most one more call was accepted.
\<close>

theorem graceful_shutdown:
  assumes "serve_start srv now st info bound = Inr sv" "listener_accept_queues st = []"
    "service_run (es @ StopSignal # es') sv = Some sv'" "service_run es sv = Some sv1" "sv_phase sv' = Served"
  shows "sv_inflight sv' = [] \<and> sv_periodic sv' = [] \<and> listener_closed (sv_listener sv') \<and> conn_closed (sv_conn sv') \<and>
    (DrainTimer \<notin> set (es @ es') \<longrightarrow> sv_cancelled sv' = []) \<and>
    length (sv_streams sv') \<le> length (sv_streams sv1) + 1"
proof -
  note inv = service_run_facts [OF serve_start_inv(1) [OF assms(1,2)] assms(3)]
  have "DrainTimer \<notin> set (es @ es') \<longrightarrow> sv_cancelled sv' = []"
    using cancelled_run [OF assms(3)] serve_start_inv(3) [OF assms(1,2)] by auto
  moreover from assms(3,4) have "service_run es' (sv1\<lparr>sv_srv := request_stop (sv_srv sv1)\<rparr>) = Some sv'"
    by (simp add: service_run_append)
  from stopping_run [OF this] have "length (sv_streams sv') \<le> length (sv_streams sv1) + 1"
    by (auto simp: request_stop_def may_accept_def split: if_splits)
  ultimately show ?thesis using inv assms(5) by (simp add: service_inv_def)
qed

theorem graceful_shutdown_witness:
  "sv_inflight sample_stopped = [] \<and> conn_closed (sv_conn sample_stopped) \<and> sv_cancelled sample_stopped = [] \<and>
     length (sv_streams sample_stopped) \<le> length (sv_streams (sample_service [sample_call] False)) + 1"
  using graceful_shutdown [OF sample_start _ sample_run(2,1) sample_end(2)] by (simp add: client_init_def)



text \<open>
  A periodic task runs once per interval that elapses, whatever its function raises, until it is
  stopped or cancelled; it never runs after that.
\<close>

lemma run_periodic_counts:
  assumes "\<forall>r \<in> set rs. r \<noteq> Some CancelledError" "w = StopSet \<or> w = Cancelled"
  shows "run_periodic False (map Elapsed rs @ w # ws) = (length rs, True)"
  using assms by (induction rs) auto

text \<open>
  The accept queue does not learn that the connection is gone: once it is closed and the queue is
  empty, no event but the stop signal makes the worker leave its accept loop.
\<close>

definition stalled :: "service \<Rightarrow> bool" where
  "stalled sv \<longleftrightarrow> sv_phase sv = Accepting \<and> conn_closed (sv_conn sv) \<and> queued sv = [] \<and> \<not> stopping (sv_srv sv)"

lemma stalled_conn:
  "stalled sv \<Longrightarrow> same_accepts (sv_conn sv) st \<Longrightarrow> conn_closed st \<Longrightarrow> stalled (sv\<lparr>sv_conn := st, sv_streams := ss\<rparr>)"
  by (simp add: stalled_def queued_def same_accepts_def)

lemma stalled_step:
  assumes "stalled sv" "service_step ev sv = Some sv'" "ev \<noteq> StopSignal"
  shows "stalled sv'"
proof (cases ev)
  case ConnLost
  with assms(2) stalled_conn [OF assms(1), of "read_loop_eof (sv_conn sv)" "sv_streams sv"] show ?thesis by auto
next
  case (CallRead i)
  with assms(2) obtain b st where r: "stream_read (sv_conn sv) (sv_streams sv ! i) = Some (b, st)" "sv' = sv\<lparr>sv_conn := st\<rparr>"
    by (auto split: if_splits)
  with same_accepts_io(1) [OF r(1)] stalled_conn [OF assms(1), of st "sv_streams sv"] assms(1) show ?thesis
    by (simp add: stalled_def)
next
  case (CallWrite i data dr)
  with assms(2) have "sv' = sv\<lparr>sv_conn := fst (stream_write (sv_conn sv) (sv_streams sv ! i) data dr)\<rparr>" by (simp split: if_splits)
  with same_accepts_io(2) [of "sv_conn sv" "sv_streams sv ! i" data dr] stalled_conn [OF assms(1), of _ "sv_streams sv"] assms(1)
  show ?thesis by (simp add: stalled_def)
next
  case (CallClose i dr)
  with assms(2) obtain s where "sv' = sv\<lparr>sv_conn := fst (stream_close (sv_conn sv) (sv_streams sv ! i) dr), sv_streams := s\<rparr>"
    by (auto simp: Let_def split: if_splits prod.splits)
  with same_accepts_io(3) [of "sv_conn sv" "sv_streams sv ! i" dr] stalled_conn [OF assms(1)] assms(1)
  show ?thesis by (simp add: stalled_def)
qed (use assms in \<open>auto simp: stalled_def queued_def accept_turn_def listener_accept_def split: if_splits\<close>)

text \<open>
  A worker whose daemon connection is lost does not notice: when the connection is closed and no
  announced call is left, \<^verbatim>\<open>serve_forever\<close> stays in its accept loop whatever happens, until a stop
  signal arrives.
\<close>

theorem lost_connection_unnoticed:
  assumes "stalled sv" "service_run evs sv = Some sv'" "StopSignal \<notin> set evs"
  shows "sv_phase sv' = Accepting"
proof -
  have "stalled sv'" using assms
  proof (induction evs arbitrary: sv)
    case (Cons e evs)
    then obtain sv1 where "service_step e sv = Some sv1" "service_run evs sv1 = Some sv'" by (auto split: option.splits)
    with Cons.IH [of sv1] Cons.prems stalled_step [of sv e sv1] show ?case by auto
  qed simp
  then show ?thesis by (simp add: stalled_def)
qed

theorem lost_connection_unnoticed_witness:
  "sv_phase ((sample_service [] False)\<lparr>sv_conn := close (sv_conn (sample_service [] False))\<rparr>) = Accepting"
proof -
  have "stalled ((sample_service [] False)\<lparr>sv_conn := close (sv_conn (sample_service [] False))\<rparr>)"
    by (simp add: stalled_def queued_def sample_service_def sample_listener_def close_def close_begin_def close_finish_def
        fail_all_def eof_all_def client_init_def)
  from lost_connection_unnoticed [OF this, of "[]"] show ?thesis by simp
qed

end
