(* ===== verification/Metrics.thy ===== *)
theory Metrics
  imports Server_Props
begin

text \<open>
  \<^verbatim>\<open>metrics.py\<close>: the Prometheus text of the worker's counters and the HTTP endpoint that serves it.
  \<^verbatim>\<open>f"{x:.6g}"\<close> of a float that is not an integer is the parameter \<open>g6\<close>.
\<close>

section \<open>Rendering\<close>

text \<open>\<^verbatim>\<open>s.replace(c, by)\<close> for a one-character \<^verbatim>\<open>c\<close>.\<close>

definition replace_cp :: "nat \<Rightarrow> pystr \<Rightarrow> pystr \<Rightarrow> pystr" where
  "replace_cp c by s = concat (map (\<lambda>x. if x = c then by else [x]) s)"

definition escape_label :: "pystr \<Rightarrow> pystr" where
  "escape_label value = replace_cp 10 [92, 110] (replace_cp 34 [92, 34] (replace_cp 92 [92, 92] value))"

datatype number = PyFloat rat | PyInt int

definition rendered :: "(rat \<Rightarrow> pystr) \<Rightarrow> number \<Rightarrow> pystr" where
  "rendered g6 v =
     (case v of
        PyFloat x \<Rightarrow> if x = of_int \<lfloor>x\<rfloor> then str_int \<lfloor>x\<rfloor> else g6 x
      | PyInt n \<Rightarrow> str_int n)"

definition label_str :: "(pystr, pystr) dict \<Rightarrow> pystr" where
  "label_str labels =
     (if labels = [] then []
      else u ''{'' @ join (u '','') (map (\<lambda>(k, v). k @ [61, 34] @ escape_label v @ [34]) (sort_key fst labels)) @ u ''}'')"

definition metric ::
    "(rat \<Rightarrow> pystr) \<Rightarrow> pystr \<Rightarrow> pystr \<Rightarrow> pystr \<Rightarrow> ((pystr, pystr) dict \<times> number) list \<Rightarrow> pystr list" where
  "metric g6 name help_text mtype samples =
     [u ''# HELP '' @ name @ u '' '' @ help_text, u ''# TYPE '' @ name @ u '' '' @ mtype] @
     map (\<lambda>(labels, value). name @ label_str labels @ u '' '' @ rendered g6 value) samples"

definition uptime :: "server \<Rightarrow> env \<Rightarrow> rat" where
  "uptime srv env = (case started_at srv of None \<Rightarrow> 0 | Some t \<Rightarrow> if t = 0 then 0 else e_monotonic env - t)"

text \<open>The samples of one family, one per handler in the order of the names.\<close>

definition handler_samples :: "server \<Rightarrow> (stats \<Rightarrow> rat) \<Rightarrow> ((pystr, pystr) dict \<times> number) list" where
  "handler_samples srv f =
     map (\<lambda>(name, r). ([(u ''handler'', name)], PyFloat (f (reg_stats (regs srv ! r))))) (sort_key fst (handlers srv))"

definition families :: "server \<Rightarrow> env \<Rightarrow> (pystr \<times> pystr \<times> pystr \<times> ((pystr, pystr) dict \<times> number) list) list" where
  "families srv env =
     [(u ''pilot_worker_uptime_seconds'', u ''Worker process uptime in seconds.'', u ''gauge'',
       [([], PyFloat (py_round_to 1 (uptime srv env)))]),
      (u ''pilot_worker_inflight_handlers'', u ''Currently-executing handler tasks.'', u ''gauge'',
       [([], PyInt (int (e_in_flight env)))]),
      (u ''pilot_worker_calls_total'', u ''Total handler invocations across all handlers.'', u ''counter'',
       [([], PyInt (int (total_calls srv)))]),
      (u ''pilot_worker_errors_total'', u ''Total handler errors across all handlers.'', u ''counter'',
       [([], PyInt (int (total_errors srv)))]),
      (u ''pilot_handler_calls_total'', u ''Total invocations per handler.'', u ''counter'',
       handler_samples srv (of_nat \<circ> calls)),
      (u ''pilot_handler_errors_total'', u ''Total errors per handler.'', u ''counter'',
       handler_samples srv (of_nat \<circ> errors)),
      (u ''pilot_handler_latency_ms_p50'', u ''Median latency over the last 256 calls (ms).'', u ''gauge'',
       handler_samples srv (\<lambda>s. percentile s (1 / 2))),
      (u ''pilot_handler_latency_ms_p95'', u ''P95 latency over the last 256 calls (ms).'', u ''gauge'',
       handler_samples srv (\<lambda>s. percentile s (19 / 20)))]"

definition render :: "(rat \<Rightarrow> pystr) \<Rightarrow> server \<Rightarrow> env \<Rightarrow> pystr" where
  "render g6 srv env =
     join (u [CHR 0x0A]) (concat (map (\<lambda>(name, help_text, mtype, samples). metric g6 name help_text mtype samples)
       (families srv env))) @ [10]"

text \<open>\<^verbatim>\<open>do_GET\<close>: the status and the body; a handler name that UTF-8 cannot encode raises first.\<close>

definition do_GET :: "(rat \<Rightarrow> pystr) \<Rightarrow> server \<Rightarrow> env \<Rightarrow> pystr \<Rightarrow> (int \<times> bytes) result" where
  "do_GET g6 srv env path =
     (if path = u ''/metrics'' then rmap (\<lambda>b. (200, b)) (utf8_encode (render g6 srv env))
      else if path = u ''/healthz'' then Inr (200, [111, 107, 10])
      else Inr (404, []))"

section \<open>A scraper\<close>

text \<open>
  What a Prometheus server reads: the lines that are not comments, each a metric name, at most
  one label with its quoted and escaped value, and the number.
\<close>

fun label_value :: "pystr \<Rightarrow> (pystr \<times> pystr) option" where
  "label_value [] = None"
| "label_value (c # s) =
     (if c = 34 then Some ([], s)
      else if c = 92 then
        (case s of [] \<Rightarrow> None
         | d # s' \<Rightarrow> map_option (\<lambda>(v, r). ((if d = 110 then 10 else d) # v, r)) (label_value s'))
      else map_option (\<lambda>(v, r). (c # v, r)) (label_value s))"

definition scrape_line :: "pystr \<Rightarrow> (pystr \<times> (pystr, pystr) dict \<times> pystr) option" where
  "scrape_line line =
     (let name = takeWhile (\<lambda>c. c \<noteq> 32 \<and> c \<noteq> 123) line in
      case drop (length name) line of
        [] \<Rightarrow> None
      | c # rest \<Rightarrow>
          if c = 32 then Some (name, [], rest)
          else (let k = takeWhile (\<lambda>c. c \<noteq> 61) rest in
                case label_value (drop (length k + 2) rest) of
                  None \<Rightarrow> None
                | Some (v, tail) \<Rightarrow> Some (name, [(k, v)], drop 2 tail)))"

fun split_lines :: "pystr \<Rightarrow> pystr \<Rightarrow> pystr list" where
  "split_lines acc [] = (if acc = [] then [] else [acc])"
| "split_lines acc (c # s) = (if c = 10 then acc # split_lines [] s else split_lines (acc @ [c]) s)"

definition scrape :: "pystr \<Rightarrow> (pystr \<times> (pystr, pystr) dict \<times> pystr) list" where
  "scrape text = List.map_filter scrape_line (filter (\<lambda>l. \<not> starts_with_cp 35 l) (split_lines [] text))"

section \<open>Lemmas\<close>

lemma escape_label_simps [simp]:
  "escape_label [] = []"
  "escape_label (c # v) =
     (if c = 92 then [92, 92] else if c = 34 then [92, 34] else if c = 10 then [92, 110] else [c]) @ escape_label v"
  by (simp_all add: escape_label_def replace_cp_def)

lemma label_value_escape: "label_value (escape_label v @ 34 # r) = Some (v, r)"
  by (induction v) simp_all

lemma escape_no_newline: "10 \<notin> set (escape_label v)"
  by (induction v) auto

lemma split_lines_line: "10 \<notin> set l \<Longrightarrow> split_lines acc (l @ 10 # s) = (acc @ l) # split_lines [] s"
  by (induction l arbitrary: acc) auto

lemma split_lines_join:
  "ls \<noteq> [] \<Longrightarrow> \<forall>l \<in> set ls. 10 \<notin> set l \<Longrightarrow> split_lines [] (join [10] ls @ [10]) = ls"
proof (induction ls rule: induct_list012)
  case (2 x)
  then show ?case using split_lines_line [of x "[]" "[]"] by simp
next
  case (3 x y zs)
  then show ?case using split_lines_line [of x "[]" "join [10] (y # zs) @ [10]"] by simp
qed simp

definition plain_name :: "pystr \<Rightarrow> bool" where
  "plain_name s \<longleftrightarrow> s \<noteq> [] \<and> (\<forall>c \<in> set s. c \<notin> {10, 32, 35, 61, 123})"

definition line_of :: "(rat \<Rightarrow> pystr) \<Rightarrow> pystr \<Rightarrow> (pystr, pystr) dict \<times> number \<Rightarrow> pystr" where
  "line_of g6 name s = (case s of (labels, value) \<Rightarrow> name @ label_str labels @ u '' '' @ rendered g6 value)"

lemma plain_name_facts:
  assumes "plain_name n"
  shows "takeWhile (\<lambda>c. c \<noteq> 32 \<and> c \<noteq> 123) (n @ 32 # r) = n" "takeWhile (\<lambda>c. c \<noteq> 32 \<and> c \<noteq> 123) (n @ 123 # r) = n"
    "takeWhile (\<lambda>c. c \<noteq> 61) (n @ 61 # r) = n" "\<not> starts_with_cp 35 (n @ r)" "10 \<notin> set n"
proof -
  have n: "\<forall>c \<in> set n. c \<noteq> 32 \<and> c \<noteq> 123" "\<forall>c \<in> set n. c \<noteq> 61" "\<forall>c \<in> set n. c \<noteq> 35" "\<forall>c \<in> set n. c \<noteq> 10" "n \<noteq> []"
    using assms by (auto simp: plain_name_def)
  from n(1) show "takeWhile (\<lambda>c. c \<noteq> 32 \<and> c \<noteq> 123) (n @ 32 # r) = n" "takeWhile (\<lambda>c. c \<noteq> 32 \<and> c \<noteq> 123) (n @ 123 # r) = n"
    by (simp_all add: takeWhile_tail takeWhile_eq_all_conv)
  from n(2) show "takeWhile (\<lambda>c. c \<noteq> 61) (n @ 61 # r) = n" by (simp add: takeWhile_tail takeWhile_eq_all_conv)
  from n(3,5) show "\<not> starts_with_cp 35 (n @ r)" by (cases n) simp_all
  from n(4) show "10 \<notin> set n" by auto
qed

lemma scrape_line_plain: "plain_name n \<Longrightarrow> scrape_line (line_of g6 n ([], v)) = Some (n, [], rendered g6 v)"
  by (simp add: scrape_line_def line_of_def label_str_def u_def plain_name_facts Let_def)

lemma scrape_line_labelled:
  assumes "plain_name n" "plain_name k"
  shows "scrape_line (line_of g6 n ([(k, l)], v)) = Some (n, [(k, l)], rendered g6 v)"
proof -
  let ?t = "escape_label l @ 34 # 125 # 32 # rendered g6 v"
  have "line_of g6 n ([(k, l)], v) = n @ 123 # k @ 61 # 34 # ?t"
    by (simp add: line_of_def label_str_def u_def)
  then show ?thesis
    using plain_name_facts(2) [OF assms(1)] plain_name_facts(3) [OF assms(2)]
    by (simp add: scrape_line_def Let_def label_value_escape)
qed

lemma str_int_no_newline: "10 \<notin> set (str_int n)"
  using str_int_printable [of n] by (auto simp: printable_def list_all_iff)

definition one_label :: "(pystr, pystr) dict \<Rightarrow> bool" where
  "one_label d \<longleftrightarrow> d = [] \<or> (\<exists>k v. d = [(k, v)] \<and> plain_name k)"

lemma line_facts:
  assumes "plain_name n" "one_label d" "\<forall>x. 10 \<notin> set (g6 x)"
  shows "10 \<notin> set (line_of g6 n (d, v))" "\<not> starts_with_cp 35 (line_of g6 n (d, v))"
    "scrape_line (line_of g6 n (d, v)) = Some (n, d, rendered g6 v)"
proof -
  have "10 \<notin> set (rendered g6 v)" using assms(3) by (auto simp: rendered_def str_int_no_newline split: number.splits)
  then show "10 \<notin> set (line_of g6 n (d, v))"
    using assms(2) plain_name_facts(5) [OF assms(1)] escape_no_newline
    by (auto simp: line_of_def label_str_def u_def one_label_def dest: plain_name_facts(5))
  show "\<not> starts_with_cp 35 (line_of g6 n (d, v))" using plain_name_facts(4) [OF assms(1)] by (simp add: line_of_def)
  show "scrape_line (line_of g6 n (d, v)) = Some (n, d, rendered g6 v)"
    using assms(1,2) scrape_line_plain scrape_line_labelled by (auto simp: one_label_def)
qed

text \<open>The lines of one family, and of all of them.\<close>

definition family_ok :: "pystr \<times> pystr \<times> pystr \<times> ((pystr, pystr) dict \<times> number) list \<Rightarrow> bool" where
  "family_ok f \<longleftrightarrow> (case f of (name, help_text, mtype, samples) \<Rightarrow>
     plain_name name \<and> 10 \<notin> set help_text \<and> 10 \<notin> set mtype \<and> (\<forall>s \<in> set samples. one_label (fst s)))"

lemma metric_lines:
  assumes "family_ok (name, help_text, mtype, samples)" "\<forall>x. 10 \<notin> set (g6 x)"
  shows "\<forall>l \<in> set (metric g6 name help_text mtype samples). 10 \<notin> set l"
    "List.map_filter scrape_line (filter (\<lambda>l. \<not> starts_with_cp 35 l) (metric g6 name help_text mtype samples)) =
       map (\<lambda>(d, v). (name, d, rendered g6 v)) samples"
proof -
  have m: "metric g6 name help_text mtype samples =
      [u ''# HELP '' @ name @ u '' '' @ help_text, u ''# TYPE '' @ name @ u '' '' @ mtype] @ map (line_of g6 name) samples"
    by (simp add: metric_def line_of_def [abs_def] split_def)
  have f: "plain_name name" "10 \<notin> set help_text" "10 \<notin> set mtype" "\<forall>s \<in> set samples. one_label (fst s)"
    using assms(1) by (simp_all add: family_ok_def)
  note l = line_facts [OF f(1) _ assms(2)]
  show "\<forall>l \<in> set (metric g6 name help_text mtype samples). 10 \<notin> set l"
    using f l(1) plain_name_facts(5) [OF f(1)] by (fastforce simp: m u_def)
  have "List.map_filter scrape_line (filter (\<lambda>l. \<not> starts_with_cp 35 l) (map (line_of g6 name) samples)) =
      map (\<lambda>(d, v). (name, d, rendered g6 v)) samples"
    using f(4) l(2,3) by (induction samples) (auto simp: List.map_filter_simps)
  then show "List.map_filter scrape_line (filter (\<lambda>l. \<not> starts_with_cp 35 l) (metric g6 name help_text mtype samples)) =
       map (\<lambda>(d, v). (name, d, rendered g6 v)) samples"
    by (simp add: m u_def)
qed

lemma map_filter_append: "List.map_filter f (xs @ ys) = List.map_filter f xs @ List.map_filter f ys"
  by (simp add: List.map_filter_def)

lemma families_scraped:
  assumes "\<forall>f \<in> set fs. family_ok f" "\<forall>x. 10 \<notin> set (g6 x)"
  shows "(\<forall>l \<in> set (concat (map (\<lambda>(name, h, t, samples). metric g6 name h t samples) fs)). 10 \<notin> set l) \<and>
    List.map_filter scrape_line (filter (\<lambda>l. \<not> starts_with_cp 35 l) (concat (map (\<lambda>(name, h, t, samples). metric g6 name h t samples) fs))) =
      concat (map (\<lambda>(name, h, t, samples). map (\<lambda>(d, v). (name, d, rendered g6 v)) samples) fs)"
  using assms(1)
proof (induction fs)
  case (Cons f fs)
  obtain name h t samples where f: "f = (name, h, t, samples)" by (cases f)
  with metric_lines [of name h t samples g6] assms(2) Cons show ?case by (auto simp: map_filter_append)
qed (simp add: List.map_filter_simps)

lemma families_ok: "\<forall>f \<in> set (families srv env). family_ok f"
proof -
  have "one_label [(u ''handler'', n)]" for n by (simp add: one_label_def plain_name_def u_def)
  then show ?thesis
    by (auto simp: families_def family_ok_def plain_name_def u_def handler_samples_def one_label_def [of "[]"])
qed



end
