(* ===== verification/Worker.thy ===== *)
theory Worker
  imports Server_Props
begin

text \<open>
  \<^verbatim>\<open>worker.py\<close>: loading the handler module, hot reload, and the JSON log lines. A user module is what
  running it does: the \<^verbatim>\<open>@pilot_handler\<close> decorations in order and what it raises afterwards, and the
  calls of its \<^verbatim>\<open>register(server)\<close>, if it has one. The files' modification times are inputs.
\<close>

section \<open>The handler module\<close>

type_synonym decorations = "(pystr \<times> handler_fn \<times> options) list"

record user_module =
  m_decorated :: decorations
  m_raises :: "exn option"
  m_register :: "(decorations \<times> exn option) option"

type_synonym globals = "(pystr, registration) dict"

definition run_decorators :: "globals \<Rightarrow> decorations \<Rightarrow> globals" where
  "run_decorators g ds = foldl (\<lambda>g (name, f, opts). pilot_handler g name f opts) g ds"

definition import_module :: "globals \<Rightarrow> user_module \<Rightarrow> globals \<times> exn option" where
  "import_module g m = (run_decorators g (m_decorated m), m_raises m)"

text \<open>\<^verbatim>\<open>if hasattr(mod, "register"): mod.register(server)\<close>.\<close>

definition call_register :: "user_module \<Rightarrow> server \<Rightarrow> server \<times> exn option" where
  "call_register m srv =
     (case m_register m of
        None \<Rightarrow> (srv, None)
      | Some (ds, e) \<Rightarrow> (foldl (\<lambda>s (name, f, opts). register s name f opts) srv ds, e))"

definition collect_handlers :: "globals \<Rightarrow> user_module \<Rightarrow> server \<Rightarrow> globals \<times> server \<times> exn option" where
  "collect_handlers g m srv =
     (let (g', decorated) = consume_global_handlers g
      in (g', call_register m (register_many srv (map (\<lambda>(name, r). (name, Inr r)) decorated))))"

section \<open>Reloading\<close>

text \<open>
  \<^verbatim>\<open>_reload_handler_module\<close>: the registry of decorated handlers, the server, and what escapes.
\<close>

definition reload_handler_module :: "globals \<Rightarrow> user_module \<Rightarrow> server \<Rightarrow> globals \<times> server \<times> exn option" where
  "reload_handler_module g m srv =
     (case import_module g m of
        (g1, Some e) \<Rightarrow> (g1, srv, if is_Exception e then None else Some e)
      | (g1, None) \<Rightarrow>
          (case collect_handlers g1 m (clear_user_handlers srv) of
             (g2, srv2, x) \<Rightarrow> (g2, srv2, case x of Some e \<Rightarrow> if is_Exception e then None else Some e | None \<Rightarrow> None)))"

text \<open>\<^verbatim>\<open>_check\<close> of \<^verbatim>\<open>_watch_module_file\<close>: \<open>None\<close> is an \<^verbatim>\<open>OSError\<close> of \<^verbatim>\<open>os.stat\<close>.\<close>

definition watch_start :: "rat option \<Rightarrow> rat" where
  "watch_start st = (case st of None \<Rightarrow> 0 | Some t \<Rightarrow> t)"

definition watch_check ::
    "rat option \<Rightarrow> user_module \<Rightarrow> rat \<times> globals \<times> server \<Rightarrow> rat \<times> globals \<times> server \<times> exn option" where
  "watch_check current m s =
     (case s of (seen, g, srv) \<Rightarrow>
        (case current of
           None \<Rightarrow> (seen, g, srv, None)
         | Some t \<Rightarrow> if t \<noteq> seen then (t, reload_handler_module g m srv) else (seen, g, srv, None)))"

section \<open>Log lines\<close>

text \<open>
  A log record: the formatted time, the milliseconds, the standard fields and the attributes of
  the object, each with its JSON value or, when \<^verbatim>\<open>json.dumps\<close> refuses it, its \<^verbatim>\<open>repr\<close>.
\<close>

record log_record =
  lr_time :: pystr
  lr_msecs :: rat
  lr_level :: pystr
  lr_name :: pystr
  lr_message :: pystr
  lr_attrs :: "(pystr, json + pystr) dict"
  lr_exc :: "pystr option"

definition STD_ATTRS :: "pystr list" where
  "STD_ATTRS = map u
     [''name'', ''msg'', ''args'', ''levelname'', ''levelno'', ''pathname'', ''filename'',
      ''module'', ''exc_info'', ''exc_text'', ''stack_info'', ''lineno'', ''funcName'',
      ''created'', ''msecs'', ''relativeCreated'', ''thread'', ''threadName'',
      ''processName'', ''process'', ''asctime'', ''taskName'']"

text \<open>\<^verbatim>\<open>f"{n:03d}"\<close>.\<close>

definition fmt_03d :: "int \<Rightarrow> pystr" where
  "fmt_03d n =
     (let s = str_nat (nat \<bar>n\<bar>) in
      if n < 0 then [45] @ replicate (2 - length s) 48 @ s else replicate (3 - length s) 48 @ s)"

definition is_extra :: "pystr \<Rightarrow> bool" where
  "is_extra k \<longleftrightarrow> k \<notin> set STD_ATTRS \<and> \<not> starts_with_cp UNDERSCORE k"

definition attr_json :: "json + pystr \<Rightarrow> json" where
  "attr_json v = (case v of Inl j \<Rightarrow> j | Inr r \<Rightarrow> JStr r)"

text \<open>\<^verbatim>\<open>int(x)\<close> cuts towards zero.\<close>

definition py_trunc :: "rat \<Rightarrow> int" where
  "py_trunc x = (if x < 0 then \<lceil>x\<rceil> else \<lfloor>x\<rfloor>)"

definition log_payload :: "log_record \<Rightarrow> (pystr, json) dict" where
  "log_payload r =
     (let base = [(u ''ts'', JStr (lr_time r @ u ''.'' @ fmt_03d (py_trunc (lr_msecs r)) @ u ''Z'')),
                  (u ''level'', JStr (lr_level r)), (u ''logger'', JStr (lr_name r)), (u ''message'', JStr (lr_message r))];
          all = foldl (\<lambda>d (k, v). if is_extra k then dict_set d k (attr_json v) else d) base (lr_attrs r)
      in case lr_exc r of None \<Rightarrow> all | Some t \<Rightarrow> dict_set all (u ''exc'') (JStr t))"

definition format :: "log_record \<Rightarrow> pystr" where
  "format r = json_dumps (JObj (log_payload r))"

section \<open>Lemmas\<close>

lemma dict_get_decorated:
  "dict_get (run_decorators g ds) name \<noteq> None \<longleftrightarrow> dict_get g name \<noteq> None \<or> name \<in> fst ` set ds"
proof (induction ds arbitrary: g)
  case (Cons d ds)
  obtain n f opts where "d = (n, f, opts)" by (cases d)
  then show ?case using Cons [of "pilot_handler g n f opts"]
    by (auto simp: run_decorators_def pilot_handler_def)
qed (simp add: run_decorators_def)

text \<open>
  Registering touches only the table: the registrations that exist stay as they are, a name gets a
  fresh one, and the counters and the middleware do not change.
\<close>

definition only_registered :: "pystr set \<Rightarrow> server \<Rightarrow> server \<Rightarrow> bool" where
  "only_registered N srv srv' \<longleftrightarrow>
     (\<exists>rs. regs srv' = regs srv @ rs) \<and>
     (\<forall>name. name \<notin> N \<longrightarrow> dict_get (handlers srv') name = dict_get (handlers srv) name) \<and>
     (\<forall>name \<in> N. \<exists>r \<ge> length (regs srv). r < length (regs srv') \<and> dict_get (handlers srv') name = Some r) \<and>
     middlewares srv' = middlewares srv \<and> total_calls srv' = total_calls srv \<and> total_errors srv' = total_errors srv"

lemma only_registered_refl: "only_registered {} srv srv"
  by (simp add: only_registered_def)

lemma only_registered_put:
  assumes "only_registered N srv srv1" shows "only_registered (insert name N) srv (put_handler srv1 name reg)"
  using assms unfolding only_registered_def put_handler_def by (auto intro: less_SucI)

lemma register_many_effect:
  assumes "only_registered N srv srv1" shows "only_registered (N \<union> fst ` set m) srv (register_many srv1 m)"
  using assms
proof (induction m arbitrary: N srv1)
  case (Cons nv m)
  obtain n v where nv: "nv = (n, v)" by (cases nv)
  let ?reg = "case v of Inr reg \<Rightarrow> reg | Inl f \<Rightarrow> new_registration f default_options"
  from Cons.IH [OF only_registered_put [OF Cons.prems, of n ?reg]] show ?case by (simp add: nv)
qed simp

lemma call_register_effect:
  assumes "only_registered N srv srv1"
  shows "only_registered (N \<union> (case m_register m of None \<Rightarrow> {} | Some (ds, _) \<Rightarrow> fst ` set ds)) srv (fst (call_register m srv1))"
proof -
  have "only_registered (N \<union> fst ` set ds) srv (foldl (\<lambda>s (name, f, opts). register s name f opts) srv1 ds)" for ds
    using assms
  proof (induction ds arbitrary: N srv1)
    case (Cons d ds)
    obtain n f opts where d: "d = (n, f, opts)" by (cases d)
    from Cons.IH [OF only_registered_put [OF Cons.prems, of n "new_registration f opts"]] show ?case by (simp add: d register_def)
  qed simp
  then show ?thesis using assms by (auto simp: call_register_def split: option.splits)
qed

definition module_names :: "user_module \<Rightarrow> pystr set" where
  "module_names m = fst ` set (m_decorated m) \<union> (case m_register m of None \<Rightarrow> {} | Some (ds, _) \<Rightarrow> fst ` set ds)"

lemma collect_handlers_effect:
  "fst (collect_handlers g m srv) = []"
  "only_registered (fst ` set g \<union> (case m_register m of None \<Rightarrow> {} | Some (ds, _) \<Rightarrow> fst ` set ds)) srv (fst (snd (collect_handlers g m srv)))"
  using call_register_effect [OF register_many_effect [OF only_registered_refl [of srv],
      where m = "map (\<lambda>(name, r). (name, Inr r)) g"], where m = m]
  by (simp_all add: collect_handlers_def consume_global_handlers_def image_image split_def)

lemma decorated_names: "fst ` set (run_decorators [] ds) = fst ` set ds"
  using dict_get_decorated [of "[]" ds] by (auto simp: dict_get_def dom_map_of_conv_image_fst [symmetric] dom_def)

section \<open>Properties\<close>


definition sample_module :: "exn option \<Rightarrow> user_module" where
  "sample_module e = \<lparr>m_decorated = [(u ''enrich'', HealthFn, default_options)], m_raises = e, m_register = None\<rparr>"


text \<open>
  A failed reload is not forgotten. The handlers that a module registered before it raised stay
  in the decorator registry, and the next successful reload, of any module, installs them too.
\<close>

theorem failed_reload_leaks:
  assumes "m_raises m1 = Some e" "name \<in> fst ` set (m_decorated m1)" "m_raises m2 = None"
    "reload_handler_module [] m1 srv = (g1, srv1, x1)" "reload_handler_module g1 m2 srv1 = (g2, srv2, x2)"
  shows "\<exists>r. dict_get (handlers srv2) name = Some r"
proof -
  from assms(1,4) have g1: "g1 = run_decorators [] (m_decorated m1)" by (simp add: reload_handler_module_def import_module_def)
  have "dict_get (run_decorators g1 (m_decorated m2)) name \<noteq> None"
    using dict_get_decorated [of g1 "m_decorated m2" name] dict_get_decorated [of "[]" "m_decorated m1" name] assms(2) by (simp add: g1)
  then have "name \<in> fst ` set (run_decorators g1 (m_decorated m2))" by (metis dict_get_Some_in image_eqI fst_conv option.exhaust)
  with collect_handlers_effect(2) [of "run_decorators g1 (m_decorated m2)" m2 "clear_user_handlers srv1"]
  have "\<exists>r. dict_get (handlers (fst (snd (collect_handlers (run_decorators g1 (m_decorated m2)) m2 (clear_user_handlers srv1))))) name = Some r"
    unfolding only_registered_def by blast
  moreover have "srv2 = fst (snd (collect_handlers (run_decorators g1 (m_decorated m2)) m2 (clear_user_handlers srv1)))"
    using assms(3,5) by (auto simp: reload_handler_module_def import_module_def split: prod.splits)
  ultimately show ?thesis by simp
qed

theorem failed_reload_leaks_witness:
  "\<exists>r. dict_get (handlers (fst (snd (reload_handler_module
      (fst (reload_handler_module [] (sample_module (Some (UserExn (u ''SyntaxError'') []))) (server_new [])))
      \<lparr>m_decorated = [], m_raises = None, m_register = None\<rparr>
      (fst (snd (reload_handler_module [] (sample_module (Some (UserExn (u ''SyntaxError'') []))) (server_new [])))))))) (u ''enrich'') = Some r"
proof -
  let ?m1 = "sample_module (Some (UserExn (u ''SyntaxError'') []))" and ?m2 = "\<lparr>m_decorated = [], m_raises = None, m_register = None\<rparr>"
  obtain g1 srv1 x1 where 1: "reload_handler_module [] ?m1 (server_new []) = (g1, srv1, x1)" by (metis prod_cases3)
  obtain g2 srv2 x2 where 2: "reload_handler_module g1 ?m2 srv1 = (g2, srv2, x2)" by (metis prod_cases3)
  have "\<exists>r. dict_get (handlers srv2) (u ''enrich'') = Some r"
    by (rule failed_reload_leaks [OF _ _ _ 1 2]) (simp_all add: sample_module_def)
  then show ?thesis by (simp add: 1 2)
qed

text \<open>Well-formed log records give well-formed payloads.\<close>

definition wf_record :: "log_record \<Rightarrow> bool" where
  "wf_record r \<longleftrightarrow> list_all (list_all is_scalar) [lr_time r, lr_level r, lr_name r, lr_message r] \<and>
     list_all (\<lambda>(k, v). list_all is_scalar k \<and> wf_json (attr_json v)) (lr_attrs r) \<and>
     (case lr_exc r of None \<Rightarrow> True | Some t \<Rightarrow> list_all is_scalar t)"

lemma wf_dict_set:
  assumes "wf_json (JObj d)" "list_all is_scalar k" "wf_json v" shows "wf_json (JObj (dict_set d k v))"
proof -
  have "set (dict_set d k v) \<subseteq> insert (k, v) (set d)"
    unfolding dict_set_def by (induction d) auto
  moreover have "distinct (map fst (dict_set d k v))"
    using distinct_dict_set [of d k v] assms(1) by (simp add: dict_keys_def)
  ultimately show ?thesis using assms by (fastforce simp: list_all_iff)
qed

lemma fmt_03d_scalar: "list_all is_scalar (fmt_03d n)"
proof -
  have "list_all is_scalar (str_nat m)" for m
    using str_nat_ascii [of m] by (auto simp: list_all_iff is_scalar_def is_surrogate_def ascii_digit_def)
  moreover have "is_scalar 48" "is_scalar 45" by (simp_all add: is_scalar_def is_surrogate_def)
  ultimately show ?thesis by (auto simp: fmt_03d_def Let_def list_all_iff)
qed

lemma wf_attrs:
  assumes "list_all (\<lambda>(k, v). list_all is_scalar k \<and> wf_json (attr_json v)) attrs" "wf_json (JObj d)"
  shows "wf_json (JObj (foldl (\<lambda>d (k, v). if is_extra k then dict_set d k (attr_json v) else d) d attrs))"
  using assms
proof (induction attrs arbitrary: d)
  case (Cons kv attrs)
  obtain k v where kv: "kv = (k, v)" by (cases kv)
  with Cons.prems have "wf_json (JObj (if is_extra k then dict_set d k (attr_json v) else d))"
    using wf_dict_set [of d k "attr_json v"] by simp
  from Cons.IH [OF _ this] Cons.prems(1) show ?case by (simp add: kv)
qed simp

lemma wf_log_payload: "wf_record r \<Longrightarrow> wf_json (JObj (log_payload r))"
proof -
  assume r: "wf_record r"
  have "wf_json (JObj [(u ''ts'', JStr (lr_time r @ u ''.'' @ fmt_03d (py_trunc (lr_msecs r)) @ u ''Z'')),
      (u ''level'', JStr (lr_level r)), (u ''logger'', JStr (lr_name r)), (u ''message'', JStr (lr_message r))])"
    using r by (simp add: wf_record_def scalar_u fmt_03d_scalar)
  from wf_attrs [OF _ this, of "lr_attrs r"] r show ?thesis
    by (cases "lr_exc r") (simp_all add: log_payload_def Let_def wf_record_def wf_dict_set scalar_u del: wf_json.simps(7))
qed

text \<open>
  With \<^verbatim>\<open>--log-format json\<close> every record is one line, and parsing the line gives back the payload:
  the message and every extra field with its value.
\<close>

theorem log_line_roundtrip:
  assumes "wf_record r" shows "10 \<notin> set (format r) \<and> decode (format r) = Inr (JObj (log_payload r))"
proof -
  note w = wf_log_payload [OF assms]
  from json_dumps_printable [OF w] have "10 \<notin> set (json_dumps (JObj (log_payload r)))" by (auto simp: list_all_iff printable_def)
  with decode_json_dumps [OF w] show ?thesis by (simp add: format_def)
qed

theorem log_line_roundtrip_witness:
  "10 \<notin> set (format \<lparr>lr_time = u ''2024-01-01T00:00:00'', lr_msecs = 7, lr_level = u ''INFO'', lr_name = u ''w'', lr_message = [10, 34],
      lr_attrs = [(u ''call'', Inl (JInt 3)), (u ''msg'', Inr [])], lr_exc = None\<rparr>)"
proof -
  have "wf_record \<lparr>lr_time = u ''2024-01-01T00:00:00'', lr_msecs = 7, lr_level = u ''INFO'', lr_name = u ''w'', lr_message = [10, 34],
      lr_attrs = [(u ''call'', Inl (JInt 3)), (u ''msg'', Inr [])], lr_exc = None\<rparr>"
    by (simp add: wf_record_def scalar_u attr_json_def is_scalar_def is_surrogate_def)
  from log_line_roundtrip [OF this] show ?thesis ..
qed

end
