(* ===== verification/Worker_Main.thy ===== *)
theory Worker_Main
  imports Worker
begin

text \<open>
  The process of \<^verbatim>\<open>worker.py\<close>: logging setup, signal handlers, the metrics server around \<^verbatim>\<open>serve_forever\<close>, the reload
  watcher as a periodic task, and \<^verbatim>\<open>main\<close> after the arguments are parsed. What the platform does is an input.
\<close>

section \<open>Logging\<close>

datatype log_format = JsonLines | PlainLines pystr

record root_logger =
  root_handlers :: "log_format list"
  root_level :: pystr

text \<open>\<^verbatim>\<open>str.upper()\<close> of a level name in ASCII, and the names that \<^verbatim>\<open>setLevel\<close> knows.\<close>

definition upper_ascii :: "pystr \<Rightarrow> pystr" where
  "upper_ascii s = map (\<lambda>c. if 97 \<le> c \<and> c \<le> 122 then c - 32 else c) s"

definition LEVELS :: "pystr list" where
  "LEVELS = map u [''CRITICAL'', ''FATAL'', ''ERROR'', ''WARN'', ''WARNING'', ''INFO'', ''DEBUG'', ''NOTSET'']"

definition configure_logging :: "pystr \<Rightarrow> pystr \<Rightarrow> root_logger \<Rightarrow> root_logger result" where
  "configure_logging level fmt lg =
     (let h = (if fmt = u ''json'' then JsonLines else PlainLines (u ''%(asctime)s %(levelname)s %(name)s: %(message)s''));
          lg' = lg\<lparr>root_handlers := [h]\<rparr>;
          l = upper_ascii level
      in if l \<in> set LEVELS then Inr (lg'\<lparr>root_level := l\<rparr>) else Inl (ValueError (u ''Unknown level: '' @ l)))"

section \<open>The process\<close>

record worker_args =
  a_log_level :: pystr
  a_log_format :: pystr
  a_metrics_port :: "int option"
  a_reload :: bool
  a_interval :: rat

text \<open>
  The handler module, its file (\<open>None\<close> without \<^verbatim>\<open>__file__\<close>, else what \<^verbatim>\<open>os.stat\<close> gives), whether the loop
  takes signal handlers, what binding the metrics port raises, and how \<^verbatim>\<open>serve_forever\<close> ends.
\<close>

record platform =
  p_module :: user_module
  p_file :: "rat option option"
  p_signals :: bool
  p_bind :: "int \<Rightarrow> exn option"
  p_served :: "server \<Rightarrow> exn option"

datatype worker_event =
    SignalHandler pystr
  | MetricsUp int
  | Serving
  | MetricsDown

definition KEYBOARD_INTERRUPT :: exn where
  "KEYBOARD_INTERRUPT = UserExn (u ''KeyboardInterrupt'') []"

definition install_signal_handlers :: "bool \<Rightarrow> worker_event list" where
  "install_signal_handlers ok = (if ok then [SignalHandler (u ''SIGTERM''), SignalHandler (u ''SIGINT'')] else [])"

text \<open>The callback of a signal.\<close>

definition on_signal :: "server \<Rightarrow> server" where
  "on_signal srv = request_stop srv"

definition start_metrics :: "platform \<Rightarrow> int option \<Rightarrow> (int option) result" where
  "start_metrics p port =
     (case port of
        None \<Rightarrow> Inr None
      | Some n \<Rightarrow> if n = 0 then Inr None else (case p_bind p n of Some e \<Rightarrow> Inl e | None \<Rightarrow> Inr (Some n)))"

definition serve_process :: "platform \<Rightarrow> int option \<Rightarrow> server \<Rightarrow> worker_event list \<times> int result" where
  "serve_process p port srv =
     (let sigs = install_signal_handlers (p_signals p) in
      case start_metrics p port of
        Inl e \<Rightarrow> (sigs, Inl e)
      | Inr httpd \<Rightarrow>
          (sigs @ (case httpd of None \<Rightarrow> [Serving] | Some n \<Rightarrow> [MetricsUp n, Serving, MetricsDown]),
           case p_served p srv of Some e \<Rightarrow> Inl e | None \<Rightarrow> Inr 0))"

text \<open>\<^verbatim>\<open>_watch_module_file\<close>: the modification time the watcher starts from, or no watcher.\<close>

definition watch_module_file :: "platform \<Rightarrow> rat option" where
  "watch_module_file p = map_option watch_start (p_file p)"

definition add_watcher :: "platform \<Rightarrow> worker_args \<Rightarrow> server \<Rightarrow> server result" where
  "add_watcher p args srv =
     (if a_reload args then
        (case watch_module_file p of
           None \<Rightarrow> Inr srv
         | Some _ \<Rightarrow> add_periodic_task srv (a_interval args) (u ''_check'') (Some (u ''reload-watch'')))
      else Inr srv)"

text \<open>\<^verbatim>\<open>main\<close>: what the process does, the server it serves, and the exit code or the exception that ends it.\<close>

definition worker_process :: "globals \<Rightarrow> root_logger \<Rightarrow> platform \<Rightarrow> worker_args \<Rightarrow> worker_event list \<times> server option \<times> int result" where
  "worker_process g lg p args =
     (case configure_logging (a_log_level args) (a_log_format args) lg of
        Inl e \<Rightarrow> ([], None, Inl e)
      | Inr _ \<Rightarrow>
          (case import_module g (p_module p) of
             (g1, Some e) \<Rightarrow> ([], None, Inl e)
           | (g1, None) \<Rightarrow>
               (case collect_handlers g1 (p_module p) (server_new []) of
                  (_, srv, Some e) \<Rightarrow> ([], None, Inl e)
                | (_, srv, None) \<Rightarrow>
                    if handlers srv = [] then ([], None, Inr 2)
                    else (case add_watcher p args srv of
                            Inl e \<Rightarrow> ([], None, Inl e)
                          | Inr srv' \<Rightarrow>
                              (let (evs, r) = serve_process p (a_metrics_port args) srv'
                               in (evs, Some srv', case r of Inl e \<Rightarrow> if e = KEYBOARD_INTERRUPT then Inr 0 else Inl e | Inr n \<Rightarrow> Inr n))))))"

section \<open>The watcher\<close>

text \<open>The polls of the periodic task: what \<^verbatim>\<open>os.stat\<close> gives and the module as it is on disk then; an exception is logged by the task.\<close>

fun watch_polls :: "(rat option \<times> user_module) list \<Rightarrow> rat \<times> globals \<times> server \<Rightarrow> rat \<times> globals \<times> server" where
  "watch_polls [] s = s"
| "watch_polls ((st, m) # ps) s = (case watch_check st m s of (seen, g, srv, _) \<Rightarrow> watch_polls ps (seen, g, srv))"

text \<open>The polls that find another modification time than the one before.\<close>

fun changed_polls :: "rat \<Rightarrow> (rat option \<times> user_module) list \<Rightarrow> user_module list" where
  "changed_polls t [] = []"
| "changed_polls t ((st, m) # ps) =
     (case st of None \<Rightarrow> changed_polls t ps | Some t' \<Rightarrow> if t' = t then changed_polls t ps else m # changed_polls t' ps)"

fun reloads :: "user_module list \<Rightarrow> globals \<times> server \<Rightarrow> globals \<times> server" where
  "reloads [] s = s"
| "reloads (m # ms) (g, srv) = (case reload_handler_module g m srv of (g', srv', _) \<Rightarrow> reloads ms (g', srv'))"

lemma watch_polls_reloads:
  "snd (watch_polls ps (t, g, srv)) = reloads (changed_polls t ps) (g, srv)"
  by (induction ps arbitrary: t g srv) (auto simp: watch_check_def split: option.splits prod.splits)

lemma changed_polls_count:
  "length (changed_polls t ps) = length (remdups_adj (t # map the (filter (\<lambda>x. x \<noteq> None) (map fst ps)))) - 1"
  by (induction t ps rule: changed_polls.induct) (auto split: option.splits)

lemma changed_only_last:
  assumes "list_all (\<lambda>(st, _). st = None \<or> st = Some t) ps"
  shows "changed_polls t ps = []"
  using assms by (induction ps) (auto split: option.splits)

text \<open>
  The watcher reloads once for every change. Whatever the polls see, the handlers are those of reloading, one after
  the other, the modules found at a new modification time; a file that cannot be read or has not changed causes nothing.
\<close>

theorem watcher_reloads_changes:
  "snd (watch_polls ps (t, g, srv)) = reloads (changed_polls t ps) (g, srv) \<and>
   length (changed_polls t ps) = length (remdups_adj (t # map the (filter (\<lambda>x. x \<noteq> None) (map fst ps)))) - 1"
  by (simp add: watch_polls_reloads changed_polls_count)

section \<open>The process\<close>

lemma register_many_periodic: "periodic (register_many srv ms) = periodic srv \<and> started_at (register_many srv ms) = started_at srv"
  by (induction srv ms rule: register_many.induct) (simp_all add: put_handler_def)

lemma register_fold_periodic:
  "periodic (foldl (\<lambda>s (name, f, opts). register s name f opts) srv ds) = periodic srv \<and>
   started_at (foldl (\<lambda>s (name, f, opts). register s name f opts) srv ds) = started_at srv"
  by (induction ds arbitrary: srv) (auto simp: register_def put_handler_def)

lemma collect_periodic:
  assumes "collect_handlers g m srv = (g', srv', x)"
  shows "periodic srv' = periodic srv" "started_at srv' = started_at srv"
  using assms
  by (auto simp: collect_handlers_def call_register_def register_many_periodic register_fold_periodic split: prod.splits option.splits)

lemma collect_nonempty:
  assumes "collect_handlers g m (server_new []) = (g', srv, x)" shows "handlers srv \<noteq> []"
proof -
  let ?N = "fst ` set g \<union> (case m_register m of None \<Rightarrow> {} | Some (ds, _) \<Rightarrow> fst ` set ds)"
  have "only_registered ?N (server_new []) srv"
    using collect_handlers_effect(2) [of g m "server_new []"] assms by simp
  then have "dict_get (handlers srv) (u ''_health'') \<noteq> None"
    by (cases "u ''_health'' \<in> ?N")
      (auto simp: only_registered_def server_new_def register_introspection_def put_handler_def)
  then show ?thesis by auto
qed

lemma add_watcher_fresh:
  assumes "periodic srv = []" "started_at srv = None"
  shows "add_watcher p args srv =
    Inr (srv\<lparr>periodic := if a_reload args \<and> p_file p \<noteq> None then [(a_interval args, u ''reload-watch'')] else []\<rparr>)"
  using assms by (auto simp: add_watcher_def watch_module_file_def add_periodic_task_def u_def split: option.splits)

lemma server_new_periodic: "periodic (server_new []) = []" "started_at (server_new []) = None"
  by (simp_all add: server_new_def register_introspection_def put_handler_def)

lemma worker_process_serves:
  assumes "configure_logging (a_log_level args) (a_log_format args) lg = Inr l" "import_module g (p_module p) = (g1, None)"
    "collect_handlers g1 (p_module p) (server_new []) = (g2, srv, None)"
  shows "fst (snd (worker_process g lg p args)) \<noteq> None"
  using assms collect_nonempty [OF assms(3)] collect_periodic [OF assms(3)]
  by (auto simp: worker_process_def server_new_periodic add_watcher_fresh Let_def split: prod.splits)

text \<open>The check for a module without handlers never fires: every server has its introspection handlers.\<close>

lemma main_never_reports_no_handlers: "snd (snd (worker_process g lg p args)) \<noteq> Inr 2"
  by (auto simp: worker_process_def serve_process_def Let_def dest: collect_nonempty split: sum.splits prod.splits option.splits)



end
