(* ===== verification/Testing.thy ===== *)
theory Testing
  imports Server_Props
begin

text \<open>
  \<^verbatim>\<open>testing.py\<close>: the helpers with which users test handlers without a daemon, and that they run a
  handler the way the worker does.
\<close>

section \<open>Definitions\<close>

text \<open>\<^verbatim>\<open>make_context\<close>, given a fresh UUID and the clock.\<close>

definition make_context ::
    "int \<Rightarrow> addr option \<Rightarrow> int \<Rightarrow> pystr option \<Rightarrow> rat option \<Rightarrow> pystr \<Rightarrow> pystr \<Rightarrow> rat \<Rightarrow> Context" where
  "make_context node caddr port rid started name uuid now =
     \<lparr>caller_node_id = node,
      caller_addr = (case caddr of Some a \<Rightarrow> a | None \<Rightarrow> \<lparr>addr_network = 0, addr_node = node\<rparr>),
      caller_port = port,
      request_id = (case rid of Some r \<Rightarrow> if r = [] then uuid else r | None \<Rightarrow> uuid),
      ctx_started_at = (case started of Some t \<Rightarrow> t | None \<Rightarrow> now),
      handler_name = name\<rparr>"

definition is_list :: "hval \<Rightarrow> bool" where
  "is_list v = (case v of VJson (JArr _) \<Rightarrow> True | _ \<Rightarrow> False)"

text \<open>The values an asynchronous generator yields, collected.\<close>

definition collect_chunks :: "hval \<Rightarrow> hval result" where
  "collect_chunks r =
     (case r of
        VGen items None \<Rightarrow> Inr (VJson (JArr items))
      | VGen items (Some e) \<Rightarrow> Inl e
      | _ \<Rightarrow> Inl not_async_iterable)"

text \<open>\<^verbatim>\<open>invoke_handler\<close> of the test helpers; \<open>dflt\<close> is the \<^verbatim>\<open>make_context()\<close> of a missing context.\<close>

definition test_invoke_handler ::
    "env \<Rightarrow> Context \<Rightarrow> user_fn \<Rightarrow> json \<Rightarrow> Context option \<Rightarrow> pmodel option \<Rightarrow> pmodel option \<Rightarrow> hval result" where
  "test_invoke_handler env dflt f payload ctx im om =
     rbind (validate env (u ''input'') im (VJson payload)) (\<lambda>hp.
     rbind (fn_call f (as_json hp)
              (if wants_context (fn_signature f) then Some (case ctx of None \<Rightarrow> dflt | Some c \<Rightarrow> c) else None)) (\<lambda>r.
     rbind (if fn_kind f = FAsyncGen then collect_chunks r else Inr r) (\<lambda>result.
       if om \<noteq> None \<and> \<not> is_list result then validate env (u ''output'') om result else Inr result)))"

definition collect_stream :: "env \<Rightarrow> Context \<Rightarrow> pystr \<Rightarrow> (hval \<Rightarrow> pystr) \<Rightarrow> user_fn \<Rightarrow> json \<Rightarrow> Context option \<Rightarrow> hval result" where
  "collect_stream env dflt name type_name f payload ctx =
     rbind (test_invoke_handler env dflt f payload ctx None None) (\<lambda>result.
       if is_list result then Inr result
       else Inl (TypeError (name @ u '' is not an async generator; got '' @ type_name result)))"

section \<open>Properties\<close>


text \<open>A streaming handler that yields two numbers.\<close>

definition counting :: user_fn where
  "counting = \<lparr>fn_kind = FAsyncGen, fn_signature = Some [PositionalOrKeyword], fn_call = (\<lambda>_ _. Inr (VGen [JInt 1, JInt 2] None))\<rparr>"


end
