(* ===== verification/Transport.thy ===== *)
theory Transport
  imports Server_Props Trust
begin

text \<open>
  \<^verbatim>\<open>transport.py\<close>: the client that runs \<^verbatim>\<open>pilotctl --json\<close>, and the router that answers requests that
  arrive as datagrams. What the subprocess prints is an input; \<^verbatim>\<open>str(x)\<close> of a JSON value that is
  not a string, an integer or a constant, and the text of a JSON error, are the parameters \<open>txt\<close> and
  \<open>jtext\<close>.
\<close>

section \<open>Errors\<close>

text \<open>\<^verbatim>\<open>PilotError(code, message, hint)\<close>, or another exception.\<close>

datatype perror = PilotError json json json | OtherExn exn

type_synonym 'a presult = "perror + 'a"

definition lift_exn :: "'a result \<Rightarrow> 'a presult" where
  "lift_exn r = (case r of Inl e \<Rightarrow> Inl (OtherExn e) | Inr x \<Rightarrow> Inr x)"

definition pbind :: "'a presult \<Rightarrow> ('a \<Rightarrow> 'b presult) \<Rightarrow> 'b presult" where
  "pbind m f = (case m of Inl e \<Rightarrow> Inl e | Inr x \<Rightarrow> f x)"

section \<open>Running pilotctl\<close>

text \<open>\<^verbatim>\<open>d.get(k, default)\<close>.\<close>

definition jget_or :: "json \<Rightarrow> pystr \<Rightarrow> json \<Rightarrow> json result" where
  "jget_or v k d =
     (case v of JObj ms \<Rightarrow> Inr (case dict_get ms k of None \<Rightarrow> d | Some x \<Rightarrow> x) | _ \<Rightarrow> Inl AttributeError)"

definition run_argv :: "pystr \<Rightarrow> pystr list \<Rightarrow> pystr list" where
  "run_argv binary args = [binary, u ''--json''] @ args"

text \<open>\<^verbatim>\<open>_run\<close> on the standard output and the standard error of the process.\<close>

definition run_output :: "(pystr \<Rightarrow> pystr) \<Rightarrow> pystr \<Rightarrow> pystr \<Rightarrow> json presult" where
  "run_output jtext out err =
     (if strip out = [] then
        Inl (PilotError (JStr (u ''no_output''))
          (JStr (if strip err = [] then u ''pilotctl returned no output'' else strip err)) JNull)
      else (case decode out of
              Inl _ \<Rightarrow> Inl (PilotError (JStr (u ''invalid_json''))
                         (JStr (u ''could not parse pilotctl output: '' @ jtext out @ [10] @ out)) JNull)
            | Inr payload \<Rightarrow>
                pbind (lift_exn (jget payload (u ''status''))) (\<lambda>status.
                if status = JStr (u ''error'') then
                  pbind (lift_exn (rbind (jget_or payload (u ''code'') (JStr (u ''unknown''))) (\<lambda>code.
                         rbind (jget_or payload (u ''message'') (JStr [])) (\<lambda>msg.
                         rmap (\<lambda>hint. PilotError code msg hint) (jget payload (u ''hint'')))))) Inl
                else lift_exn (jget_or payload (u ''data'') (JObj [])))))"

record pilot_info =
  pi_address :: json
  pi_hostname :: json
  pi_node_id :: json
  pi_public_key :: json
  pi_peers :: json
  pi_uptime_secs :: json
  pi_version :: json

definition ctl_info :: "json presult \<Rightarrow> pilot_info presult" where
  "ctl_info run =
     pbind run (\<lambda>d. lift_exn (
       rbind (jindex d (u ''address'')) (\<lambda>a.
       rbind (jget_or d (u ''hostname'') (JStr [])) (\<lambda>h.
       rbind (jindex d (u ''node_id'')) (\<lambda>n.
       rbind (jget_or d (u ''public_key'') (JStr [])) (\<lambda>k.
       rbind (jget_or d (u ''peers'') (JInt 0)) (\<lambda>p.
       rbind (jget_or d (u ''uptime_secs'') (JInt 0)) (\<lambda>t.
       rmap (\<lambda>v. \<lparr>pi_address = a, pi_hostname = h, pi_node_id = n, pi_public_key = k, pi_peers = p,
                  pi_uptime_secs = t, pi_version = v\<rparr>) (jget_or d (u ''version'') (JStr [])))))))))) "

definition is_running :: "json presult \<Rightarrow> bool presult" where
  "is_running run =
     (case ctl_info run of
        Inr _ \<Rightarrow> Inr True
      | Inl (PilotError code msg hint) \<Rightarrow>
          if code = JStr (u ''not_running'') then Inr False else Inl (PilotError code msg hint)
      | Inl (OtherExn e) \<Rightarrow> Inl (OtherExn e))"

definition ctl_trust_list :: "json presult \<Rightarrow> json presult" where
  "ctl_trust_list run =
     pbind run (\<lambda>d. case d of
        JArr xs \<Rightarrow> Inr d
      | JObj _ \<Rightarrow> lift_exn (jget_or d (u ''trusted'') (JArr []))
      | _ \<Rightarrow> Inr (JArr []))"

text \<open>\<^verbatim>\<open>str(x)\<close>.\<close>

definition py_str :: "(json \<Rightarrow> pystr) \<Rightarrow> json \<Rightarrow> pystr" where
  "py_str txt v =
     (case v of
        JNull \<Rightarrow> u ''None'' | JBool b \<Rightarrow> if b then u ''True'' else u ''False'' | JInt n \<Rightarrow> str_int n | JStr s \<Rightarrow> s | _ \<Rightarrow> txt v)"

fun trusts_loop :: "(json \<Rightarrow> pystr) \<Rightarrow> pystr \<Rightarrow> json list \<Rightarrow> bool result" where
  "trusts_loop txt peer [] = Inr False"
| "trusts_loop txt peer (e # es) =
     rbind (jget e (u ''hostname'')) (\<lambda>h.
     rbind (jget e (u ''address'')) (\<lambda>a.
     rbind (jget_or e (u ''node_id'') (JStr [])) (\<lambda>n.
       if h = JStr peer \<or> a = JStr peer \<or> py_str txt n = peer then Inr True else trusts_loop txt peer es)))"

definition trusts :: "(json \<Rightarrow> pystr) \<Rightarrow> pystr \<Rightarrow> json presult \<Rightarrow> bool presult" where
  "trusts txt peer run = pbind (ctl_trust_list run) (\<lambda>l. lift_exn (rbind (iterate l) (trusts_loop txt peer)))"

text \<open>\<^verbatim>\<open>recv\<close> and \<^verbatim>\<open>collect_recv\<close>: the messages, as \<^verbatim>\<open>d.get("messages") or []\<close>.\<close>

definition ctl_recv :: "json presult \<Rightarrow> json presult" where
  "ctl_recv run =
     pbind run (\<lambda>d. case d of
        JObj _ \<Rightarrow> lift_exn (rmap (\<lambda>m. py_or m (JArr [])) (jget d (u ''messages'')))
      | _ \<Rightarrow> Inr (JArr []))"

definition collect_recv :: "pystr \<Rightarrow> json result" where
  "collect_recv out =
     (if strip out = [] then Inr (JArr [])
      else (case decode out of
              Inl _ \<Rightarrow> Inr (JArr [])
            | Inr payload \<Rightarrow>
                rbind (jget payload (u ''status'')) (\<lambda>status.
                if status = JStr (u ''error'') then Inr (JArr [])
                else rbind (jget payload (u ''data'')) (\<lambda>d.
                     rmap (\<lambda>m. py_or m (JArr [])) (jget (py_or d (JObj [])) (u ''messages''))))))"

text \<open>The command lines of the operations.\<close>

definition send_args :: "pystr \<Rightarrow> pystr \<Rightarrow> pystr \<Rightarrow> pystr \<Rightarrow> pystr list" where
  "send_args peer port dat timeout = [u ''send'', peer, port, u ''--data'', dat, u ''--timeout'', timeout]"

definition recv_args :: "int \<Rightarrow> int \<Rightarrow> pystr \<Rightarrow> pystr list" where
  "recv_args port n timeout = [u ''recv'', str_int port, u ''--count'', str_int n, u ''--timeout'', timeout]"

section \<open>The router\<close>

type_synonym router = "(pystr, json \<Rightarrow> json result) dict"

definition router_register :: "router \<Rightarrow> pystr \<Rightarrow> (json \<Rightarrow> json result) \<Rightarrow> router" where
  "router_register h name f = dict_set h name f"

definition hashable :: "json \<Rightarrow> bool" where
  "hashable v \<longleftrightarrow> (case v of JArr _ \<Rightarrow> False | JObj _ \<Rightarrow> False | _ \<Rightarrow> True)"

text \<open>\<^verbatim>\<open>msgs[0]\<close> of a value that is true.\<close>

definition first_msg :: "json \<Rightarrow> json result" where
  "first_msg msgs =
     (case msgs of
        JArr (m # _) \<Rightarrow> Inr m
      | JStr (c # _) \<Rightarrow> Inr (JStr [c])
      | JObj _ \<Rightarrow> Inl (KeyError (u ''0''))
      | _ \<Rightarrow> Inl (TypeError (u ''object is not subscriptable'')))"

definition decode_msg :: "json \<Rightarrow> json result" where
  "decode_msg msgs =
     rbind (first_msg msgs) (\<lambda>m. rbind (jindex m (u ''data'')) (\<lambda>d.
       case d of JStr s \<Rightarrow> decode s
       | _ \<Rightarrow> Inl (TypeError (u ''the JSON object must be str, bytes or bytearray''))))"

text \<open>\<^verbatim>\<open>except (ValueError, KeyError)\<close>; \<^verbatim>\<open>JSONDecodeError\<close> is a \<^verbatim>\<open>ValueError\<close>.\<close>

definition malformed :: "exn \<Rightarrow> bool" where
  "malformed e = (case e of ValueError _ \<Rightarrow> True | KeyError _ \<Rightarrow> True | JSONDecodeError \<Rightarrow> True | _ \<Rightarrow> False)"

text \<open>The reply to a request: looking up the handler, running it, encoding the outcome.\<close>

definition router_reply :: "(json \<Rightarrow> pystr) \<Rightarrow> env \<Rightarrow> router \<Rightarrow> json \<Rightarrow> json \<Rightarrow> json \<Rightarrow> pystr result" where
  "router_reply txt env h node call_id payload =
     (if \<not> hashable node then Inl (TypeError (u ''unhashable type''))
      else (case (case node of JStr name \<Rightarrow> dict_get h name | _ \<Rightarrow> None) of
              None \<Rightarrow> Inr (encode_reply call_id False JNull (Some (u ''no handler for '' @ bq (py_str txt node))))
            | Some f \<Rightarrow>
                (case f payload of
                   Inr result \<Rightarrow> Inr (encode_reply call_id True result None)
                 | Inl e \<Rightarrow>
                     if is_Exception e then Inr (encode_reply call_id False JNull (Some (exn_name e @ u '': '' @ exn_str env e)))
                     else Inl e)))"

text \<open>
  \<^verbatim>\<open>serve_one\<close>: what receiving gives, what sending the reply gives; the result and the arguments
  of the \<^verbatim>\<open>send\<close>, if there was one. \<^verbatim>\<open>subprocess\<close> refuses an argument that is not a string.
\<close>

definition serve_one ::
    "(json \<Rightarrow> pystr) \<Rightarrow> env \<Rightarrow> router \<Rightarrow> pystr \<Rightarrow> json presult \<Rightarrow> (pystr list \<Rightarrow> json presult) \<Rightarrow>
     bool presult \<times> pystr list option" where
  "serve_one txt env h timeout received send =
     (case received of
        Inl (OtherExn e) \<Rightarrow> (Inl (OtherExn e), None)
      | Inl (PilotError code msg hint) \<Rightarrow>
          if \<not> hashable code then (Inl (OtherExn (TypeError (u ''unhashable type''))), None)
          else if code = JStr (u ''timeout'') \<or> code = JStr (u ''no_messages'') then (Inr False, None)
          else (Inl (PilotError code msg hint), None)
      | Inr msgs \<Rightarrow>
          if \<not> truthy msgs then (Inr False, None)
          else (case decode_msg msgs of
                  Inl e \<Rightarrow> (if malformed e then Inr True else Inl (OtherExn e), None)
                | Inr req \<Rightarrow>
                    (case rbind (jget req (u ''node'')) (\<lambda>node. rbind (jget req (u ''call_id'')) (\<lambda>call_id.
                          rbind (jget req (u ''from'')) (\<lambda>sender. rbind (jget req (u ''reply_port'')) (\<lambda>port.
                          rbind (jget req (u ''payload'')) (\<lambda>payload.
                          rmap (\<lambda>reply. (sender, port, reply)) (router_reply txt env h node call_id payload)))))) of
                       Inl e \<Rightarrow> (Inl (OtherExn e), None)
                     | Inr (sender, port, reply) \<Rightarrow>
                         (case sender of
                            JStr peer \<Rightarrow>
                              (let args = send_args peer (py_str txt port) reply timeout
                               in (case send args of Inl (OtherExn e) \<Rightarrow> Inl (OtherExn e) | _ \<Rightarrow> Inr True, Some args))
                          | _ \<Rightarrow> (Inl (OtherExn (TypeError (u ''expected str, bytes or os.PathLike object''))), None)))))"

section \<open>Properties\<close>

text \<open>What the reply to a request says.\<close>

definition router_outcome :: "(json \<Rightarrow> pystr) \<Rightarrow> env \<Rightarrow> router \<Rightarrow> pystr \<Rightarrow> json \<Rightarrow> bool \<times> json \<times> json" where
  "router_outcome txt env h node payload =
     (case dict_get h node of
        None \<Rightarrow> (False, JNull, JStr (u ''no handler for '' @ bq node))
      | Some f \<Rightarrow>
          (case f payload of
             Inr result \<Rightarrow> (True, result, JNull)
           | Inl e \<Rightarrow> (False, JNull, JStr (exn_name e @ u '': '' @ exn_str env e))))"

definition reply_json :: "json \<Rightarrow> bool \<times> json \<times> json \<Rightarrow> json" where
  "reply_json call_id r =
     (case r of (ok, result, err) \<Rightarrow>
        JObj [(u ''v'', JInt WIRE_VERSION), (u ''call_id'', call_id), (u ''ok'', JBool ok), (u ''result'', result), (u ''error'', err)])"

lemma decode_request:
  assumes "wf_json payload" "list_all is_scalar call_id" "list_all is_scalar node" "list_all is_scalar sender" "list_all is_scalar kind"
  shows "decode (encode_request call_id node sender reply_port payload kind) =
    Inr (JObj [(u ''v'', JInt WIRE_VERSION), (u ''kind'', JStr kind), (u ''call_id'', JStr call_id), (u ''node'', JStr node),
      (u ''from'', JStr sender), (u ''reply_port'', JInt reply_port), (u ''payload'', payload)])"
  using assms unfolding encode_request_def by (subst decode_json_dumps) (simp_all add: scalar_u)

lemma router_reply_text:
  assumes "\<And>f e. dict_get h node = Some f \<Longrightarrow> f payload = Inl e \<Longrightarrow> is_Exception e"
  shows "router_reply txt env h (JStr node) call_id payload = Inr (json_dumps (reply_json call_id (router_outcome txt env h node payload)))"
  using assms
  by (auto simp: router_reply_def hashable_def router_outcome_def reply_json_def encode_reply_def py_str_def split: option.splits sum.splits)

text \<open>
  The router answers every request exactly once. For a request as \<^verbatim>\<open>wire.encode_request\<close> writes it,
  \<^verbatim>\<open>serve_one\<close> sends one message, to the sender at its reply port; decoding it gives the call id of the
  request, and the handler's result, the exception it raised, or that there is no such handler.
\<close>

theorem router_answers:
  assumes wf: "wf_json payload" "list_all is_scalar call_id" "list_all is_scalar node" "list_all is_scalar sender" "list_all is_scalar kind"
    and out: "wf_json (reply_json (JStr call_id) (router_outcome txt env h node payload))"
    and ex: "\<And>f e. dict_get h node = Some f \<Longrightarrow> f payload = Inl e \<Longrightarrow> is_Exception e"
    and send: "\<And>args e. send args \<noteq> Inl (OtherExn e)"
    and msg: "jindex m (u ''data'') = Inr (JStr (encode_request call_id node sender reply_port payload kind))"
  shows "\<exists>reply. serve_one txt env h timeout (Inr (JArr (m # ms))) send =
      (Inr True, Some (send_args sender (str_int reply_port) reply timeout)) \<and>
    decode reply = Inr (reply_json (JStr call_id) (router_outcome txt env h node payload))"
proof -
  let ?reply = "json_dumps (reply_json (JStr call_id) (router_outcome txt env h node payload))"
  have "decode_msg (JArr (m # ms)) = decode (encode_request call_id node sender reply_port payload kind)"
    using msg by (simp add: decode_msg_def first_msg_def)
  with decode_request [OF wf] router_reply_text [OF ex] send
  have "serve_one txt env h timeout (Inr (JArr (m # ms))) send =
      (Inr True, Some (send_args sender (str_int reply_port) ?reply timeout))"
    by (simp add: serve_one_def jget_def dict_get_def py_str_def Let_def split: sum.splits perror.splits)
  with decode_json_dumps [OF out] show ?thesis by blast
qed

text \<open>
  The router survives what it cannot read: a message without \<^verbatim>\<open>data\<close> or whose text is not JSON is
  dropped without a reply, and an empty or timed-out receive does nothing.
\<close>

theorem router_drops_malformed:
  assumes "decode s = Inl e"
  shows "serve_one txt env h timeout (Inr (JArr (JObj [(u ''data'', JStr s)] # ms))) send = (Inr True, None) \<and>
    serve_one txt env h timeout (Inr (JArr (JObj [] # ms))) send = (Inr True, None) \<and>
    serve_one txt env h timeout (Inr (JArr [])) send = (Inr False, None) \<and>
    serve_one txt env h timeout (Inl (PilotError (JStr (u ''timeout'')) msg hint)) send = (Inr False, None)"
proof -
  have "e = JSONDecodeError" using assms by (auto simp: decode_def split: option.splits)
  then show ?thesis using assms
    by (simp add: serve_one_def decode_msg_def first_msg_def jindex_def dict_get_def malformed_def hashable_def)
qed

definition sample_router :: router where
  "sample_router = [(u ''double'', \<lambda>v. case v of JInt n \<Rightarrow> Inr (JInt (2 * n)) | _ \<Rightarrow> Inl (TypeError []))]"

theorem router_answers_witness:
  "\<exists>reply. serve_one (\<lambda>_. []) quiet_env sample_router (u ''60s'')
      (Inr (JArr [JObj [(u ''data'', JStr (encode_request (u ''c1'') (u ''double'') (u ''alice'') 5001 (JInt 21) (u ''invoke'')))]]))
      (\<lambda>_. Inr JNull) = (Inr True, Some (send_args (u ''alice'') (str_int 5001) reply (u ''60s''))) \<and>
    decode reply = Inr (reply_json (JStr (u ''c1'')) (True, JInt 42, JNull))"
proof -
  have o: "router_outcome (\<lambda>_. []) quiet_env sample_router (u ''double'') (JInt 21) = (True, JInt 42, JNull)"
    by (simp add: router_outcome_def sample_router_def dict_get_def)
  have "\<exists>reply. serve_one (\<lambda>_. []) quiet_env sample_router (u ''60s'')
      (Inr (JArr (JObj [(u ''data'', JStr (encode_request (u ''c1'') (u ''double'') (u ''alice'') 5001 (JInt 21) (u ''invoke'')))] # [])))
      (\<lambda>_. Inr JNull) = (Inr True, Some (send_args (u ''alice'') (str_int 5001) reply (u ''60s''))) \<and>
    decode reply = Inr (reply_json (JStr (u ''c1'')) (router_outcome (\<lambda>_. []) quiet_env sample_router (u ''double'') (JInt 21)))"
    by (rule router_answers [where kind = "u ''invoke''"])
      (simp_all add: scalar_u o, auto simp: reply_json_def scalar_u sample_router_def dict_get_def jindex_def)
  then show ?thesis by (simp only: o)
qed

theorem router_drops_malformed_witness:
  "serve_one (\<lambda>_. []) quiet_env sample_router (u ''60s'') (Inr (JArr [JObj [(u ''data'', JStr [])]])) (\<lambda>_. Inr JNull) = (Inr True, None)"
proof -
  have "decode [] = Inl JSONDecodeError" by code_simp
  from router_drops_malformed [OF this] show ?thesis by blast
qed

end
