(* ===== verification/Int_Text.thy ===== *)
theory Int_Text
  imports Json_Roundtrip
begin

text \<open>
  Lists of integers as command lines and environment variables carry them: \<^verbatim>\<open>str.split\<close> at one
  character and \<^verbatim>\<open>int()\<close> of a text (white space around, a sign, decimal digits of any script, single
  underscores between digits, at most 4300 digits).
\<close>

fun split_on :: "nat \<Rightarrow> pystr \<Rightarrow> pystr list" where
  "split_on c [] = [[]]"
| "split_on c (x # s) = (if x = c then [] # split_on c s else (case split_on c s of [] \<Rightarrow> [[x]] | w # ws \<Rightarrow> (x # w) # ws))"

text \<open>The flag says whether the character before is a digit.\<close>

fun read_digits :: "bool \<Rightarrow> pystr \<Rightarrow> nat list option" where
  "read_digits after [] = (if after then Some [] else None)"
| "read_digits after (c # s) =
     (if c = UNDERSCORE then (if after then read_digits False s else None)
      else (case nd_val c of None \<Rightarrow> None | Some d \<Rightarrow> map_option ((#) d) (read_digits True s)))"

definition signed_text :: "pystr \<Rightarrow> int \<times> pystr" where
  "signed_text s = (case s of [] \<Rightarrow> (1, []) | c # r \<Rightarrow> if c = 45 then (- 1, r) else if c = 43 then (1, r) else (1, s))"

definition int_text :: "pystr \<Rightarrow> int result" where
  "int_text s =
     (let (sgn, ds) = signed_text (strip s)
      in case read_digits False ds of
           None \<Rightarrow> Inl (ValueError (u ''invalid literal for int() with base 10''))
         | Some d \<Rightarrow>
             if 4300 < length d then Inl (ValueError (u ''Exceeds the limit (4300 digits) for integer string conversion''))
             else Inr (sgn * int (eval_digits 10 d)))"

text \<open>\<^verbatim>\<open>[int(s) for s in text.split(",") if s.strip()]\<close>.\<close>

definition int_list :: "pystr \<Rightarrow> int list result" where
  "int_list s = rmap_list int_text (filter (\<lambda>w. strip w \<noteq> []) (split_on 44 s))"

section \<open>Reading what was written\<close>

fun comma_join :: "pystr list \<Rightarrow> pystr" where
  "comma_join [] = []"
| "comma_join [w] = w"
| "comma_join (w # ws) = w @ 44 # comma_join ws"

lemma split_on_append: "c \<notin> set w \<Longrightarrow> split_on c (w @ c # s) = w # split_on c s"
  by (induction w) simp_all

lemma split_on_none: "c \<notin> set w \<Longrightarrow> split_on c w = [w]"
  by (induction w) simp_all

lemma split_comma_join: "ws \<noteq> [] \<Longrightarrow> \<forall>w \<in> set ws. 44 \<notin> set w \<Longrightarrow> split_on 44 (comma_join ws) = ws"
  by (induction ws rule: comma_join.induct) (simp_all add: split_on_none split_on_append)

lemma nd_val_digit: "ascii_digit c \<Longrightarrow> nd_val c = Some (c - 48)"
  by (auto simp: ascii_digit_def nd_val_def nd_starts_def)

lemma read_ascii: "list_all ascii_digit s \<Longrightarrow> (s = [] \<longrightarrow> after) \<Longrightarrow> read_digits after s = Some (map (\<lambda>c. c - 48) s)"
  by (induction s arbitrary: after) (auto simp: nd_val_digit ascii_digit_def)

lemma strip_no_space: "\<forall>c \<in> set s. \<not> is_space c \<Longrightarrow> strip s = s"
proof -
  assume a: "\<forall>c \<in> set s. \<not> is_space c"
  have d: "dropWhile is_space t = t" if "\<forall>c \<in> set t. \<not> is_space c" for t using that by (cases t) auto
  show ?thesis using a by (simp add: strip_def d)
qed

lemma str_int_chars: "c \<in> set (str_int n) \<Longrightarrow> c = 45 \<or> ascii_digit c"
  using str_nat_ascii by (auto simp: str_int_def list_all_iff split: if_splits)

lemma strip_str_int: "strip (str_int n) = str_int n"
  by (rule strip_no_space) (auto dest!: str_int_chars simp: is_space_def ascii_digit_def)

lemma str_int_no_comma: "44 \<notin> set (str_int n)"
  by (auto dest!: str_int_chars simp: ascii_digit_def)

lemma str_int_nonempty [simp]: "str_int n \<noteq> []"
  by (simp add: str_int_def str_nat_def)

lemma signed_str_int: "signed_text (str_int n) = (if n < 0 then - 1 else 1, str_nat (nat \<bar>n\<bar>))"
  using str_nat_ascii [of "nat n"]
  by (auto simp: signed_text_def str_int_def str_nat_def ascii_digit_def split: list.splits)

definition int_fits :: "int \<Rightarrow> bool" where
  "int_fits n \<longleftrightarrow> length (str_nat (nat \<bar>n\<bar>)) \<le> 4300"

lemma int_text_str_int:
  assumes "int_fits n" shows "int_text (str_int n) = Inr n"
proof -
  have "read_digits False (str_nat (nat \<bar>n\<bar>)) = Some (nat_digits 10 (nat \<bar>n\<bar>))"
    using read_ascii [OF str_nat_ascii, of "nat \<bar>n\<bar>" False] by (simp add: str_nat_digits_eq) (simp add: str_nat_def)
  moreover have "length (nat_digits 10 (nat \<bar>n\<bar>)) \<le> 4300" using assms by (simp add: int_fits_def str_nat_def)
  ultimately show ?thesis by (simp add: int_text_def strip_str_int signed_str_int eval_nat_digits)
qed

lemma int_list_join:
  assumes "list_all int_fits ns" shows "int_list (comma_join (map str_int ns)) = Inr ns"
proof (cases "ns = []")
  case True
  then show ?thesis by (simp add: int_list_def strip_def)
next
  case False
  have f: "filter (\<lambda>w. strip w \<noteq> []) (map str_int ms) = map str_int ms" for ms
    by (induction ms) (simp_all add: strip_str_int)
  have "rmap_list int_text (map str_int ns) = Inr ns"
    using assms by (induction ns) (simp_all add: int_text_str_int)
  then show ?thesis using False by (simp add: int_list_def split_comma_join str_int_no_comma f)
qed

end
