(* ===== verification/Example_Handlers.thy ===== *)
theory Example_Handlers
  imports Transport Checkpoint_Service Remote_Outcomes Discover Int_Text
begin

text \<open>
  \<^verbatim>\<open>src/examples/worker_handlers.py\<close>: the handlers of the example worker and their registration. The
  machine they run on is a parameter: host name, clock, process id, the texts of floats and
  containers, SHA-256, and \<^verbatim>\<open>float()\<close>.
\<close>

section \<open>The handlers\<close>

record host =
  h_name :: pystr
  h_utc :: pystr
  h_pid :: int
  h_str :: "json \<Rightarrow> pystr"
  h_repr :: "rat \<Rightarrow> pystr"
  h_sha256 :: "bytes \<Rightarrow> pystr"
  h_float :: "json \<Rightarrow> pystr result"

definition origin :: "host \<Rightarrow> json" where
  "origin h =
     JObj [(u ''processed_on_host'', JStr (h_name h)), (u ''processed_at_utc'', JStr (h_utc h)), (u ''worker_pid'', JInt (h_pid h))]"

definition enrich :: "host \<Rightarrow> json \<Rightarrow> json result" where
  "enrich h payload =
     Inr (JObj [(u ''input_payload'', payload), (u ''input_size_bytes'', JInt (int (length (py_str (h_str h) payload)))),
       (u ''remote_receipt'', origin h)])"

text \<open>\<^verbatim>\<open>payload.get(key, default) if isinstance(payload, dict) else other\<close>.\<close>

definition field_or :: "json \<Rightarrow> pystr \<Rightarrow> json \<Rightarrow> json \<Rightarrow> json" where
  "field_or payload k d other =
     (case payload of JObj ms \<Rightarrow> (case dict_get ms k of None \<Rightarrow> d | Some v \<Rightarrow> v) | _ \<Rightarrow> other)"

text \<open>\<^verbatim>\<open>text[::-1]\<close>.\<close>

definition reversed :: "json \<Rightarrow> json result" where
  "reversed v =
     (case v of JStr s \<Rightarrow> Inr (JStr (rev s)) | JArr xs \<Rightarrow> Inr (JArr (rev xs)) | JObj _ \<Rightarrow> Inl UnmodelledType
      | _ \<Rightarrow> Inl (TypeError (u ''object is not subscriptable'')))"

definition reverse_text :: "host \<Rightarrow> json \<Rightarrow> json result" where
  "reverse_text h payload =
     rmap (\<lambda>t. JObj [(u ''reversed'', t), (u ''remote_receipt'', origin h)])
       (reversed (field_or payload (u ''text'') (JStr []) (JStr (py_str (h_str h) payload))))"

text \<open>\<^verbatim>\<open>json.dumps(..., sort_keys=True)\<close> writes the members of every object in the order of their keys.\<close>

fun sort_keys :: "json \<Rightarrow> json" where
  "sort_keys (JArr xs) = JArr (map sort_keys xs)"
| "sort_keys (JObj ms) = JObj (sort_key fst (map (\<lambda>(k, v). (k, sort_keys v)) ms))"
| "sort_keys v = v"

definition compute_hash :: "host \<Rightarrow> json \<Rightarrow> json result" where
  "compute_hash h payload =
     (let blob = json_dumps (sort_keys payload)
      in rmap (\<lambda>b. JObj [(u ''sha256'', JStr (h_sha256 h b)), (u ''input_bytes'', JInt (int (length blob))),
            (u ''remote_receipt'', origin h)]) (utf8_encode blob))"

definition research :: "host \<Rightarrow> json \<Rightarrow> hval result" where
  "research h payload =
     (let topic = field_or payload (u ''topic'') (JStr (u ''the topic'')) (JStr (py_str (h_str h) payload));
          angle = field_or payload (u ''angle'') (JStr (u ''general'')) (JStr (u ''general''));
          start = u ''['' @ py_str (h_str h) angle @ u ''] '' @ py_str (h_str h) topic
      in Inr (VGen (map (\<lambda>f. JObj [(u ''finding'', JStr (start @ u f)), (u ''angle'', angle), (u ''host'', JStr (h_name h))])
           ['': surface observation'', '': deeper claim derived from the surface observation'',
            '': edge case that the deeper claim doesn'' @ [CHR 0x27] @ ''t cover'']) None))"

text \<open>One finding of \<^verbatim>\<open>evaluate\<close>: its text, its score and its place in the request.\<close>

definition scored_finding :: "host \<Rightarrow> nat \<times> json \<Rightarrow> (json \<times> rat \<times> nat) result" where
  "scored_finding h = (\<lambda>(i, f).
     let text = (case f of JObj _ \<Rightarrow> field_or f (u ''finding'') (JStr []) JNull | _ \<Rightarrow> JStr (py_str (h_str h) f))
     in rmap (\<lambda>n. (text, py_round_to 3 (1 / of_nat (1 + n mod 5)), i)) (py_len text))"

definition finding_json :: "host \<Rightarrow> json \<times> rat \<times> nat \<Rightarrow> json" where
  "finding_json h = (\<lambda>(text, score, i).
     JObj [(u ''finding'', text), (u ''score'', JFloat (h_repr h score)), (u ''rank'', JInt (int i))])"

text \<open>\<^verbatim>\<open>sort(key=..., reverse=True)\<close> keeps the order of equal keys.\<close>

definition evaluate :: "host \<Rightarrow> json \<Rightarrow> json result" where
  "evaluate h payload =
     rbind (jget (py_or payload (JObj [])) (u ''findings'')) (\<lambda>fs.
     rbind (iterate (py_or fs (JArr []))) (\<lambda>findings.
     rmap (\<lambda>scored.
       JObj [(u ''scored'', JArr (map (finding_json h) (sort_key (\<lambda>(_, score, _). - score) scored))),
         (u ''n_evaluated'', JInt (int (length scored))), (u ''evaluator_host'', JStr (h_name h))])
       (rmap_list (scored_finding h) (enumerate 0 findings))))"

definition crash :: "json \<Rightarrow> json result" where
  "crash payload = Inl (UserExn (u ''ZeroDivisionError'') (u ''division by zero''))"

definition slow_work :: "host \<Rightarrow> json \<Rightarrow> json result" where
  "slow_work h payload =
     rmap (\<lambda>secs. JObj [(u ''slept_for'', JFloat secs), (u ''remote_receipt'', origin h)])
       (case payload of JObj _ \<Rightarrow> h_float h (field_or payload (u ''seconds'') (JInt 5) JNull) | _ \<Rightarrow> Inr (u ''5.0''))"

definition step_json :: "host \<Rightarrow> nat \<Rightarrow> json" where
  "step_json h i = JObj [(u ''step'', JInt (int i)), (u ''host'', JStr (h_name h))]"

definition stream_count :: "host \<Rightarrow> json \<Rightarrow> hval result" where
  "stream_count h payload =
     (case py_int (field_or payload (u ''n'') (JInt 5) (JInt 5)) of
        Inl e \<Rightarrow> Inr (VGen [] (Some e))
      | Inr n \<Rightarrow> Inr (VGen (map (step_json h) [0..<nat n]) None))"

section \<open>Registration\<close>

definition plain_fn :: "fkind \<Rightarrow> (json \<Rightarrow> hval result) \<Rightarrow> handler_fn" where
  "plain_fn k f = UserFn \<lparr>fn_kind = k, fn_signature = Some [PositionalOrKeyword], fn_call = (\<lambda>p _. f p)\<rparr>"

definition example_handlers :: "host \<Rightarrow> (pystr, handler_fn) dict" where
  "example_handlers h =
     [(u ''enrich'', plain_fn FSync (\<lambda>p. rmap VJson (enrich h p))),
      (u ''reverse_text'', plain_fn FSync (\<lambda>p. rmap VJson (reverse_text h p))),
      (u ''compute_hash'', plain_fn FSync (\<lambda>p. rmap VJson (compute_hash h p))),
      (u ''stream_count'', plain_fn FAsyncGen (stream_count h)),
      (u ''slow_work'', plain_fn FCoro (\<lambda>p. rmap VJson (slow_work h p))),
      (u ''crash'', plain_fn FSync (\<lambda>p. rmap VJson (crash p))),
      (u ''research'', plain_fn FAsyncGen (research h))]"

definition example_register :: "host \<Rightarrow> int list option \<Rightarrow> backend \<Rightarrow> server \<Rightarrow> server" where
  "example_register h allowed b srv =
     checkpoint_register
       (register (foldl (\<lambda>s (name, f). register s name f default_options) srv (example_handlers h))
          (u ''evaluate'') (plain_fn FSync (\<lambda>p. rmap VJson (evaluate h p))) (default_options\<lparr>o_allow := allowed\<rparr>)) b"

text \<open>\<^verbatim>\<open>_ALLOWED_EVALUATORS\<close>.\<close>

definition allowed_evaluators :: "pystr option \<Rightarrow> int list option result" where
  "allowed_evaluators var =
     (case var of None \<Rightarrow> Inr None | Some s \<Rightarrow> if s = [] then Inr None else rmap Some (int_list s))"

text \<open>Importing the module with the value of \<^verbatim>\<open>PILOT_TRUSTED_CALLERS\<close> and calling its \<^verbatim>\<open>register\<close>.\<close>

definition example_module :: "host \<Rightarrow> pystr option \<Rightarrow> backend \<Rightarrow> server \<Rightarrow> server result" where
  "example_module h var b srv = rmap (\<lambda>allowed. example_register h allowed b srv) (allowed_evaluators var)"

section \<open>Properties\<close>

definition sample_host :: host where
  "sample_host = \<lparr>h_name = u ''w'', h_utc = [], h_pid = 1, h_str = (\<lambda>_. []), h_repr = (\<lambda>_. []), h_sha256 = (\<lambda>_. []), h_float = (\<lambda>_. Inr [])\<rparr>"

text \<open>Sorting by a key keeps the order of equal keys: with ascending places the result ascends in key and place.\<close>

lemma sorted_insort_place:
  fixes f :: "'a \<Rightarrow> 'k::linorder" and place :: "'a \<Rightarrow> nat"
  assumes "sorted_wrt (\<lambda>x y. f x < f y \<or> f x = f y \<and> place x < place y) ys" "\<forall>y \<in> set ys. place x < place y"
  shows "sorted_wrt (\<lambda>x y. f x < f y \<or> f x = f y \<and> place x < place y) (insort_key f x ys)"
  using assms by (induction ys) (auto simp: set_insort_key)

lemma sorted_sort_place:
  fixes f :: "'a \<Rightarrow> 'k::linorder" and place :: "'a \<Rightarrow> nat"
  assumes "sorted_wrt (\<lambda>x y. place x < place y) xs"
  shows "sorted_wrt (\<lambda>x y. f x < f y \<or> f x = f y \<and> place x < place y) (sort_key f xs)"
  using assms by (induction xs) (simp_all add: sorted_insort_place)

text \<open>A finding with a text: an object whose \<^verbatim>\<open>finding\<close> is a string or missing, or anything else.\<close>

definition has_text :: "json \<Rightarrow> bool" where
  "has_text f = (case f of JObj _ \<Rightarrow> (case field_or f (u ''finding'') (JStr []) JNull of JStr _ \<Rightarrow> True | _ \<Rightarrow> False) | _ \<Rightarrow> True)"

lemma scored_finding_ok:
  assumes "has_text f" shows "\<exists>t sc. scored_finding h (i, f) = Inr (t, sc, i)"
  using assms by (cases f) (auto simp: scored_finding_def has_text_def py_len_def Let_def split: json.splits)

lemma scored_all:
  assumes "list_all has_text fs"
  shows "\<exists>scored. rmap_list (scored_finding h) (enumerate k fs) = Inr scored \<and> map (snd \<circ> snd) scored = [k..<k + length fs] \<and>
    (\<forall>x \<in> set scored. scored_finding h (snd (snd x), fs ! (snd (snd x) - k)) = Inr x)"
  using assms
proof (induction fs arbitrary: k)
  case (Cons f fs)
  obtain t sc where f: "scored_finding h (k, f) = Inr (t, sc, k)" using scored_finding_ok Cons.prems by fastforce
  obtain scored where s: "rmap_list (scored_finding h) (enumerate (Suc k) fs) = Inr scored"
      "map (snd \<circ> snd) scored = [Suc k..<Suc k + length fs]"
      "\<forall>x \<in> set scored. scored_finding h (snd (snd x), fs ! (snd (snd x) - Suc k)) = Inr x"
    using Cons.IH [of "Suc k"] Cons.prems by (metis list.pred_inject(2))
  have "scored_finding h (snd (snd x), (f # fs) ! (snd (snd x) - k)) = Inr x" if "x \<in> set scored" for x
  proof -
    have "snd (snd x) \<in> set (map (snd \<circ> snd) scored)" using that by force
    then have "Suc k \<le> snd (snd x)" unfolding s(2) set_upt by simp
    then have "(f # fs) ! (snd (snd x) - k) = fs ! (snd (snd x) - Suc k)" by (simp add: nth_Cons' Suc_diff_le)
    with s(3) that show ?thesis by simp
  qed
  moreover have "map (snd \<circ> snd) ((t, sc, k) # scored) = [k..<k + length (f # fs)]"
    using s(2) upt_conv_Cons [of k "k + length (f # fs)"] by (simp del: upt_Suc)
  ultimately show ?case using f s(1) by (intro exI [of _ "(t, sc, k) # scored"] conjI ballI) (auto simp: comp_def)
qed simp

lemma evaluate_sorted:
  assumes "list_all has_text fs"
  shows "\<exists>xs. evaluate h (JObj [(u ''findings'', JArr fs)]) =
      Inr (JObj [(u ''scored'', JArr (map (finding_json h) xs)), (u ''n_evaluated'', JInt (int (length fs))),
        (u ''evaluator_host'', JStr (h_name h))]) \<and>
    sorted_wrt (\<lambda>(_, s, i) (_, s', j). s > s' \<or> s = s' \<and> i < j) xs \<and>
    mset (map (snd \<circ> snd) xs) = mset [0..<length fs] \<and>
    (\<forall>x \<in> set xs. scored_finding h (snd (snd x), fs ! snd (snd x)) = Inr x)"
proof -
  obtain scored where s: "rmap_list (scored_finding h) (enumerate 0 fs) = Inr scored" "map (snd \<circ> snd) scored = [0..<length fs]"
      "\<forall>x \<in> set scored. scored_finding h (snd (snd x), fs ! (snd (snd x) - 0)) = Inr x"
    using scored_all [OF assms, of h 0] by auto
  let ?f = "\<lambda>(_ :: json, score :: rat, _ :: nat). - score"
  have "sorted_wrt (<) (map (snd \<circ> snd) scored)" unfolding s(2) by simp
  then have "sorted_wrt (\<lambda>x y. (snd \<circ> snd) x < (snd \<circ> snd) y) scored" by (simp add: sorted_wrt_map)
  from sorted_sort_place [OF this, of ?f]
  have "sorted_wrt (\<lambda>(_, s, i) (_, s', j). s > s' \<or> s = s' \<and> i < j) (sort_key ?f scored)"
    by (rule sorted_wrt_mono_rel [rotated]) auto
  moreover have "mset (map (snd \<circ> snd) (sort_key ?f scored)) = mset [0..<length fs]"
    using s(2) by (metis mset_map mset_sort)
  moreover have "length scored = length fs" using s(2) by (metis length_map length_upt minus_nat.diff_0)
  moreover have "evaluate h (JObj [(u ''findings'', JArr fs)]) =
      Inr (JObj [(u ''scored'', JArr (map (finding_json h) (sort_key ?f scored))), (u ''n_evaluated'', JInt (int (length scored))),
        (u ''evaluator_host'', JStr (h_name h))])"
    using s(1) by (cases "fs = []") (simp_all add: evaluate_def jget_def py_or_def dict_get_def iterate_def)
  ultimately show ?thesis using s(3) by (intro exI [of _ "sort_key ?f scored"]) simp
qed

text \<open>
  \<^verbatim>\<open>evaluate\<close> ranks the findings. Given findings with a text, the reply lists each of them once, with
  its score and its place in the request; the scores descend, and findings with the same score
  keep the order of the request.
\<close>

theorem evaluate_ranks:
  assumes "list_all has_text fs"
  shows "\<exists>xs. evaluate h (JObj [(u ''findings'', JArr fs)]) =
      Inr (JObj [(u ''scored'', JArr (map (finding_json h) xs)), (u ''n_evaluated'', JInt (int (length fs))),
        (u ''evaluator_host'', JStr (h_name h))]) \<and>
    sorted_wrt (\<lambda>(_, s, i) (_, s', j). s > s' \<or> s = s' \<and> i < j) xs \<and>
    mset (map (snd \<circ> snd) xs) = mset [0..<length fs] \<and>
    (\<forall>x \<in> set xs. scored_finding h (snd (snd x), fs ! snd (snd x)) = Inr x)"
  using assms by (rule evaluate_sorted)

theorem evaluate_ranks_witness:
  "\<exists>xs. evaluate sample_host (JObj [(u ''findings'', JArr [JStr (u ''abc''), JNull, JStr (u ''de'')])]) =
     Inr (JObj [(u ''scored'', JArr (map (finding_json sample_host) xs)), (u ''n_evaluated'', JInt 3), (u ''evaluator_host'', JStr (u ''w''))]) \<and>
     mset (map (snd \<circ> snd) xs) = mset [0..<3]"
proof -
  let ?fs = "[JStr (u ''abc''), JNull, JStr (u ''de'')]"
  have t: "list_all has_text ?fs" by (simp add: has_text_def)
  have n: "length ?fs = 3" by simp
  from evaluate_ranks [OF t, of sample_host] show ?thesis unfolding n by (auto simp: sample_host_def)
qed

text \<open>The registration behind a name.\<close>

definition named_reg :: "server \<Rightarrow> pystr \<Rightarrow> registration option" where
  "named_reg srv name = map_option ((!) (regs srv)) (dict_get (handlers srv) name)"

definition regs_ok :: "server \<Rightarrow> bool" where
  "regs_ok srv \<longleftrightarrow> (\<forall>n r. dict_get (handlers srv) n = Some r \<longrightarrow> r < length (regs srv))"

lemma register_named:
  assumes "regs_ok srv"
  shows "regs_ok (register srv name f opts)"
    "named_reg (register srv name f opts) n = (if n = name then Some (new_registration f opts) else named_reg srv n)"
  using assms
  by (auto simp: regs_ok_def named_reg_def register_def put_handler_def nth_append less_Suc_eq map_option_case split: option.splits)

lemma server_new_regs_ok: "regs_ok (server_new [])"
  by (auto simp: regs_ok_def server_new_def register_introspection_def put_handler_def split: if_splits)

lemma example_registered:
  "named_reg (example_register h allowed b (server_new [])) (u ''evaluate'') =
     Some (new_registration (plain_fn FSync (\<lambda>p. rmap VJson (evaluate h p))) (default_options\<lparr>o_allow := allowed\<rparr>))"
  by (simp add: example_register_def example_handlers_def checkpoint_register_def checkpoint_handlers_def register_named server_new_regs_ok)

lemma example_registered_open:
  "list_all (\<lambda>(name, f). named_reg (example_register h allowed b (server_new [])) name = Some (new_registration f default_options))
     (example_handlers h)"
  by (simp add: example_register_def example_handlers_def checkpoint_register_def checkpoint_handlers_def register_named server_new_regs_ok)

lemma admit_named:
  assumes "named_reg srv name = Some (new_registration f (default_options\<lparr>o_allow := a\<rparr>))"
  shows "(\<exists>r. snd (admit srv env (JStr name) caller) = Admit r) \<longleftrightarrow> (\<forall>ns. a = Some ns \<longrightarrow> caller \<in> set ns)"
proof -
  obtain r where r: "dict_get (handlers srv) name = Some r" "regs srv ! r = new_registration f (default_options\<lparr>o_allow := a\<rparr>)"
    using assms by (auto simp: named_reg_def)
  show ?thesis
    by (cases a) (simp_all add: admit_def r admit_reg_def authorized_def new_registration_def default_options_def semaphore_def Let_def)
qed

text \<open>
  \<^verbatim>\<open>PILOT_TRUSTED_CALLERS\<close> guards \<^verbatim>\<open>evaluate\<close>. A worker that loads the module with a list of node ids in the variable
  admits exactly the listed callers to \<^verbatim>\<open>evaluate\<close>, without the variable it admits everybody, and every other handler
  of the module admits everybody in both cases.
\<close>

theorem trusted_callers_guard:
  assumes "list_all int_fits ns"
  shows "\<exists>srv. example_module h (Some (comma_join (map str_int ns))) b (server_new []) = Inr srv \<and>
    ((\<exists>r. snd (admit srv env (JStr (u ''evaluate'')) caller) = Admit r) \<longleftrightarrow> ns = [] \<or> caller \<in> set ns) \<and>
    (\<forall>name \<in> fst ` set (example_handlers h). \<exists>r. snd (admit srv env (JStr name) caller) = Admit r)"
proof -
  let ?a = "if ns = [] then None else Some ns"
  let ?srv = "example_register h ?a b (server_new [])"
  have "comma_join (map str_int ns) = [] \<longleftrightarrow> ns = []" by (cases ns; cases "tl ns") auto
  then have "example_module h (Some (comma_join (map str_int ns))) b (server_new []) = Inr ?srv"
    using int_list_join [OF assms] by (simp add: example_module_def allowed_evaluators_def)
  moreover have "(\<exists>r. snd (admit ?srv env (JStr (u ''evaluate'')) caller) = Admit r) \<longleftrightarrow> ns = [] \<or> caller \<in> set ns"
    using admit_named [OF example_registered, of h ?a b env caller] by auto
  moreover have "\<exists>r. snd (admit ?srv env (JStr name) caller) = Admit r" if "(name, f) \<in> set (example_handlers h)" for name f
  proof -
    have d: "default_options = default_options\<lparr>o_allow := None\<rparr>" by (simp add: default_options_def)
    have "named_reg ?srv name = Some (new_registration f (default_options\<lparr>o_allow := None\<rparr>))"
      using example_registered_open [of h ?a b] that d by (auto simp: list_all_iff)
    from admit_named [OF this] show ?thesis by simp
  qed
  ultimately show ?thesis by (intro exI [of _ ?srv]) force
qed

theorem trusted_callers_guard_witness:
  "\<exists>srv. example_module sample_host (Some (u ''17,4'')) (make_store None sql_init) (server_new []) = Inr srv \<and>
    (\<exists>r. snd (admit srv quiet_env (JStr (u ''evaluate'')) 4) = Admit r)"
proof -
  have t: "u ''17,4'' = comma_join (map str_int [17, 4])" by (simp add: str_int_def str_nat_def nat_digits.simps upper_cp_def u_def)
  have f: "list_all int_fits [17, 4]" by (simp add: int_fits_def str_nat_def nat_digits.simps)
  show ?thesis unfolding t using trusted_callers_guard [OF f, of sample_host "make_store None sql_init" quiet_env 4] by auto
qed

end
