(* ===== verification/Research_Demo.thy ===== *)
theory Research_Demo
  imports Example_Handlers
begin

text \<open>
  \<^verbatim>\<open>src/examples/multi_agent_research.py\<close>: the nodes of the research graph, with the outcomes of their remote calls and the
  language model as inputs. The graph and its checkpoints are LangGraph's.
\<close>

section \<open>The nodes\<close>

definition ANGLES :: "pystr list" where
  "ANGLES = [u ''fast'', u ''slow'', u ''contrarian'']"

definition research_payload :: "json \<Rightarrow> pystr \<Rightarrow> json" where
  "research_payload question angle = JObj [(u ''topic'', question), (u ''angle'', JStr angle)]"

text \<open>
  \<^verbatim>\<open>_stream_one\<close>: the values and the end of the stream of one angle; every value must have a \<^verbatim>\<open>finding\<close> to print.
\<close>

definition stream_one :: "json list \<times> exn option \<Rightarrow> json list result" where
  "stream_one = (\<lambda>(vs, x).
     rbind (rmap_list (\<lambda>c. rmap (\<lambda>_. c) (jindex c (u ''finding''))) vs) (\<lambda>chunks. case x of None \<Rightarrow> Inr chunks | Some e \<Rightarrow> Inl e))"

text \<open>\<open>streams\<close> gives the stream of a payload, \<open>order\<close> the order in which the three end.\<close>

definition fanout_research :: "(json \<Rightarrow> json list \<times> exn option) \<Rightarrow> nat list \<Rightarrow> json \<Rightarrow> (pystr, json list) dict result" where
  "fanout_research streams order question =
     rbind (gather False (map (\<lambda>a. stream_one (streams (research_payload question a))) ANGLES) order) (\<lambda>rs.
     rmap (\<lambda>xs. dict_of_pairs (zip ANGLES xs)) (rmap_list id rs))"

definition flat_findings :: "(pystr, json list) dict \<Rightarrow> json list" where
  "flat_findings fs = concat (map snd fs)"

text \<open>The ranking when the worker refuses to evaluate: no scores, the order of the findings.\<close>

definition unranked :: "json list \<Rightarrow> json result" where
  "unranked flat =
     rmap JArr (rmap_list (\<lambda>(i, f). rmap (\<lambda>t. JObj [(u ''finding'', t), (u ''score'', JNull), (u ''rank'', JInt (int i))])
       (jget_or f (u ''finding'') (JStr (u ''?'')))) (enumerate 0 flat))"

definition evaluate_findings :: "(json \<Rightarrow> json result) \<Rightarrow> (pystr, json list) dict \<Rightarrow> json result" where
  "evaluate_findings call fs =
     (case call (JObj [(u ''findings'', JArr (flat_findings fs))]) of
        Inl (PilotRemote PilotUnauthorizedError _ _ _) \<Rightarrow> unranked (flat_findings fs)
      | Inl e \<Rightarrow> Inl e
      | Inr out \<Rightarrow>
          rbind (jindex out (u ''n_evaluated'')) (\<lambda>_. rbind (jindex out (u ''evaluator_host'')) (\<lambda>_. jindex out (u ''scored''))))"

text \<open>The question for the language model: the three best findings as bullets. \<open>jt\<close> is the text of a JSON value.\<close>

definition bullet :: "(json \<Rightarrow> pystr) \<Rightarrow> json \<Rightarrow> pystr result" where
  "bullet jt f =
     rbind (jget f (u ''score'')) (\<lambda>s. rmap (\<lambda>t. u ''  - ('' @ py_str jt s @ u '') '' @ py_str jt t) (jindex f (u ''finding'')))"

definition summarize :: "(json \<Rightarrow> pystr) \<Rightarrow> (pystr \<Rightarrow> pystr) \<Rightarrow> json \<Rightarrow> json list \<Rightarrow> pystr result" where
  "summarize jt model question ranked =
     rmap (\<lambda>bs. strip (model (u ''Question: '' @ py_str jt question @ [10] @ u ''Top findings:'' @ [10] @ join [10] bs)))
       (rmap_list (bullet jt) (take 3 ranked))"

text \<open>A line of the ranking that \<^verbatim>\<open>main\<close> prints.\<close>

definition ranked_line :: "formats \<Rightarrow> json \<Rightarrow> pystr result" where
  "ranked_line fm f =
     rbind (jget_or f (u ''score'') (JStr (u ''?''))) (\<lambda>s.
     rbind (padded fm (rjust 5) s) (\<lambda>p.
     rmap (\<lambda>t. u ''  ['' @ p @ u ''] '' @ text_of fm t) (jindex f (u ''finding''))))"

definition ranked_report :: "formats \<Rightarrow> json list \<Rightarrow> pystr list result" where
  "ranked_report fm ranked = rmap_list (ranked_line fm) (take 5 ranked)"

section \<open>Properties\<close>

text \<open>The stream of the example worker's \<^verbatim>\<open>research\<close>.\<close>

definition research_stream :: "host \<Rightarrow> json \<Rightarrow> json list \<times> exn option" where
  "research_stream h p = (case research h p of Inr (VGen vs x) \<Rightarrow> (vs, x) | Inr _ \<Rightarrow> ([], None) | Inl e \<Rightarrow> ([], Some e))"

lemma finding_simps [simp]:
  "jindex (JObj ((u ''finding'', v) # ms)) (u ''finding'') = Inr v"
  "has_text (JObj ((u ''finding'', JStr t) # ms))"
  by (simp_all add: jindex_def has_text_def field_or_def dict_get_def)

lemma stream_one_findings: "stream_one (map (\<lambda>f. JObj ((u ''finding'', g f) # ms)) fs, None) = Inr (map (\<lambda>f. JObj ((u ''finding'', g f) # ms)) fs)"
proof -
  have "rmap_list (\<lambda>c. rmap (\<lambda>_. c) (jindex c (u ''finding''))) (map (\<lambda>f. JObj ((u ''finding'', g f) # ms)) fs) =
      Inr (map (\<lambda>f. JObj ((u ''finding'', g f) # ms)) fs)"
    by (induction fs) simp_all
  then show ?thesis by (simp add: stream_one_def)
qed

lemma research_streams:
  "\<exists>vs. stream_one (research_stream h p) = Inr vs \<and> length vs = 3 \<and> list_all has_text vs"
  unfolding research_stream_def research_def Let_def
  by (simp only: sum.case hval.case stream_one_findings) (simp add: list_all_iff)

lemma gather_ok: "\<forall>i \<in> set order. i < length xs \<Longrightarrow> gather False (map Inr xs) order = Inr (map Inr xs)"
  by (auto simp: gather_def filter_empty_conv split: list.splits)

text \<open>
  C39: the research graph over the example worker. The three streams end in any order; the ranking then holds the nine findings, each
  once and with its place, by descending score and, among equal scores, in the order of the angles.
\<close>

theorem research_ranks_all:
  assumes "\<forall>i \<in> set order. i < 3"
  shows "\<exists>fs xs. fanout_research (research_stream h) order q = Inr fs \<and> map fst fs = ANGLES \<and> length (flat_findings fs) = 9 \<and>
    evaluate_findings (evaluate h) fs = Inr (JArr (map (finding_json h) xs)) \<and>
    sorted_wrt (\<lambda>(_, s, i) (_, s', j). s > s' \<or> s = s' \<and> i < j) xs \<and>
    mset (map (snd \<circ> snd) xs) = mset [0..<9] \<and>
    (\<forall>x \<in> set xs. scored_finding h (snd (snd x), flat_findings fs ! snd (snd x)) = Inr x)"
proof -
  obtain f where f: "\<And>p. stream_one (research_stream h p) = Inr (f p)" "\<And>p. length (f p) = 3" "\<And>p. list_all has_text (f p)"
    using research_streams by metis
  define vs where "vs = map (\<lambda>a. f (research_payload q a)) ANGLES"
  define fs where "fs = zip ANGLES vs"
  have len: "length vs = 3" by (simp add: vs_def ANGLES_def)
  have "gather False (map (\<lambda>a. stream_one (research_stream h (research_payload q a))) ANGLES) order = Inr (map Inr vs)"
    using gather_ok [of order vs] assms len by (simp add: f vs_def comp_def)
  moreover have "rmap_list id (map Inr vs) = Inr vs" by (induction vs) simp_all
  moreover have "dict_of_pairs (zip ANGLES vs) = fs"
    unfolding fs_def by (rule dict_of_pairs_distinct) (simp add: ANGLES_def vs_def u_def)
  ultimately have r: "fanout_research (research_stream h) order q = Inr fs" by (simp add: fanout_research_def)
  have k: "map fst fs = ANGLES" by (simp add: fs_def vs_def)
  have flat: "flat_findings fs = concat vs" by (simp add: flat_findings_def fs_def vs_def)
  have n: "length (flat_findings fs) = 9" unfolding flat vs_def ANGLES_def by (simp add: f)
  have t: "list_all has_text (flat_findings fs)" unfolding flat vs_def using f(3) by (auto simp: list_all_iff)
  from evaluate_sorted [OF t, of h] obtain xs where
    e: "evaluate h (JObj [(u ''findings'', JArr (flat_findings fs))]) = Inr (JObj [(u ''scored'', JArr (map (finding_json h) xs)),
        (u ''n_evaluated'', JInt (int (length (flat_findings fs)))), (u ''evaluator_host'', JStr (h_name h))])"
    and s: "sorted_wrt (\<lambda>(_, s, i) (_, s', j). s > s' \<or> s = s' \<and> i < j) xs" "mset (map (snd \<circ> snd) xs) = mset [0..<9]"
      "\<forall>x \<in> set xs. scored_finding h (snd (snd x), flat_findings fs ! snd (snd x)) = Inr x"
    unfolding n by blast
  have "evaluate_findings (evaluate h) fs = Inr (JArr (map (finding_json h) xs))"
    by (simp add: evaluate_findings_def e jindex_def dict_get_def)
  with r k n s show ?thesis by blast
qed

theorem research_ranks_all_witness:
  "\<exists>fs xs. fanout_research (research_stream sample_host) [2, 0, 1] (JStr (u ''why'')) = Inr fs \<and>
    evaluate_findings (evaluate sample_host) fs = Inr (JArr (map (finding_json sample_host) xs)) \<and> mset (map (snd \<circ> snd) xs) = mset [0..<9]"
  using research_ranks_all [of "[2, 0, 1]" sample_host "JStr (u ''why'')"] by auto

text \<open>
  When the worker refuses to evaluate, the findings keep a place in the ranking but no score, and printing the ranking fails:
  a missing score is \<^verbatim>\<open>None\<close>, which the format specification of the report does not take.
\<close>

theorem denied_report_fails:
  assumes "call (JObj [(u ''findings'', JArr (flat_findings fs))]) = Inl (PilotRemote PilotUnauthorizedError msg p n)"
    "flat_findings fs = JObj ms # rest" "list_all (\<lambda>f. \<exists>ms. f = JObj ms) rest"
  shows "\<exists>ranked. evaluate_findings call fs = Inr (JArr ranked) \<and> length ranked = length (flat_findings fs) \<and>
    ranked_report fm ranked = Inl (TypeError (u ''unsupported format string''))"
proof -
  define g where "g = (\<lambda>(i, f). JObj [(u ''finding'', projr (jget_or f (u ''finding'') (JStr (u ''?'')))), (u ''score'', JNull), (u ''rank'', JInt (int i))])"
  have "rmap_list (\<lambda>(i, f). rmap (\<lambda>t. JObj [(u ''finding'', t), (u ''score'', JNull), (u ''rank'', JInt (int i))])
       (jget_or f (u ''finding'') (JStr (u ''?'')))) (enumerate k fl) = Inr (map g (enumerate k fl))"
    if "list_all (\<lambda>f. \<exists>ms. f = JObj ms) fl" for k fl
    using that by (induction fl arbitrary: k) (auto simp: jget_or_def g_def)
  from this [of "flat_findings fs" 0] have "unranked (flat_findings fs) = Inr (JArr (map g (enumerate 0 (flat_findings fs))))"
    using assms(2,3) by (simp add: unranked_def)
  then have e: "evaluate_findings call fs = Inr (JArr (map g (enumerate 0 (flat_findings fs))))"
    using assms(1) by (simp add: evaluate_findings_def)
  have "ranked_line fm (g x) = Inl (TypeError (u ''unsupported format string''))" for x
    by (cases x) (simp add: ranked_line_def g_def jget_or_def dict_get_def padded_def)
  then have "ranked_report fm (map g (enumerate 0 (flat_findings fs))) = Inl (TypeError (u ''unsupported format string''))"
    by (simp add: ranked_report_def assms(2))
  with e show ?thesis by simp
qed

theorem denied_report_fails_witness:
  "\<exists>ranked. evaluate_findings (\<lambda>_. Inl (PilotRemote PilotUnauthorizedError JNull None None)) [(u ''fast'', [JObj []])] = Inr (JArr ranked) \<and>
    ranked_report fm ranked = Inl (TypeError (u ''unsupported format string''))"
  using denied_report_fails [of "\<lambda>_. Inl (PilotRemote PilotUnauthorizedError JNull None None)" "[(u ''fast'', [JObj []])]" JNull None None "[]" "[]" fm]
  by (auto simp: flat_findings_def)

end
