(* ===== verification/Pilotctl.thy ===== *)
theory Pilotctl
  imports Transport
begin

text \<open>
  The rest of \<^verbatim>\<open>transport.py\<close>: the client object with its environment and command lines, and the loop of
  the router. The \<^verbatim>\<open>pilotctl\<close> program is the parameter \<open>ctl\<close>: what it prints on standard output and
  error for an argument list and an environment, or what \<^verbatim>\<open>subprocess\<close> raises.
\<close>

section \<open>The client\<close>

record pilot_client =
  ctl_binary :: pystr
  ctl_socket :: "pystr option"

type_synonym environ = "(pystr, pystr) dict"

type_synonym ctl = "pystr list \<Rightarrow> environ \<Rightarrow> rat \<Rightarrow> (pystr \<times> pystr) result"

definition pilot_client_new :: "pystr option \<Rightarrow> pilot_client" where
  "pilot_client_new sock = \<lparr>ctl_binary = u ''pilotctl'', ctl_socket = sock\<rparr>"

definition from_env :: "environ \<Rightarrow> pilot_client" where
  "from_env e = pilot_client_new (dict_get e (u ''PILOT_SOCKET''))"

definition child_env :: "environ \<Rightarrow> pilot_client \<Rightarrow> environ" where
  "child_env e c =
     (case ctl_socket c of Some s \<Rightarrow> if s = [] then e else dict_set e (u ''PILOT_SOCKET'') s | None \<Rightarrow> e)"

definition ctl_run :: "(pystr \<Rightarrow> pystr) \<Rightarrow> ctl \<Rightarrow> environ \<Rightarrow> pilot_client \<Rightarrow> pystr list \<Rightarrow> rat \<Rightarrow> json presult" where
  "ctl_run jtext ctl e c args timeout =
     (case ctl (run_argv (ctl_binary c) args) (child_env e c) timeout of
        Inl x \<Rightarrow> Inl (OtherExn x)
      | Inr (out, err) \<Rightarrow> run_output jtext out err)"

definition client_info where
  "client_info jtext ctl e c = ctl_info (ctl_run jtext ctl e c [u ''info''] 30)"

definition client_find where
  "client_find jtext ctl e c hostname = ctl_run jtext ctl e c [u ''find'', hostname] 30"

definition client_set_hostname where
  "client_set_hostname jtext ctl e c hostname = ctl_run jtext ctl e c [u ''set-hostname'', hostname] 30"

definition client_handshake where
  "client_handshake jtext ctl e c peer why = ctl_run jtext ctl e c [u ''handshake'', peer, why] 30"

definition client_ping where
  "client_ping jtext ctl e c peer n = ctl_run jtext ctl e c [u ''ping'', peer, u ''--count'', str_int n] 30"

text \<open>\<^verbatim>\<open>timeout.rstrip("s")\<close>; the conversion to a float is the parameter \<open>secs\<close>.\<close>

definition rstrip_s :: "pystr \<Rightarrow> pystr" where
  "rstrip_s t = rev (dropWhile (\<lambda>c. c = 115) (rev t))"

definition client_send where
  "client_send jtext ctl secs e c peer port dat timeout =
     pbind (lift_exn (secs (rstrip_s timeout))) (\<lambda>sec. ctl_run jtext ctl e c (send_args peer port dat timeout) (sec + 5))"

definition client_recv where
  "client_recv jtext ctl secs e c port n timeout =
     pbind (lift_exn (secs (rstrip_s timeout))) (\<lambda>sec. ctl_recv (ctl_run jtext ctl e c (recv_args port n timeout) (sec + 5)))"

text \<open>The process that \<^verbatim>\<open>recv_async\<close> starts: its arguments and its environment.\<close>

definition recv_async :: "environ \<Rightarrow> pilot_client \<Rightarrow> int \<Rightarrow> int \<Rightarrow> pystr \<Rightarrow> pystr list \<times> environ" where
  "recv_async e c port n timeout = (run_argv (ctl_binary c) (recv_args port n timeout), child_env e c)"

text \<open>
  \<^verbatim>\<open>collect_recv\<close> on a process: what it has printed when the wait ends, or, if it is still running, what
  it has printed after it was killed. The flag says whether it was killed.
\<close>

definition collect_proc :: "pystr option \<Rightarrow> pystr \<Rightarrow> bool \<times> json result" where
  "collect_proc finished killed =
     (case finished of Some out \<Rightarrow> (False, collect_recv out) | None \<Rightarrow> (True, collect_recv killed))"

section \<open>The loop of the router\<close>

text \<open>
  \<^verbatim>\<open>WorkerRouter.serve_forever\<close> on what each receive gives and what each send gives: the messages sent, and the
  exception that ends the loop, if one does.
\<close>

fun router_forever ::
    "(json \<Rightarrow> pystr) \<Rightarrow> env \<Rightarrow> router \<Rightarrow> pystr \<Rightarrow> (json presult \<times> (pystr list \<Rightarrow> json presult)) list \<Rightarrow>
     pystr list list \<times> perror option" where
  "router_forever txt env h timeout [] = ([], None)"
| "router_forever txt env h timeout ((received, send) # rest) =
     (case serve_one txt env h timeout received send of
        (Inl e, msg) \<Rightarrow> (case msg of None \<Rightarrow> [] | Some m \<Rightarrow> [m], Some e)
      | (Inr _, msg) \<Rightarrow>
          (let (out, x) = router_forever txt env h timeout rest in ((case msg of None \<Rightarrow> [] | Some m \<Rightarrow> [m]) @ out, x)))"

section \<open>Properties\<close>

text \<open>What may arrive: nothing in time, no messages, a message that is not a request, a request.\<close>

datatype arrival =
    Quiet json json
  | Empty
  | Garbage pystr
  | Request pystr pystr pystr int json pystr

definition received_of :: "arrival \<Rightarrow> json presult" where
  "received_of a =
     (case a of
        Quiet msg hint \<Rightarrow> Inl (PilotError (JStr (u ''timeout'')) msg hint)
      | Empty \<Rightarrow> Inr (JArr [])
      | Garbage s \<Rightarrow> Inr (JArr [JObj [(u ''data'', JStr s)]])
      | Request call_id node sender port payload kind \<Rightarrow>
          Inr (JArr [JObj [(u ''data'', JStr (encode_request call_id node sender port payload kind))]]))"

definition arrival_ok :: "(json \<Rightarrow> pystr) \<Rightarrow> env \<Rightarrow> router \<Rightarrow> arrival \<Rightarrow> bool" where
  "arrival_ok txt env h a =
     (case a of
        Garbage s \<Rightarrow> (case decode s of Inl _ \<Rightarrow> True | Inr _ \<Rightarrow> False)
      | Request call_id node sender port payload kind \<Rightarrow>
          wf_json payload \<and> list_all is_scalar call_id \<and> list_all is_scalar node \<and> list_all is_scalar sender \<and> list_all is_scalar kind \<and>
          wf_json (reply_json (JStr call_id) (router_outcome txt env h node payload)) \<and>
          (case dict_get h node of None \<Rightarrow> True | Some f \<Rightarrow> f payload \<noteq> Inl CancelledError)
      | _ \<Rightarrow> True)"

definition is_request :: "arrival \<Rightarrow> bool" where
  "is_request a = (case a of Request _ _ _ _ _ _ \<Rightarrow> True | _ \<Rightarrow> False)"

definition answered :: "(json \<Rightarrow> pystr) \<Rightarrow> env \<Rightarrow> router \<Rightarrow> pystr \<Rightarrow> arrival \<Rightarrow> pystr list \<Rightarrow> bool" where
  "answered txt env h timeout a args =
     (case a of
        Request call_id node sender port payload kind \<Rightarrow>
          (\<exists>reply. args = send_args sender (str_int port) reply timeout \<and>
             decode reply = Inr (reply_json (JStr call_id) (router_outcome txt env h node payload)))
      | _ \<Rightarrow> False)"

lemma serve_one_arrival:
  assumes "arrival_ok txt env h a" "\<And>args e. send args \<noteq> Inl (OtherExn e)"
  shows "\<exists>b msg. serve_one txt env h timeout (received_of a) send = (Inr b, msg) \<and>
    (case msg of None \<Rightarrow> \<not> is_request a | Some m \<Rightarrow> is_request a \<and> answered txt env h timeout a m)"
proof (cases a)
  case (Garbage s)
  with assms obtain e where "decode s = Inl e" by (auto simp: arrival_ok_def split: sum.splits)
  from router_drops_malformed [OF this] Garbage show ?thesis by (auto simp: received_of_def is_request_def)
next
  case (Request call_id node sender port payload kind)
  have "\<exists>reply. serve_one txt env h timeout (Inr (JArr (JObj [(u ''data'', JStr (encode_request call_id node sender port payload kind))] # []))) send =
      (Inr True, Some (send_args sender (str_int port) reply timeout)) \<and>
    decode reply = Inr (reply_json (JStr call_id) (router_outcome txt env h node payload))"
    by (rule router_answers)
      (use assms Request in \<open>auto simp: arrival_ok_def is_Exception_def jindex_def dict_get_def split: option.splits\<close>)
  with Request show ?thesis by (auto simp: received_of_def is_request_def answered_def)
qed (auto simp: received_of_def is_request_def serve_one_def hashable_def)



text \<open>
  A client made by \<^verbatim>\<open>from_env\<close> runs \<^verbatim>\<open>pilotctl\<close> in the environment of the process itself; a client with a socket
  changes only that variable.
\<close>

theorem child_env_socket:
  "dict_get (child_env e (from_env e)) k = dict_get e k \<and>
   (s \<noteq> [] \<longrightarrow> dict_get (child_env e (pilot_client_new (Some s))) k = (if k = u ''PILOT_SOCKET'' then Some s else dict_get e k))"
  by (auto simp: child_env_def from_env_def pilot_client_new_def split: option.splits)

end
