(* ===== verification/Bench.thy ===== *)
theory Bench
  imports Discover Int_Text
begin

text \<open>
  \<^verbatim>\<open>src/tools/bench.py\<close>: a number of calls under a semaphore, and the report on their latencies. Which
  call starts and ends when is an input, with the readings of \<^verbatim>\<open>time.perf_counter()\<close>; what a call returns is not used by the tool.
\<close>

section \<open>The calls\<close>

record bench_state =
  b_permits :: int
  b_queue :: "nat list"
  b_running :: "(nat, rat) dict"
  b_latencies :: "rat list"
  b_failure :: "exn option"

text \<open>A call passes the semaphore and reads the clock; it returns and reads it again; it raises.\<close>

datatype bench_event =
    Started nat rat
  | Returned nat rat
  | Raised nat exn

text \<open>\<^verbatim>\<open>asyncio.Semaphore(concurrency)\<close> and the tasks of \<^verbatim>\<open>gather\<close>, which reach it in the order of their numbers.\<close>

definition bench_begin :: "int \<Rightarrow> nat \<Rightarrow> bench_state result" where
  "bench_begin concurrency tot =
     (if concurrency < 0 then Inl (ValueError (u ''Semaphore initial value must be >= 0''))
      else Inr \<lparr>b_permits = concurrency, b_queue = [0..<tot], b_running = [], b_latencies = [], b_failure = None\<rparr>)"

fun bench_step :: "bench_state \<Rightarrow> bench_event \<Rightarrow> bench_state option" where
  "bench_step s (Started i t) =
     (case b_queue s of
        [] \<Rightarrow> None
      | j # q \<Rightarrow>
          if i = j \<and> 0 < b_permits s then
            Some (s\<lparr>b_permits := b_permits s - 1, b_queue := q, b_running := b_running s @ [(i, t)]\<rparr>)
          else None)"
| "bench_step s (Returned i t) =
     (case dict_get (b_running s) i of
        None \<Rightarrow> None
      | Some t0 \<Rightarrow>
          Some (s\<lparr>b_permits := b_permits s + 1, b_running := dict_del (b_running s) i,
            b_latencies := b_latencies s @ [(t - t0) * 1000]\<rparr>))"
| "bench_step s (Raised i e) =
     (case dict_get (b_running s) i of
        None \<Rightarrow> None
      | Some _ \<Rightarrow>
          Some (s\<lparr>b_permits := b_permits s + 1, b_running := dict_del (b_running s) i,
            b_failure := (case b_failure s of None \<Rightarrow> Some e | Some e' \<Rightarrow> Some e')\<rparr>))"

fun bench_run :: "bench_state \<Rightarrow> bench_event list \<Rightarrow> bench_state option" where
  "bench_run s [] = Some s"
| "bench_run s (ev # evs) = (case bench_step s ev of None \<Rightarrow> None | Some s' \<Rightarrow> bench_run s' evs)"

section \<open>The report\<close>

record bench_report =
  br_concurrency :: int
  br_total :: nat
  br_wall :: rat
  br_throughput :: rat
  br_p50 :: rat
  br_p95 :: rat
  br_p99 :: rat
  br_min :: rat
  br_max :: rat
  br_mean :: rat

definition nth_or :: "rat list \<Rightarrow> nat \<Rightarrow> rat result" where
  "nth_or xs i = (if i < length xs then Inr (xs ! i) else Inl IndexError)"

definition bench_summary :: "int \<Rightarrow> nat \<Rightarrow> rat \<Rightarrow> rat list \<Rightarrow> bench_report result" where
  "bench_summary concurrency tot wall latencies =
     (let lat = sort latencies; n = length lat in
      if wall = 0 then Inl (UserExn (u ''ZeroDivisionError'') (u ''float division by zero''))
      else
        rbind (nth_or lat (n div 2)) (\<lambda>p50.
        rbind (nth_or lat (nat \<lfloor>of_nat n * (19 / 20 :: rat)\<rfloor>)) (\<lambda>p95.
        rmap (\<lambda>p99.
          \<lparr>br_concurrency = concurrency, br_total = tot, br_wall = py_round_to 2 wall,
           br_throughput = py_round_to 1 (of_nat tot / wall),
           br_p50 = py_round_to 1 p50, br_p95 = py_round_to 1 p95, br_p99 = py_round_to 1 p99,
           br_min = py_round_to 1 (Min (set lat)), br_max = py_round_to 1 (Max (set lat)),
           br_mean = py_round_to 1 (sum_list lat / of_nat n)\<rparr>)
          (nth_or lat (nat \<lfloor>of_nat n * (99 / 100 :: rat)\<rfloor>)))))"

text \<open>
  \<^verbatim>\<open>_bench\<close>: \<open>warmup\<close> is the outcome of the first call, \<open>t0\<close> and \<open>t1\<close> the clock around \<^verbatim>\<open>gather\<close>; \<open>None\<close>
  while it has not ended after the events.
\<close>

definition bench :: "int \<Rightarrow> nat \<Rightarrow> json result \<Rightarrow> rat \<Rightarrow> bench_event list \<Rightarrow> rat \<Rightarrow> bench_report result option" where
  "bench concurrency tot warmup t0 evs t1 =
     (case rbind warmup (\<lambda>_. bench_begin concurrency tot) of
        Inl e \<Rightarrow> Some (Inl e)
      | Inr s \<Rightarrow>
          (case bench_run s evs of
             None \<Rightarrow> None
           | Some s' \<Rightarrow>
               (case b_failure s' of
                  Some e \<Rightarrow> Some (Inl e)
                | None \<Rightarrow>
                    if b_queue s' = [] \<and> b_running s' = [] then Some (bench_summary concurrency tot (t1 - t0) (b_latencies s'))
                    else None)))"

text \<open>\<^verbatim>\<open>f"{x:.kf}"\<close>, at least one decimal.\<close>

definition fixed_text :: "nat \<Rightarrow> rat \<Rightarrow> pystr" where
  "fixed_text k x =
     (let n = py_round (x * 10 ^ k); m = nat \<bar>n\<bar>; frac = str_nat (m mod 10 ^ k)
      in (if n < 0 then [45] else []) @ str_nat (m div 10 ^ k) @ [46] @ replicate (k - length frac) 48 @ frac)"

definition bench_row :: "bench_report \<Rightarrow> pystr" where
  "bench_row r =
     join [32]
       [rjust 11 (str_int (br_concurrency r)), rjust 7 (fixed_text 2 (br_wall r)), rjust 7 (fixed_text 1 (br_throughput r)),
        rjust 8 (fixed_text 1 (br_p50 r)), rjust 8 (fixed_text 1 (br_p95 r)), rjust 8 (fixed_text 1 (br_p99 r)),
        rjust 6 (fixed_text 1 (br_min r)), rjust 6 (fixed_text 1 (br_max r))]"

definition bench_header :: pystr where
  "bench_header =
     join [32]
       [rjust 11 (u ''concurrency''), rjust 7 (u ''wall_s''), rjust 7 (u ''rps''), rjust 8 (u ''p50_ms''), rjust 8 (u ''p95_ms''),
        rjust 8 (u ''p99_ms''), rjust 6 (u ''min''), rjust 6 (u ''max'')]"

text \<open>
  \<^verbatim>\<open>main\<close> after the arguments are parsed: the lines printed and the exit code, \<open>run\<close> giving the outcome of \<^verbatim>\<open>_bench\<close>
  at a level of concurrency.
\<close>

definition bench_main :: "pystr \<Rightarrow> pystr \<Rightarrow> pystr \<Rightarrow> int \<Rightarrow> (int \<Rightarrow> bench_report result) \<Rightarrow> pystr list \<times> int result" where
  "bench_main peer handler concurrency n_calls run =
     (case int_list concurrency of
        Inl e \<Rightarrow> ([], Inl e)
      | Inr levels \<Rightarrow>
          (let (out, x) = prints (map (\<lambda>c. rmap (\<lambda>r. [bench_row r]) (run c)) levels)
           in ((u ''# Bench: peer='' @ peer @ u '' handler='' @ handler @ u '' calls='' @ str_int n_calls) # [] # bench_header #
                 replicate (length bench_header) 45 # out,
               case x of Some e \<Rightarrow> Inl e | None \<Rightarrow> Inr 0)))"

section \<open>Lemmas\<close>

text \<open>Every call is waiting, running, measured or failed; the permits and the running calls add up.\<close>

definition bench_inv :: "int \<Rightarrow> nat \<Rightarrow> bench_state \<Rightarrow> bool" where
  "bench_inv c tot s \<longleftrightarrow>
     b_permits s + int (length (b_running s)) = c \<and> 0 \<le> b_permits s \<and>
     distinct (map fst (b_running s) @ b_queue s) \<and>
     length (b_queue s) + length (b_running s) + length (b_latencies s) \<le> tot \<and>
     (b_failure s = None \<longrightarrow> length (b_queue s) + length (b_running s) + length (b_latencies s) = tot)"

lemma bench_inv_begin: "bench_begin c tot = Inr s \<Longrightarrow> bench_inv c tot s"
  by (auto simp: bench_begin_def bench_inv_def split: if_splits)

lemma keys_dict_del: "map fst (dict_del d k) = removeAll k (map fst d)"
  by (induction d) (auto simp: dict_del_def AList.delete_eq)

lemma length_dict_del:
  assumes "distinct (map fst d)" "dict_get d k = Some v"
  shows "Suc (length (dict_del d k)) = length d"
proof -
  have "length (dict_del d k) = length (remove1 k (map fst d))"
    using assms(1) by (metis distinct_remove1_removeAll keys_dict_del length_map)
  moreover have "k \<in> set (map fst d)" using dict_get_Some_in [OF assms(2)] by force
  ultimately show ?thesis using length_pos_if_in_set [of k "map fst d"] by (simp add: length_remove1)
qed

lemma bench_inv_end:
  assumes "bench_inv c tot s" "dict_get (b_running s) i = Some t0"
    "b_permits s' = b_permits s + 1" "b_running s' = dict_del (b_running s) i" "b_queue s' = b_queue s"
    "b_latencies s' = b_latencies s @ l" "length l = 1 \<or> l = [] \<and> b_failure s' \<noteq> None" "b_failure s' = None \<Longrightarrow> b_failure s = None"
  shows "bench_inv c tot s'"
proof -
  have d: "distinct (map fst (b_running s))" using assms(1) by (simp add: bench_inv_def)
  show ?thesis using assms length_dict_del [OF d assms(2)] by (auto simp: bench_inv_def keys_dict_del distinct_removeAll)
qed

lemma bench_inv_step: "bench_inv c tot s \<Longrightarrow> bench_step s ev = Some s' \<Longrightarrow> bench_inv c tot s'"
proof (cases ev)
  case (Returned i t)
  assume "bench_inv c tot s" "bench_step s ev = Some s'"
  then show ?thesis using Returned by (auto split: option.splits intro!: bench_inv_end [of c tot s i])
next
  case (Raised i e)
  assume "bench_inv c tot s" "bench_step s ev = Some s'"
  then show ?thesis using Raised by (auto split: option.splits intro!: bench_inv_end [of c tot s i _ _ "[]"])
qed (fastforce simp: bench_inv_def split: list.splits if_splits)

lemma bench_inv_run: "bench_inv c tot s \<Longrightarrow> bench_run s evs = Some s' \<Longrightarrow> bench_inv c tot s'"
  by (induction evs arbitrary: s) (auto split: option.splits dest: bench_inv_step)

lemma bench_run_append: "bench_run s (evs @ evs') = (case bench_run s evs of None \<Rightarrow> None | Some s' \<Rightarrow> bench_run s' evs')"
  by (induction evs arbitrary: s) (auto split: option.splits)

lemma bench_returns_one:
  assumes "b_running s \<noteq> []"
  obtains ev s' where "bench_step s ev = Some s'" "length (b_running s') < length (b_running s)"
    "b_queue s' = b_queue s" "b_failure s' = b_failure s"
proof -
  obtain i t0 rest where r: "b_running s = (i, t0) # rest" using assms by (metis list.exhaust surj_pair)
  have "length (dict_del rest i) \<le> length rest" by (simp add: dict_del_def AList.delete_eq)
  then show thesis using r that [of "Returned i 0"] by (simp add: dict_get_def dict_del_def)
qed

lemma bench_can_end:
  assumes "bench_inv c n s" "0 < c"
  shows "\<exists>evs s'. bench_run s evs = Some s' \<and> b_queue s' = [] \<and> b_running s' = [] \<and> b_failure s' = b_failure s"
  using assms
proof (induction "2 * length (b_queue s) + length (b_running s)" arbitrary: s rule: less_induct)
  case less
  have go: ?case if st: "bench_step s ev = Some s1" "2 * length (b_queue s1) + length (b_running s1) < 2 * length (b_queue s) + length (b_running s)"
    "b_failure s1 = b_failure s" for ev s1
  proof -
    obtain evs s' where "bench_run s1 evs = Some s'" "b_queue s' = [] \<and> b_running s' = [] \<and> b_failure s' = b_failure s1"
      using less.hyps [OF st(2) bench_inv_step [OF less.prems(1) st(1)] less.prems(2)] by blast
    then show ?thesis using st by (intro exI [of _ "ev # evs"]) simp
  qed
  show ?case
  proof (cases "b_running s = []")
    case False
    then obtain ev s1 where "bench_step s ev = Some s1" "length (b_running s1) < length (b_running s)"
      "b_queue s1 = b_queue s" "b_failure s1 = b_failure s" by (rule bench_returns_one)
    then show ?thesis using go [of ev s1] by simp
  next
    case True
    then have p: "0 < b_permits s" using less.prems by (simp add: bench_inv_def)
    show ?thesis
    proof (cases "b_queue s")
      case Nil
      then show ?thesis using True by (intro exI [of _ "[]"]) simp
    next
      case (Cons j q)
      then show ?thesis using p go [of "Started j 0"] by simp
    qed
  qed
qed



lemma nth_or_Inr: "nth_or xs i = Inr x \<longleftrightarrow> i < length xs \<and> x = xs ! i"
  by (auto simp: nth_or_def)

lemma quantile_order:
  fixes n :: nat
  assumes "0 < n"
  shows "n div 2 < n" "n div 2 \<le> nat \<lfloor>of_nat n * (99 / 100 :: rat)\<rfloor>" 
    "nat \<lfloor>of_nat n * (19 / 20 :: rat)\<rfloor> \<le> nat \<lfloor>of_nat n * (99 / 100 :: rat)\<rfloor>" "nat \<lfloor>of_nat n * (99 / 100 :: rat)\<rfloor> < n"
    "n div 2 \<le> nat \<lfloor>of_nat n * (19 / 20 :: rat)\<rfloor>"
proof -
  have h: "(of_nat (n div 2) :: rat) \<le> of_nat n / 2"
    using of_nat_mono [of "2 * (n div 2)" n, where ?'a = rat] by simp
  show a: "n div 2 \<le> nat \<lfloor>of_nat n * (19 / 20 :: rat)\<rfloor>"
    using h by (simp add: le_nat_iff le_floor_iff)
  show b: "nat \<lfloor>of_nat n * (19 / 20 :: rat)\<rfloor> \<le> nat \<lfloor>of_nat n * (99 / 100 :: rat)\<rfloor>"
    by (intro nat_mono floor_mono) simp
  show "n div 2 \<le> nat \<lfloor>of_nat n * (99 / 100 :: rat)\<rfloor>" using a b by simp
  show "nat \<lfloor>of_nat n * (99 / 100 :: rat)\<rfloor> < n" using assms by (simp add: nat_less_iff floor_less_iff)
  show "n div 2 < n" using assms by simp
qed

text \<open>
  The report of the benchmark. When the calls have ended without a failure and the clock has moved, there is a report if
  and only if there was a call; the figures are latencies of measured calls, rounded to a tenth of a millisecond, and
  minimum, median, 95th and 99th percentile and maximum ascend.
\<close>

theorem bench_report_ordered:
  assumes "wall \<noteq> 0"
  shows "if lat = [] then \<exists>e. bench_summary c n wall lat = Inl e
    else \<exists>r. bench_summary c n wall lat = Inr r \<and>
      sorted [br_min r, br_p50 r, br_p95 r, br_p99 r, br_max r] \<and>
      {br_min r, br_p50 r, br_p95 r, br_p99 r, br_max r} \<subseteq> py_round_to 1 ` set lat"
proof (cases "lat = []")
  case False
  let ?l = "sort lat" and ?n = "length lat"
  let ?i = "?n div 2" and ?j = "nat \<lfloor>of_nat ?n * (19 / 20 :: rat)\<rfloor>" and ?k = "nat \<lfloor>of_nat ?n * (99 / 100 :: rat)\<rfloor>"
  have q: "?i < ?n" "?i \<le> ?j" "?j \<le> ?k" "?k < ?n" using quantile_order [of ?n] False by simp_all
  have mem: "?l ! m \<in> set lat" if "m < ?n" for m using that by (metis length_sort nth_mem set_sort)
  have asc: "?l ! a \<le> ?l ! b" if "a \<le> b" "b < ?n" for a b using that by (simp add: sorted_nth_mono)
  have mm: "Min (set lat) \<in> set lat" "Max (set lat) \<in> set lat" using False by simp_all
  have ends: "Min (set lat) \<le> ?l ! ?i" "?l ! ?k \<le> Max (set lat)" using mem q by simp_all
  show ?thesis
    using assms False q mem [of ?i] mem [of ?j] mem [of ?k] asc [of ?i ?j] asc [of ?j ?k] ends mm
    by (auto simp: bench_summary_def Let_def nth_or_def intro!: py_round_to_mono)
qed (simp add: bench_summary_def nth_or_def)

theorem bench_report_ordered_witness:
  "\<exists>r. bench_summary 1 3 2 [5, 1, 9] = Inr r \<and> sorted [br_min r, br_p50 r, br_p95 r, br_p99 r, br_max r]"
  using bench_report_ordered [of 2 "[5, 1, 9]" 1 3] by auto

text \<open>With a concurrency of zero no call ever starts: the benchmark does not end.\<close>

theorem bench_zero_hangs:
  assumes "0 < n" shows "bench 0 n (Inr w) t0 evs t1 = None"
proof -
  obtain s where s: "bench_begin 0 n = Inr s" "b_permits s = 0" "b_queue s \<noteq> []" "b_running s = []" "b_failure s = None"
    using assms by (auto simp: bench_begin_def)
  have stuck: "bench_step s ev = None" for ev using s by (cases ev) (auto simp: dict_get_def split: list.splits)
  then show ?thesis using s by (cases evs) (simp_all add: bench_def)
qed

theorem bench_zero_hangs_witness: "bench 0 1 (Inr JNull) 0 [Started 0 1] 2 = None"
  using bench_zero_hangs [of 1 JNull 0 "[Started 0 1]" 2] by simp

end
