(* ===== verification/Legacy.thy ===== *)
theory Legacy
  imports Runnables_Props
begin

text \<open>
  \<^verbatim>\<open>remote_node.py\<close>: the two deprecated wrappers, on the runnables of \<^verbatim>\<open>runnables.py\<close> with their default retries. The
  \<^verbatim>\<open>client\<close> and \<^verbatim>\<open>reply_port\<close> arguments are ignored by the code.
\<close>

definition remote_node :: "texts \<Rightarrow> pystr \<Rightarrow> pystr \<Rightarrow> int \<Rightarrow> rat \<Rightarrow> (json \<Rightarrow> (nat \<Rightarrow> attempt) \<Rightarrow> json result option) result" where
  "remote_node tx node_name peer request_port timeout =
     rmap (\<lambda>rr state atts. fst (ainvoke tx rr state atts))
       (remote_runnable_new node_name (Inr peer) request_port timeout None None 2 (3 / 2))"

definition remote_echo_node :: "pystr \<Rightarrow> addr \<Rightarrow> json \<Rightarrow> exn option \<Rightarrow> bytes result \<Rightarrow> json result" where
  "remote_echo_node state_key peer state write chunk =
     rmap (\<lambda>r. JObj [(state_key, r)]) (echo_ainvoke peer state write chunk)"

text \<open>
  A state that comes back from the echo service in one chunk is reported as a good round trip under the key asked for.
\<close>

theorem echo_node_roundtrip:
  assumes "wf_json state"
  shows "\<exists>r. remote_echo_node key peer state None (Inr (frame_bytes state)) = Inr (JObj [(key, r)]) \<and>
    field r (u ''round_trip_ok'') = JBool True \<and> field r (u ''echoed_payload'') = JStr (json_dumps state)"
proof -
  have "utf8_decode_replace (frame_bytes state) = json_dumps state"
    using printable_ascii [OF json_dumps_printable [OF assms]] by (simp add: frame_bytes_def decode_replace_ascii)
  then show ?thesis
    by (simp add: remote_echo_node_def echo_ainvoke_def Let_def frame_bytes_encode [OF assms] field_def jget_def dict_get_def u_def)
qed

theorem echo_node_roundtrip_witness:
  "\<exists>r. remote_echo_node (u ''round_trip'') \<lparr>addr_network = 0, addr_node = 7\<rparr> (JInt 12) None (Inr (frame_bytes (JInt 12))) =
      Inr (JObj [(u ''round_trip'', r)]) \<and> field r (u ''round_trip_ok'') = JBool True"
  using echo_node_roundtrip [of "JInt 12" "u ''round_trip''" "\<lparr>addr_network = 0, addr_node = 7\<rparr>"] by auto

lemma retries_cong: "\<forall>i. k \<le> i \<and> i < k + n \<longrightarrow> once i = once' i \<Longrightarrow> retries once backoff k n = retries once' backoff k n"
proof (induction n arbitrary: k)
  case (Suc n)
  have "retries once backoff (Suc k) n = retries once' backoff (Suc k) n" using Suc.prems by (intro Suc.IH) simp
  moreover have "once k = once' k" using Suc.prems by simp
  ultimately show ?case by (simp split: option.splits sum.splits)
qed simp

text \<open>
  The legacy call goes through the retry policy: with the defaults, its result depends on at most three attempts.
\<close>

theorem remote_node_attempts:
  assumes "remote_node tx node_name peer port timeout = Inr call" "\<forall>i < 3. atts i = atts' i"
  shows "call state atts = call state atts'"
proof -
  obtain rr where rr: "remote_runnable_new node_name (Inr peer) port timeout None None 2 (3 / 2) = Inr rr"
    and c: "call = (\<lambda>state atts. fst (ainvoke tx rr state atts))"
    using assms(1) by (auto simp: remote_node_def rmap_def split: sum.splits)
  have "rr_max_retries rr = 2" using rr by (auto simp: remote_runnable_new_def rmap_def split: sum.splits)
  then have "ainvoke_with_retries tx rr v atts = ainvoke_with_retries tx rr v atts'" for v
    using assms(2) by (auto simp: ainvoke_with_retries_def total_attempts_def intro!: retries_cong)
  then show ?thesis by (simp add: c ainvoke_def split: sum.splits)
qed

theorem remote_node_attempts_witness:
  "\<exists>call. remote_node \<lparr>t_repr = (\<lambda>_. []), t_exn = (\<lambda>_. [])\<rparr> (u ''enrich'') (u ''worker'') 5000 60 = Inr call \<and>
    call JNull (\<lambda>_. att) = call JNull (\<lambda>i. if i < 3 then att else att')"
proof -
  let ?tx = "\<lparr>t_repr = (\<lambda>_. []), t_exn = (\<lambda>_. [])\<rparr>"
  obtain call where c: "remote_node ?tx (u ''enrich'') (u ''worker'') 5000 60 = Inr call"
    by (simp add: remote_node_def remote_runnable_new_def parse_peer_def u_def)
  from remote_node_attempts [OF c, of "\<lambda>_. att" "\<lambda>i. if i < 3 then att else att'"] c show ?thesis by auto
qed

end
