(* ===== verification/Spec2Isabelle.thy ===== *)
theory Spec2Isabelle
  imports Client_Props Checkpoint_Service Remote_Outcomes Tracing Discover Channel Lifecycle Metrics Worker_Main Testing Research_Demo Pilotctl Bench Legacy
begin

text \<open>
  A verification of the Python package \<^verbatim>\<open>pilot_langgraph\<close> (\<^verbatim>\<open>src/src/pilot_langgraph\<close>), which runs
  nodes of a LangGraph graph on remote peers of a Pilot network.

  \<^bold>\<open>The program.\<close> A process talks to the local Pilot daemon over a Unix socket
  (\<^verbatim>\<open>asyncio_client.py\<close>, frames of \<^verbatim>\<open>_ipc.py\<close>). A caller (\<^verbatim>\<open>runnables.py\<close>) dials a stream to a peer,
  writes one JSON request line and reads JSON reply lines, each with a \<^verbatim>\<open>done\<close> flag. The worker
  (\<^verbatim>\<open>server.py\<close>) accepts streams, checks access list, rate and concurrency limit, runs the
  registered handler behind its middleware, and answers. Two clients of this call path are in the
  package: the checkpoint saver (\<^verbatim>\<open>checkpoint.py\<close>), whose requests the handlers of
  \<^verbatim>\<open>checkpoint_worker.py\<close> answer from a store in memory or in SQLite, and the command line worker
  (\<^verbatim>\<open>worker.py\<close>) with its hot reload. Event channels (\<^verbatim>\<open>channel.py\<close>) use the daemon's broker on a
  stream; \<^verbatim>\<open>metrics.py\<close> exports the counters of a worker; \<^verbatim>\<open>trust.py\<close> and \<^verbatim>\<open>transport.py\<close> work
  through the \<^verbatim>\<open>pilotctl\<close> program; \<^verbatim>\<open>testing.py\<close> runs a handler without a network.

  \<^bold>\<open>The theories and the code they model.\<close> A value of Python's \<^verbatim>\<open>str\<close> is a list of code points, a
  \<^verbatim>\<open>dict\<close> an association list with the insertion order, \<^verbatim>\<open>bytes\<close> a list of 8-bit words, a float that is a
  time or a delay a rational number, a raised exception the left summand of a result.

    \<^item> \<^verbatim>\<open>Prelude\<close>, \<^verbatim>\<open>Utf8\<close>, \<^verbatim>\<open>Text\<close>: results, exceptions, dictionaries, big-endian integers, UTF-8,
      decimal and hexadecimal text. The locale \<open>incremental\<close> is the contract of a parser that is fed
      chunks and keeps a leftover.
    \<^item> \<^verbatim>\<open>Ipc\<close> (\<^verbatim>\<open>_ipc.py\<close>): addresses, request encoders, push parsers, the event codec. Round trips
      of addresses and events; \<open>split_events\<close> is an \<open>incremental\<close> parser (interpretation \<open>ev\<close>).
    \<^item> \<^verbatim>\<open>Json\<close>, \<^verbatim>\<open>Json_Lemmas\<close>, \<^verbatim>\<open>Json_Roundtrip\<close>: \<^verbatim>\<open>json.dumps\<close> and \<^verbatim>\<open>json.loads\<close> of the standard library,
      that the second inverts the first, that the text is printable ASCII and that no proper prefix of an object's text
      parses. \<^verbatim>\<open>Wire\<close> (\<^verbatim>\<open>wire.py\<close>, \<^verbatim>\<open>errors.py\<close>): requests, replies, typed errors; these three facts are
      the assumptions of the locale \<open>frame_codec\<close> of newline-terminated frames (interpretation \<open>jf\<close>).
    \<^item> \<^verbatim>\<open>Client\<close> (\<^verbatim>\<open>asyncio_client.py\<close>): the state of a connection and every piece of code between two
      suspension points. \<^verbatim>\<open>Client_Steps\<close> interleaves them in a step relation and proves the invariant of
      the waiters, \<^verbatim>\<open>Client_Order\<close> that replies are matched in order, \<^verbatim>\<open>Client_Streams\<close> that stream data is
      neither lost nor reordered, \<^verbatim>\<open>Client_Props\<close> that framing does not depend on chunk boundaries
      (interpretation \<open>rl\<close>), that writes are cut to the message limit and that closing settles every waiter.
    \<^item> \<^verbatim>\<open>Call_Limits\<close> (\<^verbatim>\<open>_Stats\<close>, \<^verbatim>\<open>_RateLimiter\<close> of \<^verbatim>\<open>server.py\<close>): the limiter against the sliding-window
      rule. \<^verbatim>\<open>Server\<close> (\<^verbatim>\<open>_Registration\<close>, \<^verbatim>\<open>WorkerServer\<close>): registration, admission, middleware, streaming,
      one call from the request bytes to the reply frames (\<open>handle_one\<close>). \<^verbatim>\<open>Server_Props\<close>: exactly one final
      frame per well-formed call, the concurrency limit and the counters in every reachable state, the
      middleware chain as a composition. \<^verbatim>\<open>Lifecycle\<close> (\<^verbatim>\<open>serve_forever\<close>, \<^verbatim>\<open>_drain_inflight\<close>,
      \<^verbatim>\<open>_run_periodic\<close>): the accept loop on the connection of \<^verbatim>\<open>Client\<close>, no announced call is lost, and
      what holds when the worker has stopped.
    \<^item> \<^verbatim>\<open>Runnables\<close>, \<^verbatim>\<open>Runnables_Props\<close> (\<^verbatim>\<open>runnables.py\<close>): connection registry, frame reader, retries,
      validation, streaming, discovery, fan-out and echo.
    \<^item> \<^verbatim>\<open>Checkpoint_Store\<close> (\<^verbatim>\<open>checkpoint_worker.py\<close>): both stores. \<^verbatim>\<open>Checkpoint_Props\<close> states their
      contract as the locale \<open>checkpoint_store\<close> (abstract state, simulation laws) and interprets it by
      both (\<open>mem\<close>, \<open>sql\<close>); \<^verbatim>\<open>Checkpoint_Backend\<close> by the one that \<^verbatim>\<open>make_store\<close> chooses (\<open>chosen\<close>).
      \<^verbatim>\<open>Saver\<close>, \<^verbatim>\<open>Saver_Props\<close> (\<^verbatim>\<open>checkpoint.py\<close>): Base64, typed blobs, the saver over a network that
      loses requests and replies.
    \<^item> \<^verbatim>\<open>Channel\<close> (\<^verbatim>\<open>channel.py\<close>), \<^verbatim>\<open>Metrics\<close> (\<^verbatim>\<open>metrics.py\<close>, with a scraper as its reader),
      \<^verbatim>\<open>Worker\<close> and \<^verbatim>\<open>Worker_Main\<close> (\<^verbatim>\<open>worker.py\<close>: hot reload and log lines; the process with its signal handlers, metrics
      server, reload watcher and exit code), \<^verbatim>\<open>Testing\<close> (\<^verbatim>\<open>testing.py\<close>), \<^verbatim>\<open>Trust\<close> (\<^verbatim>\<open>trust.py\<close>),
      \<^verbatim>\<open>Transport\<close> and \<^verbatim>\<open>Pilotctl\<close> (\<^verbatim>\<open>transport.py\<close>: the router and what it answers; the client's command lines and environment, and
      the loop of the router), \<^verbatim>\<open>Legacy\<close> (\<^verbatim>\<open>remote_node.py\<close>).
    \<^item> \<^verbatim>\<open>Tracing\<close> (\<^verbatim>\<open>_otel.py\<close> and the spans of \<^verbatim>\<open>ainvoke\<close> and \<^verbatim>\<open>_handle_one\<close>): that tracing changes no call, which
      is why the other theories leave it out, and that caller and worker share a trace. \<^verbatim>\<open>Discover\<close>
      (\<^verbatim>\<open>src/tools/discover.py\<close>): the report on a worker. \<^verbatim>\<open>Bench\<close> (\<^verbatim>\<open>src/tools/bench.py\<close>): the calls under the semaphore as steps, and
      the report on their latencies; \<^verbatim>\<open>Int_Text\<close> reads the lists of integers in its arguments and in environment variables.
    \<^item> \<^verbatim>\<open>Example_Handlers\<close> (\<^verbatim>\<open>src/examples/worker_handlers.py\<close>): the handlers of the example worker, who may call them, and that
      findings are ranked. \<^verbatim>\<open>Research_Demo\<close> (\<^verbatim>\<open>src/examples/multi_agent_research.py\<close>): the nodes of the research graph over that worker.
    \<^item> \<^verbatim>\<open>Remote_Call\<close> joins caller, wire and worker; \<^verbatim>\<open>Remote_Outcomes\<close> shows for the same chain which typed error a rejected call
      raises and that a remote stream yields what the generator yields; \<^verbatim>\<open>Checkpoint_Service\<close> joins saver, wire, worker and store
      (\<^verbatim>\<open>register\<close> of \<^verbatim>\<open>checkpoint_worker.py\<close>); this theory holds the main result, that a remote call is a
      local call.

  \<^bold>\<open>Bounds and fuel.\<close> \<open>loads_str\<close> runs the JSON scanner with the fuel \<open>2 * length s + 2\<close>; \<open>jvalue_fuel\<close>
  shows that more fuel changes nothing. The middleware chain runs with the number of middlewares as
  its fuel, enough by \<open>next_fuel\<close>. Every other loop of the code is a total function: it recurs on the
  input that remains, or on the list of what the environment does (chunks that arrive, attempts,
  wake-ups). That the loops which the environment could keep going end is proved for the retries of a
  call, the polling of the trust list and the draining shutdown.

  \<^bold>\<open>Parameters.\<close> Handlers, middleware and validation models are functions in the state of the worker;
  the records \<open>env\<close>, \<open>texts\<close>, \<open>attempt\<close> and \<open>trust_io\<close> hold what the environment does: clock
  readings, random identifiers, what a read or a write raises, the text of exceptions that the library writes. The
  serializer of LangGraph is the record \<open>serde\<close>, the OpenTelemetry package the record \<open>otel\<close>,
  the machine of the example handlers the record \<open>host\<close>, the files, signals and sockets of a worker process the record \<open>platform\<close>, and
  the \<^verbatim>\<open>pilotctl\<close> program the function \<open>ctl\<close>.

  \<^bold>\<open>Not modelled.\<close> The exports of \<^verbatim>\<open>__init__.py\<close> and \<^verbatim>\<open>pilot_client.py\<close>, and the examples that only assemble a LangGraph graph
  around the package or call a language model. Of modelled files: argument parsing, the background threads that
  run the event loop for synchronous callers, opening sockets, SQLite's locks and
  per-thread connections (an operation is one step), the rounding of floats. Two markers end a
  computation where the model stops: \<open>UnmodelledEncoding\<close> (\<^verbatim>\<open>json.loads\<close> of UTF-16, UTF-32 or a byte order
  mark) and \<open>UnmodelledType\<close> (an identifier in a payload that is not a string, \<^verbatim>\<open>int()\<close> of a
  JSON string or float); no property states
  anything that holds only because of them.
\<close>

section \<open>A remote call is a local call\<close>

text \<open>
  C1: a remote call is a local call. The caller writes its request, which reaches the worker in
  any chunks; the worker runs the handler registered under that name; its reply reaches the
  caller in any chunks. Then the caller gets the value that the handler returns, or a
  \<^verbatim>\<open>PilotHandlerError\<close> with the name and the text of the exception that it raises.
\<close>

theorem remote_call_is_local_call:
  assumes srv: "dict_get (handlers srv) (rr_node rr) = Some r" "r < length (regs srv)" "plain (regs srv ! r)"
      "fn (regs srv ! r) = UserFn f" "input_model (regs srv ! r) = None" "output_model (regs srv ! r) = None"
      "middlewares srv = []" "writes_ok env"
    and out: "\<And>c. fn_call f input c = out" "\<And>vs x. out \<noteq> Inr (VGen vs x)" "\<And>e. out = Inl e \<Longrightarrow> is_Exception e"
      "\<And>s. out \<noteq> Inl (TimeoutError s)" "frame_ok (local_frame env out)"
    and req: "reaches rr att a" "wf_json (request_of rr att input)"
      "fst (aframes tx rr att input) = Some (concat rcs)" "\<forall>c \<in> set rcs. c \<noteq> []"
    and rep: "concat cs = jf.framed (fst (snd (handle_one srv env peer (map Inr rcs))))" "reads_chunks rr att cs"
  shows "ainvoke_once tx rr input att = Some (remote_outcome env (rr_node rr) (addr_str a) out)"
proof -
  obtain ms where ms: "read_request (map Inr rcs) [] = Inr (Some (JObj ms, frame_bytes (JObj ms)))"
      "dict_get ms (u ''node'') = Some (JStr (rr_node rr))" "dict_get ms (u ''payload'') = Some input"
    by (rule request_arrives [OF req])
  have fr: "fst (snd (handle_one srv env peer (map Inr rcs))) = [local_frame env out]"
    by (rule handle_one_local [OF srv(8) ms srv(1-7) out(1-4)])
  have fin: "is_final (local_frame env out)" by (auto simp: is_final_def local_frame_def split: sum.splits)
  have "ainvoke_once tx rr input att = Some (reply_outcome (rr_node rr) (addr_str a) [] (local_frame env out))"
    by (rule single_reply [OF req(1,2) out(5) fin _ rep(2)]) (simp add: rep(1) fr)
  then show ?thesis by (simp add: reply_outcome_local [OF out(5)])
qed

lemma sample_node: "rr_node sample_runnable = u ''echo''"
  by (simp add: sample_runnable_def)

theorem remote_call_is_local_call_witness:
  "ainvoke_once sample_texts sample_runnable (JInt 7)
     (sample_attempt (zip (replicate 1 1)
       (map Inr [jf.framed (fst (snd (handle_one (echo_server default_options) quiet_env None
          [Inr (frame_bytes (call_request (u ''echo'') (JInt 7)))])))]))) =
   Some (Inr (JInt 7))"
proof -
  let ?f = "\<lparr>fn_kind = FSync, fn_signature = Some [PositionalOrKeyword], fn_call = (\<lambda>p _. Inr (VJson p))\<rparr>"
  let ?rq = "frame_bytes (call_request (u ''echo'') (JInt 7))"
  let ?fs = "fst (snd (handle_one (echo_server default_options) quiet_env None (map Inr [?rq])))"
  let ?att = "sample_attempt (zip (replicate (length [jf.framed ?fs]) 1) (map Inr [jf.framed ?fs]))"
  have ok: "frame_ok (call_request (u ''echo'') (JInt 7))" by (simp add: frame_ok_def call_request_def scalar_u)
  have rd: "read_request (map Inr [?rq]) [] = Inr (Some (call_request (u ''echo'') (JInt 7), ?rq))"
    using read_request_chunks [OF ok, of "[]" "[?rq]" "[]"] jf.enc_nonempty [OF ok] by simp
  have reg: "regs (echo_server default_options) ! 2 = new_registration echo_fn default_options"
    by (rule echo_server_lookup(2))
  have rd': "read_request (map Inr [?rq]) [] = Inr (Some (JObj [(u ''node'', JStr (u ''echo'')), (u ''payload'', JInt 7)], ?rq))"
    using rd by (simp only: call_request_def)
  have fs: "?fs = [local_frame quiet_env (Inr (VJson (JInt 7)))]"
    by (rule handle_one_local [OF quiet_writes_ok rd', where r = 2 and f = ?f and name = "u ''echo''" and payload = "JInt 7"])
      (simp_all add: dict_get_pair echo_server_lookup echo_server_plain echo_server_run, simp_all add: new_registration_def echo_fn_def)
  have ne: "jf.framed ?fs \<noteq> []" unfolding fs by simp
  have "ainvoke_once sample_texts sample_runnable (JInt 7) ?att =
      Some (remote_outcome quiet_env (rr_node sample_runnable) (addr_str \<lparr>addr_network = 0, addr_node = 7\<rparr>) (Inr (VJson (JInt 7))))"
  proof (rule remote_call_is_local_call [where srv = "echo_server default_options" and r = 2 and f = ?f and peer = None
        and rcs = "[?rq]" and cs = "[jf.framed ?fs]", OF _ _ _ _ _ _ _ quiet_writes_ok _ _ _ _ _ sample_reaches])
    show "reads_chunks sample_runnable ?att [jf.framed ?fs]"
      by (rule sample_reads) (use ne in simp)
  qed (simp_all add: echo_server_lookup echo_server_plain echo_server_run sample_request aframes_reaches [OF sample_reaches]
        jf.enc_nonempty [OF ok] local_frame_def as_json_def sample_node,
      simp_all add: new_registration_def echo_fn_def)
  then show ?thesis by (simp add: remote_outcome_def as_json_def)
qed

end
